(* ===== verification/Xv6_Prelude.thy ===== *)
theory Xv6_Prelude
  imports Main "HOL-Library.Word"
begin

unbundle bit_operations_syntax

section \<open>Shared vocabulary of the xv6 development\<close>

text \<open>
  Machine integers, the names the kernel's locks and sleep channels go by, and the
  outcome type of a kernel routine. A routine of the C source is a function from a kernel state
  to an outcome: it returns a value and a new state, it calls \<open>panic\<close>, it gives up the
  processor in \<open>sleep\<close>, or it spins on a spinlock that another processor holds. The state is
  a record that each component extends with its own fields.
\<close>

subsection \<open>Machine integers\<close>

type_synonym u8 = "8 word"
type_synonym u16 = "16 word"
type_synonym u32 = "32 word"

lemma unat_u32_less: "unat (a :: u32) < 4294967296"
  using unsigned_less [of a] by simp

text \<open>A loop whose counter grows without wrapping ends.\<close>

lemma word_up_measure: "(a :: u32) < b \<Longrightarrow> 2 ^ 32 - unat b < 2 ^ 32 - unat a"
  using unat_u32_less [of b] by (simp add: word_less_nat_alt)

subsection \<open>Names of locks and sleep channels\<close>

text \<open>
  The source identifies a spinlock and a sleep channel by the address of a kernel object. Only
  equality of these addresses matters, so each object has a constructor of its own. Arrays of
  objects are indexed (\<open>bcache.buf[i]\<close>, \<open>icache.inode[i]\<close>, \<open>ptable.proc[i]\<close>);
  a pipe is named by the address of the page that holds it.
\<close>

datatype slname = SLBuf nat | SLInode nat

datatype lockname =
    LPtable | LTicks | LKmem | LBcache | LIcache | LLog | LFtable | LCons | LIde
  | LSleep slname | LPipe u32

datatype chan =
    ChTicks | ChLog | ChInput | ChProc nat | ChBuf nat | ChSleep slname
  | ChPipeRead u32 | ChPipeWrite u32

subsection \<open>Outcomes of kernel routines\<close>

datatype ('a, 's) outcome =
    Ret 'a 's            \<comment> \<open>the routine returns\<close>
  | Panic string         \<comment> \<open>it calls \<open>panic\<close>, which never returns\<close>
  | Block chan 's        \<comment> \<open>it switches to the scheduler inside \<open>sleep\<close>\<close>
  | Resched 's           \<comment> \<open>it switches to the scheduler inside \<open>yield\<close> or \<open>exit\<close>\<close>
  | Spin lockname 's     \<comment> \<open>it loops in \<open>acquire\<close> on a lock held elsewhere\<close>

type_synonym ('a, 's) kop = "'s \<Rightarrow> ('a, 's) outcome"

named_theorems kop "evaluation of routines built from the combinators"

definition ret :: "'a \<Rightarrow> ('a, 's) kop" where
  [kop]: "ret x s = Ret x s"

definition bnd :: "('a, 's) kop \<Rightarrow> ('a \<Rightarrow> ('b, 's) kop) \<Rightarrow> ('b, 's) kop" where
  [kop]: "bnd m f s =
     (case m s of
        Ret x s' \<Rightarrow> f x s'
      | Panic e \<Rightarrow> Panic e
      | Block c s' \<Rightarrow> Block c s'
      | Resched s' \<Rightarrow> Resched s'
      | Spin l s' \<Rightarrow> Spin l s')"

definition thn :: "('a, 's) kop \<Rightarrow> ('b, 's) kop \<Rightarrow> ('b, 's) kop" where
  [kop]: "thn m k = bnd m (\<lambda>_. k)"

definition gets :: "('s \<Rightarrow> 'a) \<Rightarrow> ('a, 's) kop" where
  [kop]: "gets f s = Ret (f s) s"

definition upd :: "('s \<Rightarrow> 's) \<Rightarrow> (unit, 's) kop" where
  [kop]: "upd f s = Ret () (f s)"

definition kpanic :: "string \<Rightarrow> ('a, 's) kop" where
  [kop]: "kpanic e s = Panic e"

definition kwhen :: "bool \<Rightarrow> (unit, 's) kop \<Rightarrow> (unit, 's) kop" where
  [kop]: "kwhen b m = (if b then m else ret ())"

fun kfor :: "'b list \<Rightarrow> ('b \<Rightarrow> (unit, 's) kop) \<Rightarrow> (unit, 's) kop" where
  "kfor [] f = ret ()"
| "kfor (x # xs) f = thn (f x) (kfor xs f)"

lemma bnd_assoc: "bnd (bnd m f) g = bnd m (\<lambda>x. bnd (f x) g)"
  by (rule ext) (simp add: kop split: outcome.splits)

lemma bnd_ret_left [simp]: "bnd (ret x) f = f x"
  by (rule ext) (simp add: kop)

lemma bnd_gets: "bnd (gets f) g s = g (f s) s"
  by (simp add: kop)

lemma bnd_eq_Ret:
  "bnd m f s = Ret y t \<longleftrightarrow> (\<exists>x u. m s = Ret x u \<and> f x u = Ret y t)"
  by (auto simp: kop split: outcome.splits)

lemma thn_eq_Ret: "thn m k s = Ret y t \<longleftrightarrow> (\<exists>x u. m s = Ret x u \<and> k u = Ret y t)"
  by (simp add: thn_def bnd_eq_Ret)

text \<open>
  \<open>returns m s\<close> is the claim that a routine returns at all; \<open>ensures m s Q\<close> that it
  returns in a state related to its value by \<open>Q\<close>.
\<close>

definition returns :: "('a, 's) kop \<Rightarrow> 's \<Rightarrow> bool" where
  "returns m s = (case m s of Ret _ _ \<Rightarrow> True | _ \<Rightarrow> False)"

definition ensures :: "('a, 's) kop \<Rightarrow> 's \<Rightarrow> ('a \<Rightarrow> 's \<Rightarrow> bool) \<Rightarrow> bool" where
  "ensures m s Q = (case m s of Ret x t \<Rightarrow> Q x t | _ \<Rightarrow> False)"

lemma ensures_iff: "ensures m s Q \<longleftrightarrow> (\<exists>x t. m s = Ret x t \<and> Q x t)"
  by (simp add: ensures_def split: outcome.splits)

lemma ensures_bnd: "ensures (bnd m f) s Q \<longleftrightarrow> ensures m s (\<lambda>x t. ensures (f x) t Q)"
  by (simp add: ensures_def kop split: outcome.splits)

lemma ensures_thn: "ensures (thn m k) s Q \<longleftrightarrow> ensures m s (\<lambda>_ t. ensures k t Q)"
  by (simp add: thn_def ensures_bnd)

lemma ensures_mono: "ensures m s Q \<Longrightarrow> (\<And>x t. Q x t \<Longrightarrow> R x t) \<Longrightarrow> ensures m s R"
  by (auto simp: ensures_iff)

lemma ensures_returns: "ensures m s Q \<Longrightarrow> returns m s"
  by (auto simp: ensures_iff returns_def)

subsection \<open>Lists\<close>

text \<open>The first index of a list whose element satisfies a test: the kernel's table scans.\<close>

fun find_index :: "('a \<Rightarrow> bool) \<Rightarrow> 'a list \<Rightarrow> nat option" where
  "find_index P [] = None"
| "find_index P (x # xs) = (if P x then Some 0 else map_option Suc (find_index P xs))"

lemma find_index_None_iff: "find_index P xs = None \<longleftrightarrow> (\<forall>x \<in> set xs. \<not> P x)"
  by (induction xs) auto

lemma find_index_Some_iff:
  "find_index P xs = Some i \<longleftrightarrow>
     i < length xs \<and> P (xs ! i) \<and> (\<forall>j < i. \<not> P (xs ! j))"
proof (induction xs arbitrary: i)
  case Nil
  then show ?case by simp
next
  case (Cons x xs)
  show ?case
  proof (cases i)
    case 0
    then show ?thesis by auto
  next
    case (Suc k)
    have "(\<forall>j < Suc k. \<not> P ((x # xs) ! j)) \<longleftrightarrow> \<not> P x \<and> (\<forall>j < k. \<not> P (xs ! j))"
      by (auto simp: less_Suc_eq_0_disj)
    with Suc Cons.IH [of k] show ?thesis by auto
  qed
qed

lemma find_index_SomeD:
  assumes "find_index P xs = Some i"
  shows "i < length xs" and "P (xs ! i)" and "\<And>j. j < i \<Longrightarrow> \<not> P (xs ! j)"
  using assms by (auto simp: find_index_Some_iff)

lemma find_index_less: "find_index P xs = Some i \<Longrightarrow> i < length xs"
  by (simp add: find_index_Some_iff)

lemma find_SomeD: "find P xs = Some x \<Longrightarrow> P x \<and> x \<in> set xs"
  by (auto simp: find_Some_iff)

lemma find_index_update:
  assumes "i < length xs" and "P y = P (xs ! i)"
  shows "find_index P (xs[i := y]) = find_index P xs"
  using assms
proof (induction xs arbitrary: i)
  case (Cons x xs)
  then show ?case by (cases i) auto
qed simp

text \<open>Updating one element of a list through a function.\<close>

definition list_upd :: "'a list \<Rightarrow> nat \<Rightarrow> ('a \<Rightarrow> 'a) \<Rightarrow> 'a list" where
  "list_upd xs i f = xs[i := f (xs ! i)]"

lemma length_list_upd [simp]: "length (list_upd xs i f) = length xs"
  by (simp add: list_upd_def)

lemma nth_list_upd [simp]:
  "j < length xs \<Longrightarrow> list_upd xs i f ! j = (if j = i then f (xs ! j) else xs ! j)"
  by (auto simp: list_upd_def nth_list_update)

lemma list_upd_twice [simp]:
  "i < length xs \<Longrightarrow> list_upd (list_upd xs i f) i g = list_upd xs i (g \<circ> f)"
  by (simp add: list_upd_def)

lemma list_upd_id: "i < length xs \<Longrightarrow> f (xs ! i) = xs ! i \<Longrightarrow> list_upd xs i f = xs"
  by (simp add: list_upd_def)

end
