(* ===== verification/Spinlock.thy ===== *)
theory Spinlock
  imports Xv6_Prelude
begin

section \<open>Processors and spinlocks (spinlock.c, and mycpu/myproc of proc.c)\<close>

text \<open>
  The lowest layer of the kernel state: the processors' registers, the \<open>cpus\<close> array and the
  spinlocks. \<open>cur\<close> is the physical processor that executes; \<open>regs\<close> holds the registers the
  C code reaches through inline assembly (the interrupt flag, the page-table register and the
  local APIC id). The debugging field \<open>pcs\<close> of a lock, filled by walking the machine stack,
  is left out.
\<close>

subsection \<open>State\<close>

record preg =
  r_lapicid :: u8
  r_if :: bool
  r_cr3 :: u32

record spinlock =
  sl_name :: string
  sl_locked :: bool
  sl_cpu :: "nat option"

record cpu =
  apicid :: u8
  started :: bool
  ncli :: int
  intena :: bool
  cproc :: "nat option"

record mach =
  cur :: nat
  regs :: "nat \<Rightarrow> preg"
  ncpu :: nat
  cpus :: "cpu list"
  locks :: "lockname \<Rightarrow> spinlock"

subsection \<open>Operations\<close>

definition readeflags_IF :: "'a mach_scheme \<Rightarrow> bool" where
  "readeflags_IF s = r_if (regs s (cur s))"

definition lapicid :: "'a mach_scheme \<Rightarrow> u8" where
  "lapicid s = r_lapicid (regs s (cur s))"

definition cli :: "'a mach_scheme \<Rightarrow> 'a mach_scheme" where
  "cli s = s\<lparr>regs := (regs s)(cur s := (regs s (cur s))\<lparr>r_if := False\<rparr>)\<rparr>"

definition sti :: "'a mach_scheme \<Rightarrow> 'a mach_scheme" where
  "sti s = s\<lparr>regs := (regs s)(cur s := (regs s (cur s))\<lparr>r_if := True\<rparr>)\<rparr>"

definition cpu_ix :: "'a mach_scheme \<Rightarrow> nat option" where
  "cpu_ix s = find_index (\<lambda>c. apicid c = lapicid s) (take (ncpu s) (cpus s))"

definition mycpu :: "(nat, 'a mach_scheme) kop" where
  "mycpu s =
     (if readeflags_IF s then Panic (''mycpu called with interrupts enabled'' @ [CHR 0x0A])
      else case cpu_ix s of
             Some i \<Rightarrow> Ret i s
           | None \<Rightarrow> Panic (''unknown apicid'' @ [CHR 0x0A]))"

definition cpuid :: "(nat, 'a mach_scheme) kop" where
  "cpuid = mycpu"

definition set_cpu :: "nat \<Rightarrow> (cpu \<Rightarrow> cpu) \<Rightarrow> 'a mach_scheme \<Rightarrow> 'a mach_scheme" where
  "set_cpu i f s = s\<lparr>cpus := list_upd (cpus s) i f\<rparr>"

definition pushcli :: "(unit, 'a mach_scheme) kop" where
  "pushcli =
     bnd (gets readeflags_IF) (\<lambda>eflags.
     thn (upd cli)
     (bnd mycpu (\<lambda>i.
     bnd (gets (\<lambda>s. ncli (cpus s ! i))) (\<lambda>n.
     thn (kwhen (n = 0) (upd (set_cpu i (\<lambda>c. c\<lparr>intena := eflags\<rparr>))))
     (upd (set_cpu i (\<lambda>c. c\<lparr>ncli := ncli c + 1\<rparr>)))))))"

definition popcli :: "(unit, 'a mach_scheme) kop" where
  "popcli =
     bnd (gets readeflags_IF) (\<lambda>eflags.
     if eflags then kpanic ''popcli - interruptible'' else
     bnd mycpu (\<lambda>i.
     thn (upd (set_cpu i (\<lambda>c. c\<lparr>ncli := ncli c - 1\<rparr>)))
     (bnd (gets (\<lambda>s. cpus s ! i)) (\<lambda>c.
     if ncli c < 0 then kpanic ''popcli'' else
     kwhen (ncli c = 0 \<and> intena c) (upd sti)))))"

definition initlock :: "lockname \<Rightarrow> string \<Rightarrow> (unit, 'a mach_scheme) kop" where
  "initlock l nm =
     upd (\<lambda>s. s\<lparr>locks := (locks s)(l := \<lparr>sl_name = nm, sl_locked = False, sl_cpu = None\<rparr>)\<rparr>)"

definition holding :: "lockname \<Rightarrow> (bool, 'a mach_scheme) kop" where
  "holding l =
     thn pushcli
     (bnd mycpu (\<lambda>i.
     bnd (gets (\<lambda>s. sl_locked (locks s l) \<and> sl_cpu (locks s l) = Some i)) (\<lambda>r.
     thn popcli (ret r))))"

text \<open>
  The loop \<open>while(xchg(&lk->locked, 1) != 0)\<close> ends at once on a free lock. On a lock that is
  held it repeats the same exchange until another processor releases the lock: outcome
  \<open>Spin\<close>.
\<close>

definition xchg_loop :: "lockname \<Rightarrow> (unit, 'a mach_scheme) kop" where
  "xchg_loop l s =
     (if sl_locked (locks s l) then Spin l s
      else Ret () (s\<lparr>locks := (locks s)(l := (locks s l)\<lparr>sl_locked := True\<rparr>)\<rparr>))"

definition acquire :: "lockname \<Rightarrow> (unit, 'a mach_scheme) kop" where
  "acquire l =
     thn pushcli
     (bnd (holding l) (\<lambda>h.
     if h then kpanic ''acquire'' else
     thn (xchg_loop l)
     (bnd mycpu (\<lambda>i.
     upd (\<lambda>s. s\<lparr>locks := (locks s)(l := (locks s l)\<lparr>sl_cpu := Some i\<rparr>)\<rparr>)))))"

definition release :: "lockname \<Rightarrow> (unit, 'a mach_scheme) kop" where
  "release l =
     bnd (holding l) (\<lambda>h.
     if \<not> h then kpanic ''release'' else
     thn (upd (\<lambda>s. s\<lparr>locks := (locks s)(l := (locks s l)\<lparr>sl_cpu := None\<rparr>)\<rparr>))
     (thn (upd (\<lambda>s. s\<lparr>locks := (locks s)(l := (locks s l)\<lparr>sl_locked := False\<rparr>)\<rparr>))
     popcli))"

definition myproc :: "(nat option, 'a mach_scheme) kop" where
  "myproc =
     thn pushcli
     (bnd mycpu (\<lambda>c.
     bnd (gets (\<lambda>s. cproc (cpus s ! c))) (\<lambda>p.
     thn popcli (ret p))))"

subsection \<open>What the operations do on a well-formed machine\<close>

text \<open>
  \<open>mach_ok\<close>: the executing processor finds itself in \<open>cpus\<close>, its nesting depth is not
  negative, and interrupts are off while it is positive.
\<close>

definition me :: "'a mach_scheme \<Rightarrow> nat" where
  "me s = the (cpu_ix s)"

definition mach_ok :: "'a mach_scheme \<Rightarrow> bool" where
  "mach_ok s \<longleftrightarrow>
     cpu_ix s \<noteq> None \<and> 0 \<le> ncli (cpus s ! me s) \<and>
     (0 < ncli (cpus s ! me s) \<longrightarrow> \<not> readeflags_IF s)"

definition lock_free :: "lockname \<Rightarrow> 'a mach_scheme \<Rightarrow> bool" where
  "lock_free l s \<longleftrightarrow> \<not> sl_locked (locks s l) \<and> sl_cpu (locks s l) = None"

text \<open>The states after \<open>pushcli\<close>, after a matched pair, and after \<open>acquire\<close>.\<close>

definition cli_on :: "'a mach_scheme \<Rightarrow> 'a mach_scheme" where
  "cli_on s = set_cpu (me s)
     (\<lambda>c. c\<lparr>intena := (if ncli c = 0 then readeflags_IF s else intena c), ncli := ncli c + 1\<rparr>) (cli s)"

definition settle :: "'a mach_scheme \<Rightarrow> 'a mach_scheme" where
  "settle s = set_cpu (me s)
     (\<lambda>c. c\<lparr>intena := (if ncli c = 0 then readeflags_IF s else intena c)\<rparr>) s"

definition lock_on :: "lockname \<Rightarrow> 'a mach_scheme \<Rightarrow> 'a mach_scheme" where
  "lock_on l s = (cli_on s)\<lparr>locks := (locks s)(l :=
     (locks s l)\<lparr>sl_locked := True, sl_cpu := Some (me s)\<rparr>)\<rparr>"

lemmas mach_defs = readeflags_IF_def lapicid_def cli_def sti_def cpu_ix_def set_cpu_def me_def


lemma cpu_upd_order [simp]:
  "c\<lparr>ncli := n, intena := b\<rparr> = c\<lparr>intena := b, ncli := n\<rparr>"
  "ncli c = n \<Longrightarrow> c\<lparr>intena := b, ncli := n\<rparr> = c\<lparr>intena := b\<rparr>"
  "ncli c = n \<Longrightarrow> c\<lparr>ncli := n\<rparr> = c"
  by (simp_all add: cpu.equality)

lemma spinlock_upd_order [simp]:
  "k\<lparr>sl_cpu := a, sl_locked := b\<rparr> = k\<lparr>sl_locked := b, sl_cpu := a\<rparr>"
  by simp

lemma find_index_map: "find_index P (map g xs) = find_index (\<lambda>x. P (g x)) xs"
  by (induction xs) auto

lemma cpu_ix_alt: "cpu_ix s = find_index (\<lambda>a. a = lapicid s) (take (ncpu s) (map apicid (cpus s)))"
  by (simp add: cpu_ix_def find_index_map take_map)

lemma map_list_upd_same: "(\<And>x. g (f x) = g x) \<Longrightarrow> map g (list_upd xs i f) = map g xs"
  by (cases "i < length xs") (auto simp: list_upd_def map_update list_update_beyond
      intro: nth_equalityI simp: nth_list_update)

lemma cpu_ix_set_cpu [simp]:
  "(\<And>c. apicid (f c) = apicid c) \<Longrightarrow> cpu_ix (set_cpu i f s) = cpu_ix s"
  by (simp add: cpu_ix_alt set_cpu_def map_list_upd_same lapicid_def)

lemma cpu_ix_cli [simp]: "cpu_ix (cli s) = cpu_ix s"
  by (simp add: cpu_ix_def cli_def lapicid_def)

lemma cpu_ix_sti [simp]: "cpu_ix (sti s) = cpu_ix s"
  by (simp add: cpu_ix_def sti_def lapicid_def)

lemma cpu_ix_locks [simp]: "cpu_ix (s\<lparr>locks := x\<rparr>) = cpu_ix s"
  by (simp add: cpu_ix_def lapicid_def)

lemma me_cong: "cpu_ix t = cpu_ix s \<Longrightarrow> me t = me s"
  by (simp add: me_def)

lemma mach_ok_ix: "mach_ok s \<Longrightarrow> cpu_ix s = Some (me s)"
  by (auto simp: mach_ok_def me_def)

lemma mach_ok_less: "mach_ok s \<Longrightarrow> me s < length (cpus s)"
  by (drule mach_ok_ix) (auto simp: cpu_ix_def dest: find_index_less)

lemma if_cli [simp]: "readeflags_IF (cli s) = False" "readeflags_IF (sti s) = True"
  by (simp_all add: mach_defs)

lemma if_set_cpu [simp]: "readeflags_IF (set_cpu i f s) = readeflags_IF s"
  by (simp add: mach_defs)

lemma if_locks [simp]: "readeflags_IF (s\<lparr>locks := x\<rparr>) = readeflags_IF s"
  by (simp add: readeflags_IF_def)

lemma cpus_cli [simp]: "cpus (cli s) = cpus s" "cpus (sti s) = cpus s"
  by (simp_all add: mach_defs)

lemma cpus_set_cpu [simp]: "cpus (set_cpu i f s) = list_upd (cpus s) i f"
  by (simp add: set_cpu_def)

lemma locks_cli [simp]:
  "locks (cli s) = locks s" "locks (sti s) = locks s" "locks (set_cpu i f s) = locks s"
  by (simp_all add: mach_defs)

lemma set_cpu_twice [simp]:
  "i < length (cpus s) \<Longrightarrow> set_cpu i f (set_cpu i g s) = set_cpu i (f \<circ> g) s"
  by (simp add: set_cpu_def)

lemma set_cpu_locks [simp]: "(set_cpu i f s)\<lparr>locks := x\<rparr> = set_cpu i f (s\<lparr>locks := x\<rparr>)"
  by (simp add: set_cpu_def)

lemma cli_locks [simp]: "(cli s)\<lparr>locks := x\<rparr> = cli (s\<lparr>locks := x\<rparr>)"
  by (simp add: cli_def)

lemma mycpu_off: "cpu_ix s = Some i \<Longrightarrow> \<not> readeflags_IF s \<Longrightarrow> mycpu s = Ret i s"
  by (simp add: mycpu_def)

lemma mach_ok_locks [simp]: "mach_ok (s\<lparr>locks := x\<rparr>) = mach_ok s"
  by (simp add: mach_ok_def me_def)

lemma cpu_ix_on [simp]:
  "cpu_ix (cli_on s) = cpu_ix s" "cpu_ix (settle s) = cpu_ix s" "cpu_ix (lock_on l s) = cpu_ix s"
  by (simp_all add: cli_on_def settle_def lock_on_def)

lemma me_on [simp]:
  "me (cli_on s) = me s" "me (settle s) = me s" "me (lock_on l s) = me s"
  by (simp_all add: me_def)

lemma if_on [simp]:
  "\<not> readeflags_IF (cli_on s)" "readeflags_IF (settle s) = readeflags_IF s"
  "\<not> readeflags_IF (lock_on l s)"
  by (simp_all add: cli_on_def settle_def lock_on_def)

lemma mach_ok_cli_on: "mach_ok s \<Longrightarrow> mach_ok (cli_on s)"
  using mach_ok_less [of s] by (simp add: mach_ok_def) (simp add: cli_on_def)

lemma mach_ok_settle: "mach_ok s \<Longrightarrow> mach_ok (settle s)"
  using mach_ok_less [of s] by (simp add: mach_ok_def) (simp add: settle_def)

lemma mach_ok_lock_on: "mach_ok s \<Longrightarrow> mach_ok (lock_on l s)"
  using mach_ok_less [of s] by (simp add: mach_ok_def) (simp add: lock_on_def cli_on_def)

lemma pushcli_ok: "mach_ok s \<Longrightarrow> pushcli s = Ret () (cli_on s)"
  using mach_ok_less [of s] mach_ok_ix [of s]
  by (simp add: pushcli_def kop mycpu_off cli_on_def comp_def)
    (auto simp: set_cpu_def list_upd_def)

lemma popcli_on:
  assumes "mach_ok s"
  shows "popcli (cli_on s) = Ret () (settle s)"
proof -
  have i: "me s < length (cpus s)" "cpu_ix s = Some (me s)"
    using assms by (auto simp: mach_ok_less mach_ok_ix)
  have restore: "(regs s)(cur s := (regs s (cur s))\<lparr>r_if := b\<rparr>) = regs s" if "r_if (regs s (cur s)) = b" for b
    using that by (auto simp: fun_eq_iff)
  have m: "mycpu (cli_on s) = Ret (me s) (cli_on s)"
    using i by (simp add: mycpu_off)
  show ?thesis
    unfolding popcli_def using assms i
    by (simp add: kop m)
      (auto simp: mach_ok_def cli_on_def settle_def set_cpu_def cli_def sti_def
        readeflags_IF_def list_upd_def restore)
qed

text \<open>
  A matched pair of \<open>pushcli\<close> and \<open>popcli\<close> leaves the interrupt flag and the nesting depth
  as they were: only the saved copy \<open>intena\<close> of the flag is refreshed.
\<close>


lemma settle_settle [simp]: "mach_ok s \<Longrightarrow> settle (settle s) = settle s"
  using mach_ok_less [of s] by (simp add: settle_def comp_def me_def cong: if_cong)

lemma cli_on_settle [simp]: "mach_ok s \<Longrightarrow> cli_on (settle s) = cli_on s"
  using mach_ok_less [of s] 
  by (simp add: cli_on_def) (simp add: settle_def set_cpu_def cli_def list_upd_def readeflags_IF_def)

lemma settle_cli_on [simp]: "mach_ok s \<Longrightarrow> settle (cli_on s) = cli_on s"
  using mach_ok_less [of s]
  by (simp add: settle_def) (auto simp: mach_ok_def cli_on_def set_cpu_def cli_def list_upd_def)

lemma locks_on [simp]:
  "locks (cli_on s) = locks s" "locks (settle s) = locks s"
  "locks (lock_on l s) = (locks s)(l := (locks s l)\<lparr>sl_locked := True, sl_cpu := Some (me s)\<rparr>)"
  by (simp_all add: cli_on_def settle_def lock_on_def)

lemma lock_on_settle [simp]: "mach_ok s \<Longrightarrow> lock_on l (settle s) = lock_on l s"
  by (simp add: lock_on_def)

lemma settle_locks: "settle (s\<lparr>locks := x\<rparr>) = (settle s)\<lparr>locks := x\<rparr>"
  by (simp add: settle_def me_def cong: if_cong)

lemma cli_on_locks: "cli_on (s\<lparr>locks := x\<rparr>) = (cli_on s)\<lparr>locks := x\<rparr>"
  by (simp add: cli_on_def me_def cong: if_cong)

lemma settle_lock_on [simp]: "mach_ok s \<Longrightarrow> settle (lock_on l s) = lock_on l s"
  by (simp add: lock_on_def settle_locks)

lemma holding_ok:
  "mach_ok s \<Longrightarrow>
     holding l s = Ret (sl_locked (locks s l) \<and> sl_cpu (locks s l) = Some (me s)) (settle s)"
  using mach_ok_ix [of s]
  by (simp add: holding_def kop pushcli_ok mycpu_off popcli_on)

lemma lock_free_on [simp]:
  "lock_free l (settle s) = lock_free l s" "lock_free l (cli_on s) = lock_free l s"
  "lock_free l (lock_on k s) \<longleftrightarrow> l \<noteq> k \<and> lock_free l s"
  by (auto simp: lock_free_def)

text \<open>On a free lock \<open>acquire\<close> returns, holding the lock with interrupts off.\<close>

lemma acquire_ok:
  assumes "mach_ok s" and "lock_free l s"
  shows "acquire l s = Ret () (lock_on l s)"
proof -
  have ix: "cpu_ix s = Some (me s)" using assms(1) by (rule mach_ok_ix)
  have h: "holding l (cli_on s) = Ret False (cli_on s)"
    using assms by (simp add: holding_ok mach_ok_cli_on lock_free_def)
  show ?thesis
    using assms ix
    by (simp add: acquire_def kop pushcli_ok h xchg_loop_def lock_free_def mycpu_off lock_on_def)
qed

text \<open>Releasing it right after restores the machine, up to the saved flag.\<close>

lemma release_on:
  assumes "mach_ok s" and "lock_free l s"
  shows "release l (lock_on l s) = Ret () (settle s)"
proof -
  have h: "holding l (lock_on l s) = Ret True (lock_on l s)"
    using assms by (simp add: holding_ok mach_ok_lock_on)
  have same: "(locks s)(l := (locks s l)\<lparr>sl_locked := False, sl_cpu := None\<rparr>) = locks s"
    using assms(2) by (auto simp: lock_free_def)
  have e: "(cli_on s)\<lparr>locks := locks s\<rparr> = cli_on s"
    by (rule mach.equality) simp_all
  show ?thesis
    using assms by (simp add: release_def kop h) (simp add: lock_on_def same e popcli_on)
qed

lemma myproc_ok: "mach_ok s \<Longrightarrow> myproc s = Ret (cproc (cpus s ! me s)) (settle s)"
proof -
  assume ok: "mach_ok s"
  have "cproc (cpus (cli_on s) ! me s) = cproc (cpus s ! me s)"
    using mach_ok_less [OF ok] by (simp add: cli_on_def)
  then show ?thesis
    using ok mach_ok_ix [OF ok] by (simp add: myproc_def kop pushcli_ok mycpu_off popcli_on)
qed


lemma lock_on_commute:
  assumes "mach_ok s" and "l \<noteq> k"
  shows "lock_on l (lock_on k s) = lock_on k (lock_on l s)"
proof -
  have upd: "(locks s)(k := x, l := y) = (locks s)(l := y, k := x)" for x y
    using assms(2) by (simp add: fun_upd_twist)
  have "cli_on (lock_on k s) = (cli_on (cli_on s))\<lparr>locks := locks (lock_on k s)\<rparr>" for k
    by (simp add: lock_on_def cli_on_locks [symmetric])
  then show ?thesis
    using assms(2) by (simp add: lock_on_def [of l "lock_on k s"] lock_on_def [of k "lock_on l s"] upd)
qed

text \<open>Releasing a lock while another one, taken later, stays held.\<close>

lemma release_under:
  assumes "mach_ok s" and "lock_free l s" and "l \<noteq> k"
  shows "release l (lock_on k (lock_on l s)) = Ret () (lock_on k s)"
  using assms release_on [of "lock_on k s" l]
  by (simp add: lock_on_commute [of s k l] mach_ok_lock_on)

lemma ncli_lock_on:
  "mach_ok s \<Longrightarrow> ncli (cpus (lock_on l s) ! me s) = ncli (cpus s ! me s) + 1"
  using mach_ok_less [of s] by (simp add: lock_on_def cli_on_def)

lemma cproc_on [simp]:
  "mach_ok s \<Longrightarrow> cproc (cpus (lock_on l s) ! j) = cproc (cpus s ! j)"
  "mach_ok s \<Longrightarrow> cproc (cpus (settle s) ! j) = cproc (cpus s ! j)"
  using mach_ok_less [of s]
  by (cases "j = me s"; simp add: lock_on_def cli_on_def settle_def list_upd_def)+

text \<open>A machine with one processor, process 0 running on it, and every lock free.\<close>

definition mach0 :: "'a \<Rightarrow> 'a mach_scheme" where
  "mach0 x = \<lparr>cur = 0, regs = (\<lambda>_. \<lparr>r_lapicid = 0, r_if = True, r_cr3 = 0\<rparr>), ncpu = 1,
     cpus = [\<lparr>apicid = 0, started = True, ncli = 0, intena = True, cproc = Some 0\<rparr>],
     locks = (\<lambda>_. \<lparr>sl_name = ''lock'', sl_locked = False, sl_cpu = None\<rparr>), \<dots> = x\<rparr>"

lemma mach0_ok [simp]: "mach_ok (mach0 x)" "lock_free l (mach0 x)" "me (mach0 x) = 0"
  "cproc (cpus (mach0 x) ! 0) = Some 0"
  by (simp_all add: mach0_def mach_ok_def lock_free_def me_def cpu_ix_def lapicid_def readeflags_IF_def)

subsection \<open>The failing branches\<close>

lemma acquire_self:
  assumes "mach_ok s" and "sl_locked (locks s l)" and "sl_cpu (locks s l) = Some (me s)"
  shows "acquire l s = Panic ''acquire''"
  using assms by (simp add: acquire_def kop pushcli_ok holding_ok mach_ok_cli_on)

lemma acquire_other:
  assumes "mach_ok s" and "sl_locked (locks s l)" and "sl_cpu (locks s l) \<noteq> Some (me s)"
  shows "acquire l s = Spin l (cli_on s)"
  using assms by (simp add: acquire_def kop pushcli_ok holding_ok mach_ok_cli_on xchg_loop_def)

lemma release_not_held:
  assumes "mach_ok s" and "\<not> (sl_locked (locks s l) \<and> sl_cpu (locks s l) = Some (me s))"
  shows "release l s = Panic ''release''"
  using assms by (simp add: release_def kop holding_ok)

lemma acquire_RetD:
  assumes "mach_ok s" and "acquire l s = Ret u t" and "sl_locked (locks s l) \<longleftrightarrow> sl_cpu (locks s l) \<noteq> None"
  shows "lock_free l s \<and> t = lock_on l s"
proof (cases "sl_locked (locks s l)")
  case True
  with assms show ?thesis
    using acquire_self [of s l] acquire_other [of s l]
    by (cases "sl_cpu (locks s l) = Some (me s)") auto
next
  case False
  with assms(3) have "lock_free l s" by (auto simp: lock_free_def)
  with assms acquire_ok [of s l] show ?thesis by simp
qed

text \<open>Releasing a lock in general, not only right after its \<open>acquire\<close>.\<close>

definition cli_off :: "'a mach_scheme \<Rightarrow> 'a mach_scheme" where
  "cli_off s =
     (if ncli (cpus s ! me s) = 1 \<and> intena (cpus s ! me s) then sti else id)
       (set_cpu (me s) (\<lambda>c. c\<lparr>ncli := ncli c - 1\<rparr>) s)"

lemma popcli_ok:
  assumes "mach_ok s" and "0 < ncli (cpus s ! me s)"
  shows "popcli s = Ret () (cli_off s)"
proof -
  have m: "mycpu s = Ret (me s) s"
    using assms by (simp add: mycpu_off mach_ok_ix mach_ok_def)
  have "\<not> readeflags_IF s" using assms by (simp add: mach_ok_def)
  then show ?thesis
    using assms mach_ok_less [OF assms(1)]
    by (simp add: popcli_def kop m cli_off_def)
qed

definition lock_off :: "lockname \<Rightarrow> 'a mach_scheme \<Rightarrow> 'a mach_scheme" where
  "lock_off l s = (cli_off s)\<lparr>locks := (locks s)(l :=
     (locks s l)\<lparr>sl_locked := False, sl_cpu := None\<rparr>)\<rparr>"

lemma settle_deep: "mach_ok s \<Longrightarrow> 0 < ncli (cpus s ! me s) \<Longrightarrow> settle s = s"
  using mach_ok_less [of s] by (simp add: settle_def set_cpu_def list_upd_def)

lemma release_RetD:
  assumes ok: "mach_ok s" and deep: "0 < ncli (cpus s ! me s)" and r: "release l s = Ret u t"
  shows "sl_locked (locks s l) \<and> sl_cpu (locks s l) = Some (me s) \<and> t = lock_off l s"
proof -
  have h: "sl_locked (locks s l) \<and> sl_cpu (locks s l) = Some (me s)"
    using r release_not_held [OF ok, of l] by force
  let ?s' = "s\<lparr>locks := (locks s)(l := (locks s l)\<lparr>sl_locked := False, sl_cpu := None\<rparr>)\<rparr>"
  have me': "me ?s' = me s" by (simp add: me_def)
  have "popcli ?s' = Ret () (cli_off ?s')"
    using ok deep by (intro popcli_ok) (simp_all add: me')
  moreover have "cli_off ?s' = lock_off l s"
    by (simp add: cli_off_def lock_off_def me' sti_def set_cpu_def)
  ultimately have "release l s = Ret () (lock_off l s)"
    using h ok deep by (simp add: release_def kop holding_ok settle_deep)
  with h r show ?thesis by simp
qed

subsection \<open>Mutual exclusion under every interleaving of the processors\<close>

text \<open>
  Any processor may take or return any lock at any time, and may switch its interrupts on or
  off while it holds none. The ghost field \<open>held\<close> records which locks each processor has
  taken and not yet returned.
\<close>

record psys = mach +
  held :: "nat \<Rightarrow> lockname set"

inductive lock_step :: "psys \<Rightarrow> psys \<Rightarrow> bool" where
  take: "k < ncpu s \<Longrightarrow> acquire l (s\<lparr>cur := k\<rparr>) = Ret () t \<Longrightarrow>
     lock_step s (t\<lparr>held := (held t)(k := insert l (held t k))\<rparr>)"
| return: "k < ncpu s \<Longrightarrow> release l (s\<lparr>cur := k\<rparr>) = Ret () t \<Longrightarrow>
     lock_step s (t\<lparr>held := (held t)(k := held t k - {l})\<rparr>)"
| enable: "k < ncpu s \<Longrightarrow> ncli (cpus s ! k) = 0 \<Longrightarrow> lock_step s (sti (s\<lparr>cur := k\<rparr>))"
| disable: "k < ncpu s \<Longrightarrow> lock_step s (cli (s\<lparr>cur := k\<rparr>))"

definition procs_ok :: "'a mach_scheme \<Rightarrow> bool" where
  "procs_ok s \<longleftrightarrow>
     ncpu s \<le> length (cpus s) \<and>
     distinct (map apicid (take (ncpu s) (cpus s))) \<and>
     (\<forall>i < ncpu s. apicid (cpus s ! i) = r_lapicid (regs s i))"

definition boot_state :: "psys \<Rightarrow> bool" where
  "boot_state s \<longleftrightarrow>
     procs_ok s \<and> (\<forall>l. lock_free l s) \<and> (\<forall>k. held s k = {}) \<and>
     (\<forall>i < ncpu s. ncli (cpus s ! i) = 0)"

inductive lock_reach :: "psys \<Rightarrow> bool" where
  boot: "boot_state s \<Longrightarrow> lock_reach s"
| step: "lock_reach s \<Longrightarrow> lock_step s t \<Longrightarrow> lock_reach t"

text \<open>The invariant says how the ghost sets, the lock words and the nesting depths agree.\<close>

definition lock_inv :: "psys \<Rightarrow> bool" where
  "lock_inv s \<longleftrightarrow>
     procs_ok s \<and>
     (\<forall>l. sl_locked (locks s l) \<longleftrightarrow> sl_cpu (locks s l) \<noteq> None) \<and>
     (\<forall>l k. l \<in> held s k \<longleftrightarrow> k < ncpu s \<and> sl_cpu (locks s l) = Some k) \<and>
     (\<forall>k < ncpu s. finite (held s k) \<and> ncli (cpus s ! k) = int (card (held s k))) \<and>
     (\<forall>k < ncpu s. held s k \<noteq> {} \<longrightarrow> \<not> r_if (regs s k))"


lemma cpu_ix_cur:
  assumes "procs_ok s" and "k < ncpu s"
  shows "cpu_ix (s\<lparr>cur := k\<rparr>) = Some k"
proof -
  have n: "ncpu s \<le> length (cpus s)" using assms(1) by (simp add: procs_ok_def)
  have "apicid (cpus s ! j) \<noteq> apicid (cpus s ! k)" if "j < k" for j
    using assms that n by (auto simp: procs_ok_def distinct_conv_nth)
  with assms n show ?thesis
    by (auto simp: cpu_ix_def lapicid_def procs_ok_def find_index_Some_iff)
qed

lemma me_cur: "procs_ok s \<Longrightarrow> k < ncpu s \<Longrightarrow> me (s\<lparr>cur := k\<rparr>) = k"
  by (simp add: me_def cpu_ix_cur)

lemma lock_inv_mach_ok:
  assumes "lock_inv s" and "k < ncpu s"
  shows "mach_ok (s\<lparr>cur := k\<rparr>)"
proof -
  have "procs_ok s" using assms by (simp add: lock_inv_def)
  then have ix: "cpu_ix (s\<lparr>cur := k\<rparr>) = Some k" using assms(2) by (rule cpu_ix_cur)
  have "0 < ncli (cpus s ! k) \<longrightarrow> held s k \<noteq> {}"
    using assms by (auto simp: lock_inv_def)
  then show ?thesis
    using assms by (auto simp: mach_ok_def ix me_def readeflags_IF_def lock_inv_def)
qed

lemma procs_ok_cong:
  assumes "ncpu t = ncpu s" and "map apicid (cpus t) = map apicid (cpus s)"
    and "\<And>i. r_lapicid (regs t i) = r_lapicid (regs s i)"
  shows "procs_ok t = procs_ok s"
proof -
  have len: "length (cpus t) = length (cpus s)"
    using assms(2) map_eq_imp_length_eq by blast
  have "apicid (cpus t ! i) = apicid (cpus s ! i)" if "i < length (cpus s)" for i
    using that assms(2) len by (metis nth_map)
  with assms len show ?thesis
    by (auto simp: procs_ok_def take_map [symmetric])
qed

lemma procs_ok_on:
  "procs_ok (lock_on l (s\<lparr>cur := k\<rparr>)) = procs_ok s"
  "procs_ok (lock_off l (s\<lparr>cur := k\<rparr>)) = procs_ok s"
  "procs_ok (sti (s\<lparr>cur := k\<rparr>)) = procs_ok s"
  "procs_ok (cli (s\<lparr>cur := k\<rparr>)) = procs_ok s"
  by (rule procs_ok_cong; simp add: lock_on_def cli_on_def lock_off_def cli_off_def sti_def
      cli_def set_cpu_def map_list_upd_same)+

text \<open>The fields of the machine after each step of processor \<open>k\<close>.\<close>

lemma lock_on_cur:
  assumes "procs_ok s" and "k < ncpu s"
  shows "locks (lock_on l (s\<lparr>cur := k\<rparr>)) =
      (locks s)(l := (locks s l)\<lparr>sl_locked := True, sl_cpu := Some k\<rparr>)"
    and "ncpu (lock_on l (s\<lparr>cur := k\<rparr>)) = ncpu s"
    and "j < ncpu s \<Longrightarrow> ncli (cpus (lock_on l (s\<lparr>cur := k\<rparr>)) ! j) =
      (if j = k then ncli (cpus s ! k) + 1 else ncli (cpus s ! j))"
    and "r_if (regs (lock_on l (s\<lparr>cur := k\<rparr>)) j) \<longleftrightarrow> j \<noteq> k \<and> r_if (regs s j)"
proof -
  have n: "ncpu s \<le> length (cpus s)" using assms(1) by (simp add: procs_ok_def)
  show "locks (lock_on l (s\<lparr>cur := k\<rparr>)) =
      (locks s)(l := (locks s l)\<lparr>sl_locked := True, sl_cpu := Some k\<rparr>)"
    using assms by (simp add: me_cur)
  show "ncpu (lock_on l (s\<lparr>cur := k\<rparr>)) = ncpu s"
    by (simp add: lock_on_def cli_on_def cli_def set_cpu_def)
  show "ncli (cpus (lock_on l (s\<lparr>cur := k\<rparr>)) ! j) =
      (if j = k then ncli (cpus s ! k) + 1 else ncli (cpus s ! j))" if "j < ncpu s"
    using assms n that by (simp add: lock_on_def cli_on_def me_cur)
  show "r_if (regs (lock_on l (s\<lparr>cur := k\<rparr>)) j) \<longleftrightarrow> j \<noteq> k \<and> r_if (regs s j)"
    by (auto simp: lock_on_def cli_on_def cli_def set_cpu_def)
qed

lemma lock_off_cur:
  assumes "procs_ok s" and "k < ncpu s"
  shows "locks (lock_off l (s\<lparr>cur := k\<rparr>)) =
      (locks s)(l := (locks s l)\<lparr>sl_locked := False, sl_cpu := None\<rparr>)"
    and "ncpu (lock_off l (s\<lparr>cur := k\<rparr>)) = ncpu s"
    and "j < ncpu s \<Longrightarrow> ncli (cpus (lock_off l (s\<lparr>cur := k\<rparr>)) ! j) =
      (if j = k then ncli (cpus s ! k) - 1 else ncli (cpus s ! j))"
    and "j \<noteq> k \<or> 1 < ncli (cpus s ! k) \<Longrightarrow>
      r_if (regs (lock_off l (s\<lparr>cur := k\<rparr>)) j) = r_if (regs s j)"
proof -
  have n: "ncpu s \<le> length (cpus s)" using assms(1) by (simp add: procs_ok_def)
  show "locks (lock_off l (s\<lparr>cur := k\<rparr>)) =
      (locks s)(l := (locks s l)\<lparr>sl_locked := False, sl_cpu := None\<rparr>)"
    by (simp add: lock_off_def)
  show "ncpu (lock_off l (s\<lparr>cur := k\<rparr>)) = ncpu s"
    by (simp add: lock_off_def cli_off_def sti_def set_cpu_def)
  show "ncli (cpus (lock_off l (s\<lparr>cur := k\<rparr>)) ! j) =
      (if j = k then ncli (cpus s ! k) - 1 else ncli (cpus s ! j))" if "j < ncpu s"
    using assms n that by (simp add: lock_off_def cli_off_def me_cur)
  show "r_if (regs (lock_off l (s\<lparr>cur := k\<rparr>)) j) = r_if (regs s j)"
    if "j \<noteq> k \<or> 1 < ncli (cpus s ! k)"
    using assms that by (auto simp: lock_off_def cli_off_def me_cur sti_def set_cpu_def)
qed

lemma held_on [simp]:
  "held (lock_on l s) = held s" "held (lock_off l s) = held s" "held (sti s) = held s" "held (cli s) = held s"
  by (simp_all add: lock_on_def cli_on_def lock_off_def cli_off_def sti_def cli_def set_cpu_def)


lemma procs_ok_held [simp]: "procs_ok (t\<lparr>held := h\<rparr>) = procs_ok t"
  by (simp add: procs_ok_def)

lemma lock_inv_take:
  assumes inv: "lock_inv s" and k: "k < ncpu s" and a: "acquire l (s\<lparr>cur := k\<rparr>) = Ret () t"
  shows "lock_inv (t\<lparr>held := (held t)(k := insert l (held t k))\<rparr>)"
proof -
  have po: "procs_ok s" using inv by (simp add: lock_inv_def)
  have "sl_locked (locks s l) \<longleftrightarrow> sl_cpu (locks s l) \<noteq> None" using inv by (simp add: lock_inv_def)
  then have f: "lock_free l s" and t: "t = lock_on l (s\<lparr>cur := k\<rparr>)"
    using acquire_RetD [OF lock_inv_mach_ok [OF inv k] a] by (simp_all add: lock_free_def)
  from f have none: "\<not> sl_locked (locks s l)" "sl_cpu (locks s l) = None" by (simp_all add: lock_free_def)
  then have new: "l \<notin> held s j" for j using inv by (simp add: lock_inv_def)
  show ?thesis
    using inv k none new
    by (auto simp: lock_inv_def t procs_ok_on lock_on_cur [OF po k] me_cur [OF po k])
qed

lemma lock_inv_return:
  assumes inv: "lock_inv s" and k: "k < ncpu s" and a: "release l (s\<lparr>cur := k\<rparr>) = Ret () t"
  shows "lock_inv (t\<lparr>held := (held t)(k := held t k - {l})\<rparr>)"
proof -
  have po: "procs_ok s" using inv by (simp add: lock_inv_def)
  have ok: "mach_ok (s\<lparr>cur := k\<rparr>)" using inv k by (rule lock_inv_mach_ok)
  have "sl_locked (locks s l) \<and> sl_cpu (locks s l) = Some k"
    using release_not_held [OF ok, of l] a by (force simp: me_cur [OF po k])
  then have mine: "l \<in> held s k" using inv k by (simp add: lock_inv_def)
  have fin: "finite (held s k)" and n: "ncli (cpus s ! k) = int (card (held s k))"
    using inv k by (simp_all add: lock_inv_def)
  from mine fin have pos: "0 < card (held s k)" by (auto simp: card_gt_0_iff)
  have t: "t = lock_off l (s\<lparr>cur := k\<rparr>)"
    using release_RetD [OF ok _ a] n pos by (simp add: me_cur [OF po k])
  have card: "card (held s k - {l}) = card (held s k) - 1" using mine fin by simp
  have more: "1 < card (held s k)" if "held s k - {l} \<noteq> {}"
    using that mine fin card by (metis card_gt_0_iff finite_Diff zero_less_diff)
  show ?thesis
    using inv k mine fin n pos card more
    by (auto simp: lock_inv_def t procs_ok_on lock_off_cur [OF po k] of_nat_diff)
qed

lemma lock_inv_off:
  "lock_inv s \<Longrightarrow> sl_cpu (locks s l) = Some k \<Longrightarrow> k < ncpu s \<Longrightarrow> \<not> r_if (regs s k)"
  unfolding lock_inv_def by blast

lemma lock_inv_flag:
  assumes inv: "lock_inv s" and k: "k < ncpu s"
  shows "lock_inv (cli (s\<lparr>cur := k\<rparr>))"
    and "ncli (cpus s ! k) = 0 \<Longrightarrow> lock_inv (sti (s\<lparr>cur := k\<rparr>))"
proof -
  note off = lock_inv_off [OF inv]
  show "lock_inv (cli (s\<lparr>cur := k\<rparr>))"
    using inv k
    by (auto simp: lock_inv_def procs_ok_on) (auto simp: cli_def off split: if_splits)
  show "lock_inv (sti (s\<lparr>cur := k\<rparr>))" if "ncli (cpus s ! k) = 0"
    using inv k that
    by (auto simp: lock_inv_def procs_ok_on) (auto simp: sti_def off split: if_splits)
qed

lemma lock_step_inv: "lock_step s t \<Longrightarrow> lock_inv s \<Longrightarrow> lock_inv t"
  by (induction rule: lock_step.induct) (auto intro: lock_inv_take lock_inv_return lock_inv_flag)

lemma boot_inv: "boot_state s \<Longrightarrow> lock_inv s"
  by (auto simp: boot_state_def lock_inv_def lock_free_def)

lemma lock_reach_inv: "lock_reach s \<Longrightarrow> lock_inv s"
  by (induction rule: lock_reach.induct) (auto intro: boot_inv lock_step_inv)



definition two_cpus :: psys where
  "two_cpus =
     \<lparr>cur = 0, regs = (\<lambda>i. \<lparr>r_lapicid = of_nat i, r_if = True, r_cr3 = 0\<rparr>), ncpu = 2,
      cpus = [\<lparr>apicid = 0, started = True, ncli = 0, intena = False, cproc = None\<rparr>,
              \<lparr>apicid = 1, started = True, ncli = 0, intena = False, cproc = None\<rparr>],
      locks = (\<lambda>_. \<lparr>sl_name = [], sl_locked = False, sl_cpu = None\<rparr>), held = (\<lambda>_. {})\<rparr>"

lemma two_cpus_boot: "boot_state two_cpus"
  by (auto simp: boot_state_def procs_ok_def two_cpus_def lock_free_def less_2_cases_iff)


end
