(* ===== verification/Cstring.thy ===== *)
theory Cstring
  imports Xv6_Prelude
begin

unbundle bit_operations_syntax

section \<open>Memory and string routines (string.c and ulib.c)\<close>

text \<open>
  A pointer that is only read is the view of memory from that pointer: a function from offsets
  to bytes (\<open>p i\<close> is \<open>*(p + i)\<close>). A routine that fills a buffer returns the bytes it stores.
  \<open>memset\<close> and \<open>memmove\<close> of the kernel, whose behaviour depends on alignment and on the
  overlap of their arguments, work on a whole memory \<open>u32 \<Rightarrow> u8\<close> with addresses.
\<close>

type_synonym cptr = "nat \<Rightarrow> u8"
type_synonym bytemem = "u32 \<Rightarrow> u8"

definition adv :: "cptr \<Rightarrow> nat \<Rightarrow> cptr" where
  "adv p k = (\<lambda>i. p (i + k))"

definition bytes :: "u8 list \<Rightarrow> cptr" where
  "bytes xs = (\<lambda>i. if i < length xs then xs ! i else 0)"

text \<open>\<open>cstr p xs\<close>: the string at \<open>p\<close> is \<open>xs\<close>, ended by its first NUL.\<close>

definition cstr :: "cptr \<Rightarrow> u8 list \<Rightarrow> bool" where
  "cstr p xs \<longleftrightarrow> (\<forall>i < length xs. p i = xs ! i \<and> p i \<noteq> 0) \<and> p (length xs) = 0"

subsection \<open>Definitions: string.c\<close>

text \<open>The instructions \<open>rep stosb\<close> and \<open>rep stosl\<close>.\<close>

definition stosb :: "bytemem \<Rightarrow> u32 \<Rightarrow> u8 \<Rightarrow> u32 \<Rightarrow> bytemem" where
  "stosb m addr d cnt = (\<lambda>a. if a - addr < cnt then d else m a)"

definition stosl :: "bytemem \<Rightarrow> u32 \<Rightarrow> u32 \<Rightarrow> u32 \<Rightarrow> bytemem" where
  "stosl m addr d cnt =
     (\<lambda>a. if unat (a - addr) < 4 * unat cnt
          then ucast (drop_bit (8 * (unat (a - addr) mod 4)) d) else m a)"

definition memset :: "bytemem \<Rightarrow> u32 \<Rightarrow> u32 \<Rightarrow> u32 \<Rightarrow> bytemem" where
  "memset m dst c n =
     (if dst mod 4 = 0 \<and> n mod 4 = 0 then
        let c = c AND 0xFF in
        stosl m dst (push_bit 24 c OR push_bit 16 c OR push_bit 8 c OR c) (n div 4)
      else stosb m dst (ucast c) n)"

fun memcmp :: "cptr \<Rightarrow> cptr \<Rightarrow> nat \<Rightarrow> int" where
  "memcmp s1 s2 0 = 0"
| "memcmp s1 s2 (Suc n) =
     (if s1 0 \<noteq> s2 0 then uint (s1 0) - uint (s2 0) else memcmp (adv s1 1) (adv s2 1) n)"

fun copy_up :: "bytemem \<Rightarrow> u32 \<Rightarrow> u32 \<Rightarrow> nat \<Rightarrow> bytemem" where
  "copy_up m d s 0 = m"
| "copy_up m d s (Suc n) = copy_up (m(d := m s)) (d + 1) (s + 1) n"

fun copy_down :: "bytemem \<Rightarrow> u32 \<Rightarrow> u32 \<Rightarrow> nat \<Rightarrow> bytemem" where
  "copy_down m d s 0 = m"
| "copy_down m d s (Suc n) = copy_down (m(d - 1 := m (s - 1))) (d - 1) (s - 1) n"

definition memmove :: "bytemem \<Rightarrow> u32 \<Rightarrow> u32 \<Rightarrow> u32 \<Rightarrow> bytemem" where
  "memmove m dst src n =
     (if src < dst \<and> src + n > dst then copy_down m (dst + n) (src + n) (unat n)
      else copy_up m dst src (unat n))"

definition memcpy :: "bytemem \<Rightarrow> u32 \<Rightarrow> u32 \<Rightarrow> u32 \<Rightarrow> bytemem" where
  "memcpy m dst src n = memmove m dst src n"

fun strncmp :: "cptr \<Rightarrow> cptr \<Rightarrow> nat \<Rightarrow> int" where
  "strncmp p q 0 = 0"
| "strncmp p q (Suc n) =
     (if p 0 \<noteq> 0 \<and> p 0 = q 0 then strncmp (adv p 1) (adv q 1) n
      else uint (p 0) - uint (q 0))"

text \<open>The \<open>n\<close> bytes that \<open>strncpy\<close> stores, and the at most \<open>n\<close> bytes \<open>safestrcpy\<close> stores.\<close>

fun strncpy :: "cptr \<Rightarrow> nat \<Rightarrow> u8 list" where
  "strncpy t 0 = []"
| "strncpy t (Suc n) =
     (if t 0 \<noteq> 0 then t 0 # strncpy (adv t 1) n else replicate (Suc n) 0)"

fun safestrcpy_loop :: "cptr \<Rightarrow> nat \<Rightarrow> u8 list" where
  "safestrcpy_loop t 0 = [0]"
| "safestrcpy_loop t (Suc n) =
     (if n = 0 then [0]
      else if t 0 \<noteq> 0 then t 0 # safestrcpy_loop (adv t 1) n
      else [0, 0])"

definition safestrcpy :: "cptr \<Rightarrow> int \<Rightarrow> u8 list" where
  "safestrcpy t n = (if n \<le> 0 then [] else safestrcpy_loop t (nat n))"

partial_function (option) strlen_from :: "cptr \<Rightarrow> nat \<Rightarrow> nat option" where
  "strlen_from s n = (if s n = 0 then Some n else strlen_from s (Suc n))"

definition strlen :: "cptr \<Rightarrow> nat option" where
  "strlen s = strlen_from s 0"


subsection \<open>Definitions: ulib.c\<close>

text \<open>Bytes stored by the user library's \<open>strcpy\<close>, up to and including the NUL.\<close>

partial_function (option) ulib_strcpy :: "cptr \<Rightarrow> u8 list option" where
  "ulib_strcpy t =
     (if t 0 = 0 then Some [0]
      else Option.bind (ulib_strcpy (adv t 1)) (\<lambda>r. Some (t 0 # r)))"

partial_function (option) ulib_strcmp :: "cptr \<Rightarrow> cptr \<Rightarrow> int option" where
  "ulib_strcmp p q =
     (if p 0 \<noteq> 0 \<and> p 0 = q 0 then ulib_strcmp (adv p 1) (adv q 1)
      else Some (uint (p 0) - uint (q 0)))"

text \<open>\<open>strchr\<close> returns the offset of the match (\<open>Some (Some i)\<close>) or a null pointer.\<close>

partial_function (option) ulib_strchr :: "cptr \<Rightarrow> u8 \<Rightarrow> nat \<Rightarrow> nat option option" where
  "ulib_strchr s c i =
     (if s i = 0 then Some None
      else if s i = c then Some (Some i)
      else ulib_strchr s c (Suc i))"

text \<open>\<open>atoi\<close> computes in a 32-bit \<open>int\<close>; the sum wraps as the machine's addition does.\<close>

partial_function (option) ulib_atoi_from :: "cptr \<Rightarrow> u32 \<Rightarrow> u32 option" where
  "ulib_atoi_from s n =
     (if 48 \<le> s 0 \<and> s 0 \<le> 57 then ulib_atoi_from (adv s 1) (n * 10 + ucast (s 0) - 48)
      else Some n)"

definition ulib_atoi :: "cptr \<Rightarrow> int option" where
  "ulib_atoi s = map_option sint (ulib_atoi_from s 0)"

definition ulib_memset :: "bytemem \<Rightarrow> u32 \<Rightarrow> u32 \<Rightarrow> u32 \<Rightarrow> bytemem" where
  "ulib_memset m dst c n = stosb m dst (ucast c) n"

definition ulib_memmove :: "bytemem \<Rightarrow> u32 \<Rightarrow> u32 \<Rightarrow> int \<Rightarrow> bytemem" where
  "ulib_memmove m dst src n = copy_up m dst src (nat n)"

subsection \<open>Views of memory\<close>

lemma adv_apply: "adv p k i = p (i + k)"
  by (simp add: adv_def)

lemma adv_at_0 [simp]: "adv p k 0 = p k"
  by (simp add: adv_def)

lemma adv_0 [simp]: "adv p 0 = p"
  by (simp add: adv_def)

lemma adv_adv [simp]: "adv (adv p k) j = adv p (j + k)"
  by (simp add: adv_def add.assoc)

lemma bytes_apply [simp]: "i < length xs \<Longrightarrow> bytes xs i = xs ! i" "length xs \<le> i \<Longrightarrow> bytes xs i = 0"
  by (simp_all add: bytes_def)

lemma adv_bytes_Cons [simp]: "adv (bytes (x # xs)) (Suc 0) = bytes xs"
  by (auto simp: adv_def bytes_def fun_eq_iff)

lemma cstr_Nil [simp]: "cstr p [] \<longleftrightarrow> p 0 = 0"
  by (simp add: cstr_def)

lemma cstr_Cons [simp]: "cstr p (x # xs) \<longleftrightarrow> p 0 = x \<and> x \<noteq> 0 \<and> cstr (adv p (Suc 0)) xs"
  by (auto simp: cstr_def All_less_Suc2 adv_apply)

lemma cstr_unique: "cstr p xs \<Longrightarrow> cstr p ys \<Longrightarrow> xs = ys"
proof (induction xs arbitrary: p ys)
  case Nil
  then show ?case by (cases ys) auto
next
  case (Cons x xs)
  then show ?case by (cases ys) auto
qed

lemma cstr_bytes: "0 \<notin> set xs \<Longrightarrow> cstr (bytes xs) xs"
  by (auto simp: cstr_def in_set_conv_nth)

subsection \<open>memset\<close>

lemma byte_of_repeated:
  fixes c :: u32
  assumes "k < 4"
  shows "ucast (drop_bit (8 * k) (push_bit 24 (c AND 0xFF) OR push_bit 16 (c AND 0xFF)
           OR push_bit 8 (c AND 0xFF) OR (c AND 0xFF))) = (ucast c :: u8)"
proof -
  have "k = 0 \<or> k = 1 \<or> k = 2 \<or> k = 3" using assms by auto
  moreover have "bit (255 :: u32) n" if "n < 8" for n
  proof -
    have "bit (mask 8 :: u32) n" using that by (simp add: bit_mask_iff)
    then show ?thesis by (simp add: mask_eq_exp_minus_1)
  qed
  ultimately show ?thesis
    by (auto intro!: bit_word_eqI simp: bit_simps)
qed

lemma stosl_repeated:
  "stosl m dst (push_bit 24 (c AND 0xFF) OR push_bit 16 (c AND 0xFF) OR push_bit 8 (c AND 0xFF)
      OR (c AND 0xFF)) cnt a = (if unat (a - dst) < 4 * unat cnt then ucast c else m a)"
proof -
  have "unat (a - dst) mod 4 < 4" by simp
  then show ?thesis unfolding stosl_def by (subst byte_of_repeated) simp_all
qed

lemma memset_apply: "memset m dst c n a = (if a - dst < n then ucast c else m a)"
proof -
  have "4 * unat (n div 4) = unat n" if "n mod 4 = 0"
  proof -
    have "unat n mod 4 = 0" using arg_cong [OF that, of unat] by (simp add: unat_mod)
    then show ?thesis by (simp add: unat_div) presburger
  qed
  then show ?thesis
    unfolding memset_def Let_def stosl_repeated
    by (simp add: stosb_def word_less_nat_alt)
qed

text \<open>
  memset of the kernel: the word-filling fast path (rep stosl of the byte repeated four
  times) and the byte-filling path store the same bytes, the low byte of c in each of the n
  bytes from dst.
\<close>

lemma memset_fills: "memset m dst c n a = (if a - dst < n then ucast c else m a)"
  by (rule memset_apply)

subsection \<open>memmove\<close>

lemma unat_Suc_word: "unat (a :: u32) + 1 < 2 ^ 32 \<Longrightarrow> unat (a + 1) = unat a + 1"
  by (simp add: unat_word_ariths)

lemma unat_offset:
  fixes a d s :: u32
  assumes "unat d \<le> unat a" and "unat s + (unat a - unat d) < 2 ^ 32"
  shows "unat (s + (a - d)) = unat s + (unat a - unat d)"
proof -
  have "unat (a - d) = unat a - unat d" using assms(1) by (simp add: unat_sub word_le_nat_alt)
  with assms(2) show ?thesis by (simp add: unat_word_ariths)
qed

lemma copy_up_spec:
  assumes "unat d + n \<le> 2 ^ 32" and "unat s + n \<le> 2 ^ 32"
    and "unat d \<le> unat s \<or> unat s + n \<le> unat d"
  shows "copy_up m d s n a =
     (if unat d \<le> unat a \<and> unat a < unat d + n then m (s + (a - d)) else m a)"
  using assms
proof (induction n arbitrary: m d s)
  case 0
  then show ?case by auto
next
  case (Suc n)
  show ?case
  proof (cases n)
    case 0
    have "unat a = unat d \<longleftrightarrow> a = d" by (simp add: word_unat_eq_iff)
    with 0 show ?thesis by (auto simp: le_less_Suc_eq)
  next
    case (Suc k)
    have d1: "unat (d + 1) = unat d + 1" and s1: "unat (s + 1) = unat s + 1"
      using Suc Suc.prems unat_Suc_word [of d] unat_Suc_word [of s] by simp_all
    have src: "s + (a - d) \<noteq> d" if "unat d < unat a" "unat a < unat d + Suc n"
    proof -
      have "unat (s + (a - d)) = unat s + (unat a - unat d)"
        using that Suc.prems by (intro unat_offset) auto
      then have "unat (s + (a - d)) \<noteq> unat d" using that Suc.prems(3) by auto
      then show ?thesis by metis
    qed
    have "copy_up m d s (Suc n) a =
      (if unat d + 1 \<le> unat a \<and> unat a < unat d + 1 + n
       then (m(d := m s)) (s + 1 + (a - (d + 1))) else (m(d := m s)) a)"
      unfolding copy_up.simps d1 [symmetric]
      by (rule Suc.IH) (use Suc.prems d1 s1 in auto)
    moreover have "s + 1 + (a - (d + 1)) = s + (a - d)" by simp
    moreover have "unat a = unat d \<longleftrightarrow> a = d" by (simp add: word_unat_eq_iff)
    ultimately show ?thesis
      using src by (cases "a = d") (auto simp: Suc_le_eq le_less)
  qed
qed

lemma copy_down_spec:
  assumes "unat d + n \<le> 2 ^ 32" and "unat s + n \<le> 2 ^ 32" and "unat s \<le> unat d"
  shows "copy_down m (d + of_nat n) (s + of_nat n) n a =
     (if unat d \<le> unat a \<and> unat a < unat d + n then m (s + (a - d)) else m a)"
  using assms
proof (induction n arbitrary: m)
  case 0
  then show ?case by auto
next
  case (Suc n)
  have dn: "unat (d + of_nat n) = unat d + n" and sn: "unat (s + of_nat n) = unat s + n"
    using Suc.prems by (simp_all add: unat_word_ariths unat_of_nat)
  let ?m = "m(d + of_nat n := m (s + of_nat n))"
  have "copy_down m (d + of_nat (Suc n)) (s + of_nat (Suc n)) (Suc n) a =
     (if unat d \<le> unat a \<and> unat a < unat d + n then ?m (s + (a - d)) else ?m a)"
    using Suc.prems by (simp add: Suc.IH algebra_simps)
  moreover have "s + (a - d) \<noteq> d + of_nat n" if "unat d \<le> unat a" "unat a < unat d + n"
  proof -
    have "unat (s + (a - d)) = unat s + (unat a - unat d)"
      using that Suc.prems by (intro unat_offset) auto
    then have "unat (s + (a - d)) < unat (d + of_nat n)" using that Suc.prems dn by simp
    then show ?thesis by (metis less_irrefl)
  qed
  moreover have "unat a = unat d + n \<longleftrightarrow> a = d + of_nat n"
    using dn by (auto simp: word_unat_eq_iff)
  ultimately show ?case by auto
qed

lemma memmove_apply:
  assumes "unat src + unat n < 2 ^ 32" and "unat dst + unat n \<le> 2 ^ 32"
  shows "memmove m dst src n a = (if a - dst < n then m (src + (a - dst)) else m a)"
proof -
  have region: "a - dst < n \<longleftrightarrow> unat dst \<le> unat a \<and> unat a < unat dst + unat n"
  proof (cases "unat dst \<le> unat a")
    case True
    then have "unat (a - dst) = unat a - unat dst" by (simp add: unat_sub word_le_nat_alt)
    with True show ?thesis by (auto simp: word_less_nat_alt)
  next
    case False
    then have "unat (a - dst) = 2 ^ 32 + unat a - unat dst"
      by (simp add: unat_sub_if_size word_size word_le_nat_alt)
    with False assms(2) show ?thesis by (auto simp: word_less_nat_alt)
  qed
  have sn: "unat (src + n) = unat src + unat n"
    using assms(1) by (simp add: unat_word_ariths)
  show ?thesis
  proof (cases "src < dst \<and> src + n > dst")
    case True
    then have "unat src \<le> unat dst" by (simp add: word_less_nat_alt)
    then have "copy_down m (dst + of_nat (unat n)) (src + of_nat (unat n)) (unat n) a =
      (if a - dst < n then m (src + (a - dst)) else m a)"
      using assms by (subst copy_down_spec) (auto simp: region)
    with True show ?thesis by (simp add: memmove_def)
  next
    case False
    then have "unat dst \<le> unat src \<or> unat src + unat n \<le> unat dst"
      by (auto simp: word_less_nat_alt sn)
    then have "copy_up m dst src (unat n) a =
      (if a - dst < n then m (src + (a - dst)) else m a)"
      using assms by (subst copy_up_spec) (auto simp: region)
    with False show ?thesis by (auto simp: memmove_def)
  qed
qed

text \<open>
  C6. memmove copies as if the source were read in full first: after it, every byte of the
  destination holds the byte the source had before the call, and nothing else changes, however
  the two regions overlap. The regions must not reach the top of the address space, where the
  pointer sums of the comparison wrap.
\<close>

theorem memmove_copies:
  assumes "unat src + unat n < 2 ^ 32" and "unat dst + unat n \<le> 2 ^ 32"
  shows "memmove m dst src n a = (if a - dst < n then m (src + (a - dst)) else m a)"
  using assms by (rule memmove_apply)

theorem memmove_copies_witness:
  "memmove (\<lambda>a. ucast a) 0x1001 0x1000 8 0x1004 = (3 :: u8)"
proof -
  have "unat (0x1000 :: u32) + unat (8 :: u32) < 2 ^ 32" by simp
  moreover have "unat (0x1001 :: u32) + unat (8 :: u32) \<le> 2 ^ 32" by simp
  ultimately show ?thesis
    using memmove_copies [of "0x1000" 8 "0x1001" "\<lambda>a. ucast a" "0x1004"] by simp
qed


subsection \<open>Strings\<close>

lemma strlen_from_cstr: "cstr (adv p k) xs \<Longrightarrow> strlen_from p k = Some (k + length xs)"
proof (induction xs arbitrary: k)
  case Nil
  then show ?case by (simp add: strlen_from.simps)
next
  case (Cons x xs)
  from Cons.prems have "p k \<noteq> 0" and "cstr (adv p (Suc k)) xs" by auto
  then show ?case by (subst strlen_from.simps) (simp add: Cons.IH)
qed

lemma strlen_cstr: "cstr p xs \<Longrightarrow> strlen p = Some (length xs)"
  using strlen_from_cstr [of p 0 xs] by (simp add: strlen_def)

lemma strncmp_0_iff:
  "cstr p xs \<Longrightarrow> cstr q ys \<Longrightarrow> strncmp p q n = 0 \<longleftrightarrow> take n xs = take n ys"
proof (induction n arbitrary: p q xs ys)
  case 0
  then show ?case by simp
next
  case (Suc n)
  have "uint (p 0) - uint (q 0) = 0 \<longleftrightarrow> p 0 = q 0" by (simp add: word_uint_eq_iff)
  with Suc show ?case by (cases xs; cases ys) auto
qed

lemma length_strncpy [simp]: "length (strncpy t n) = n"
  by (induction n arbitrary: t) auto

lemma strncpy_cstr:
  "cstr t xs \<Longrightarrow> strncpy t n = take n xs @ replicate (n - length xs) 0"
proof (induction n arbitrary: t xs)
  case 0
  then show ?case by simp
next
  case (Suc n)
  then show ?case by (cases xs) auto
qed

lemma strncmp_stored:
  "cstr p xs \<Longrightarrow> cstr q ys \<Longrightarrow> strncmp p (bytes (strncpy q n @ rest)) n = 0 \<longleftrightarrow> take n xs = take n ys"
proof (induction n arbitrary: p q xs ys)
  case 0
  then show ?case by simp
next
  case (Suc n)
  have "uint (p 0) - uint (q 0) = 0 \<longleftrightarrow> p 0 = q 0" by (simp add: word_uint_eq_iff)
  with Suc show ?case by (cases xs; cases ys) auto
qed

text \<open>
  A directory entry stores a name with strncpy into DIRSIZ bytes that need not hold a NUL,
  and a lookup compares with strncmp over the same DIRSIZ bytes. The two agree: a stored name is
  found by exactly the names that have the same first \<open>n\<close> characters, whatever bytes follow the
  name field in the entry.
\<close>

lemma strncmp_finds_strncpy:
  assumes "0 \<notin> set xs" and "0 \<notin> set ys"
  shows "strncmp (bytes xs) (bytes (strncpy (bytes ys) n @ rest)) n = 0 \<longleftrightarrow> take n xs = take n ys"
  using assms by (simp add: strncmp_stored cstr_bytes)

lemma strncmp_finds_strncpy_example:
  "strncmp (bytes [97, 98]) (bytes (strncpy (bytes [97, 98, 99]) 2 @ [120])) 2 = 0"
  using strncmp_finds_strncpy [of "[97, 98]" "[97, 98, 99]" 2 "[120]"] by simp

lemma safestrcpy_loop_cstr:
  "cstr t xs \<Longrightarrow> 0 < n \<Longrightarrow>
     cstr (bytes (safestrcpy_loop t n)) (take (n - 1) xs) \<and> length (safestrcpy_loop t n) \<le> n"
proof (induction n arbitrary: t xs)
  case 0
  then show ?case by simp
next
  case (Suc n)
  show ?case
  proof (cases "n = 0 \<or> xs = []")
    case True
    with Suc.prems show ?thesis by (cases n) auto
  next
    case False
    then obtain x ys k where xs: "xs = x # ys" and n: "n = Suc k" by (cases xs; cases n) auto
    have "cstr (bytes (safestrcpy_loop (adv t 1) n)) (take (n - 1) ys)"
      and "length (safestrcpy_loop (adv t 1) n) \<le> n"
      using Suc.IH [of "adv t 1" ys] Suc.prems xs n by auto
    with Suc.prems show ?thesis
      unfolding xs n by (simp del: safestrcpy_loop.simps(2) add: safestrcpy_loop.simps(2) [of t])
  qed
qed

text \<open>
  safestrcpy never writes more than \<open>n\<close> bytes and leaves a NUL-terminated string: the first
  \<open>n - 1\<close> characters of the source.
\<close>

lemma safestrcpy_bounded:
  assumes "cstr t xs" and "0 < n"
  shows "cstr (bytes (safestrcpy t n)) (take (nat n - 1) xs) \<and> length (safestrcpy t n) \<le> nat n"
  using safestrcpy_loop_cstr [of t xs "nat n"] assms by (simp add: safestrcpy_def)

lemma safestrcpy_bounded_example:
  "cstr (bytes (safestrcpy (bytes [105, 110, 105, 116]) 3)) [105, 110]"
  using safestrcpy_bounded [of "bytes [105, 110, 105, 116]" "[105, 110, 105, 116]" 3]
  by (simp add: cstr_bytes)

lemma ulib_strcpy_cstr: "cstr t xs \<Longrightarrow> ulib_strcpy t = Some (xs @ [0])"
proof (induction xs arbitrary: t)
  case Nil
  then show ?case by (subst ulib_strcpy.simps) simp
next
  case (Cons x xs)
  then show ?case by (subst ulib_strcpy.simps) simp
qed

lemma ulib_strcmp_0_iff:
  "cstr p xs \<Longrightarrow> cstr q ys \<Longrightarrow> \<exists>d. ulib_strcmp p q = Some d \<and> (d = 0 \<longleftrightarrow> xs = ys)"
proof (induction xs arbitrary: p q ys)
  case Nil
  then show ?case by (subst ulib_strcmp.simps, cases ys) (auto simp: word_uint_eq_iff)
next
  case (Cons x xs)
  then show ?case
    by (subst ulib_strcmp.simps, cases ys) (auto simp: word_uint_eq_iff)
qed

end
