(* ===== verification/Mmu.thy ===== *)
theory Mmu
  imports Cstring
begin

section \<open>Addresses, page-table entries and descriptors (mmu.h, memlayout.h)\<close>

text \<open>
  The address arithmetic of the kernel on 32-bit words, the kernel's direct map, the encoding of
  segment and gate descriptors, and 32-bit loads and stores on the byte memory.
\<close>

subsection \<open>Definitions\<close>

abbreviation (input) PGSIZE :: u32 where "PGSIZE \<equiv> 4096"
abbreviation (input) EXTMEM :: u32 where "EXTMEM \<equiv> 0x100000"
abbreviation (input) PHYSTOP :: u32 where "PHYSTOP \<equiv> 0xE000000"
abbreviation (input) DEVSPACE :: u32 where "DEVSPACE \<equiv> 0xFE000000"
abbreviation (input) KERNBASE :: u32 where "KERNBASE \<equiv> 0x80000000"
abbreviation (input) KERNLINK :: u32 where "KERNLINK \<equiv> 0x80100000"
abbreviation (input) PTE_P :: u32 where "PTE_P \<equiv> 1"
abbreviation (input) PTE_W :: u32 where "PTE_W \<equiv> 2"
abbreviation (input) PTE_U :: u32 where "PTE_U \<equiv> 4"

definition V2P :: "u32 \<Rightarrow> u32" where
  "V2P a = a - KERNBASE"

definition P2V :: "u32 \<Rightarrow> u32" where
  "P2V a = a + KERNBASE"

definition PDX :: "u32 \<Rightarrow> u32" where
  "PDX va = drop_bit 22 va AND 0x3FF"

definition PTX :: "u32 \<Rightarrow> u32" where
  "PTX va = drop_bit 12 va AND 0x3FF"

definition PGADDR :: "u32 \<Rightarrow> u32 \<Rightarrow> u32 \<Rightarrow> u32" where
  "PGADDR d t off = push_bit 22 d OR push_bit 12 t OR off"

definition PGROUNDUP :: "u32 \<Rightarrow> u32" where
  "PGROUNDUP sz = (sz + PGSIZE - 1) AND NOT (PGSIZE - 1)"

definition PGROUNDDOWN :: "u32 \<Rightarrow> u32" where
  "PGROUNDDOWN a = a AND NOT (PGSIZE - 1)"

definition PTE_ADDR :: "u32 \<Rightarrow> u32" where
  "PTE_ADDR pte = pte AND NOT 0xFFF"

definition PTE_FLAGS :: "u32 \<Rightarrow> u32" where
  "PTE_FLAGS pte = pte AND 0xFFF"

text \<open>A bit-field of width \<open>w\<close> keeps the low \<open>w\<close> bits of the value stored in it.\<close>

record segdesc =
  sd_lim_15_0 :: u32
  sd_base_15_0 :: u32
  sd_base_23_16 :: u32
  sd_type :: u32
  sd_s :: u32
  sd_dpl :: u32
  sd_p :: u32
  sd_lim_19_16 :: u32
  sd_avl :: u32
  sd_rsv1 :: u32
  sd_db :: u32
  sd_g :: u32
  sd_base_31_24 :: u32

definition SEG :: "u32 \<Rightarrow> u32 \<Rightarrow> u32 \<Rightarrow> u32 \<Rightarrow> segdesc" where
  "SEG type base lim dpl =
     \<lparr>sd_lim_15_0 = take_bit 16 (drop_bit 12 lim AND 0xffff),
      sd_base_15_0 = take_bit 16 (base AND 0xffff),
      sd_base_23_16 = take_bit 8 (drop_bit 16 base AND 0xff),
      sd_type = take_bit 4 type, sd_s = 1, sd_dpl = take_bit 2 dpl, sd_p = 1,
      sd_lim_19_16 = take_bit 4 (drop_bit 28 lim),
      sd_avl = 0, sd_rsv1 = 0, sd_db = 1, sd_g = 1,
      sd_base_31_24 = take_bit 8 (drop_bit 24 base)\<rparr>"

definition SEG16 :: "u32 \<Rightarrow> u32 \<Rightarrow> u32 \<Rightarrow> u32 \<Rightarrow> segdesc" where
  "SEG16 type base lim dpl =
     \<lparr>sd_lim_15_0 = take_bit 16 (lim AND 0xffff),
      sd_base_15_0 = take_bit 16 (base AND 0xffff),
      sd_base_23_16 = take_bit 8 (drop_bit 16 base AND 0xff),
      sd_type = take_bit 4 type, sd_s = 1, sd_dpl = take_bit 2 dpl, sd_p = 1,
      sd_lim_19_16 = take_bit 4 (drop_bit 16 lim),
      sd_avl = 0, sd_rsv1 = 0, sd_db = 1, sd_g = 0,
      sd_base_31_24 = take_bit 8 (drop_bit 24 base)\<rparr>"

record gatedesc =
  gd_off_15_0 :: u32
  gd_cs :: u32
  gd_args :: u32
  gd_rsv1 :: u32
  gd_type :: u32
  gd_s :: u32
  gd_dpl :: u32
  gd_p :: u32
  gd_off_31_16 :: u32

abbreviation (input) STS_T32A :: u32 where "STS_T32A \<equiv> 0x9"
abbreviation (input) STS_IG32 :: u32 where "STS_IG32 \<equiv> 0xE"
abbreviation (input) STS_TG32 :: u32 where "STS_TG32 \<equiv> 0xF"

definition SETGATE :: "bool \<Rightarrow> u32 \<Rightarrow> u32 \<Rightarrow> u32 \<Rightarrow> gatedesc" where
  "SETGATE istrap sel off d =
     \<lparr>gd_off_15_0 = take_bit 16 (off AND 0xffff), gd_cs = take_bit 16 sel,
      gd_args = 0, gd_rsv1 = 0, gd_type = (if istrap then STS_TG32 else STS_IG32),
      gd_s = 0, gd_dpl = take_bit 2 d, gd_p = 1,
      gd_off_31_16 = take_bit 16 (drop_bit 16 off)\<rparr>"

text \<open>What the processor reads back from a descriptor: base and limit of a segment, offset of a gate.\<close>

definition seg_base :: "segdesc \<Rightarrow> u32" where
  "seg_base d = push_bit 24 (sd_base_31_24 d) OR push_bit 16 (sd_base_23_16 d) OR sd_base_15_0 d"

definition seg_limit :: "segdesc \<Rightarrow> u32" where
  "seg_limit d =
     (let l = push_bit 16 (sd_lim_19_16 d) OR sd_lim_15_0 d in
      if sd_g d = 1 then push_bit 12 l OR 0xFFF else l)"

definition gate_offset :: "gatedesc \<Rightarrow> u32" where
  "gate_offset g = push_bit 16 (gd_off_31_16 g) OR gd_off_15_0 g"

text \<open>Little-endian loads and stores of a \<open>uint\<close>.\<close>

definition load32 :: "bytemem \<Rightarrow> u32 \<Rightarrow> u32" where
  "load32 m a = ucast (m a) OR push_bit 8 (ucast (m (a + 1)))
     OR push_bit 16 (ucast (m (a + 2))) OR push_bit 24 (ucast (m (a + 3)))"

definition store32 :: "bytemem \<Rightarrow> u32 \<Rightarrow> u32 \<Rightarrow> bytemem" where
  "store32 m a v = m(a := ucast v, a + 1 := ucast (drop_bit 8 v),
     a + 2 := ucast (drop_bit 16 v), a + 3 := ucast (drop_bit 24 v))"

subsection \<open>Masks\<close>

lemma word_masks:
  "a AND 0xFFF = take_bit 12 (a :: u32)"
  "a AND 0x3FF = take_bit 10 a"
  "a AND 0xff = take_bit 8 a" "a AND 0xffff = take_bit 16 a"
  by (simp_all add: take_bit_eq_mask mask_eq_exp_minus_1)

lemma and_not_mask: "(a :: u32) AND NOT (mask n) = a - take_bit n a"
proof -
  have "a - take_bit n a = a AND NOT (take_bit n a)"
    by (rule disjunctive_diff) (simp add: bit_simps)
  also have "\<dots> = a AND NOT (mask n)"
    by (rule bit_word_eqI) (auto simp: bit_simps)
  finally show ?thesis by simp
qed

lemma unat_take_bit: "unat (take_bit n (a :: u32)) = unat a mod 2 ^ n"
  by (subst unsigned_take_bit_eq) (simp add: take_bit_eq_mod)

lemma unat_and_not_mask: "unat ((a :: u32) AND NOT (mask n)) = unat a - unat a mod 2 ^ n"
proof -
  have "take_bit n a \<le> a"
    by (simp add: word_le_nat_alt unsigned_take_bit_eq take_bit_nat_less_eq_self)
  then show ?thesis
    unfolding and_not_mask by (simp add: unat_sub unat_take_bit)
qed

subsection \<open>Rounding and the parts of an address\<close>

lemma PGROUNDDOWN_mask: "PGROUNDDOWN a = a AND NOT (mask 12)"
  by (simp add: PGROUNDDOWN_def mask_eq_exp_minus_1)

lemma PTE_ADDR_eq: "PTE_ADDR a = PGROUNDDOWN a"
  by (simp add: PTE_ADDR_def PGROUNDDOWN_def)

lemma PGROUNDUP_eq: "PGROUNDUP a = PGROUNDDOWN (a + 4095)"
  by (simp add: PGROUNDUP_def PGROUNDDOWN_def add.commute)

lemma unat_PGROUNDDOWN: "unat (PGROUNDDOWN a) = unat a - unat a mod 4096"
  using unat_and_not_mask [of a 12] by (simp add: PGROUNDDOWN_mask)

lemma unat_PGROUNDUP:
  assumes "unat sz + 4095 < 2 ^ 32"
  shows "unat (PGROUNDUP sz) = (unat sz + 4095) div 4096 * 4096"
proof -
  have "unat (sz + 0xFFF) = unat sz + 4095"
    using assms by (simp add: unat_word_ariths)
  then show ?thesis
    by (simp add: PGROUNDUP_eq unat_PGROUNDDOWN minus_mod_eq_div_mult)
qed

lemma unat_drop_bit: "unat (drop_bit n (a :: u32)) = unat a div 2 ^ n"
  by (subst unat_drop_bit_eq) (simp add: drop_bit_eq_div)

lemma unat_PDX: "unat (PDX a) = unat a div 2 ^ 22"
proof -
  have "unat a < 2 ^ 32" using unsigned_less [of a] by simp
  then have "unat a div 2 ^ 22 < 2 ^ 10" by (simp add: div_less_iff_less_mult)
  then show ?thesis
    by (simp add: PDX_def word_masks unat_take_bit unat_drop_bit)
qed

lemma unat_PTX: "unat (PTX a) = unat a div 2 ^ 12 mod 2 ^ 10"
  by (simp add: PTX_def word_masks unat_take_bit unat_drop_bit)

text \<open>\<open>page_aligned\<close> is the test \<open>% PGSIZE == 0\<close> of the code.\<close>

definition page_aligned :: "u32 \<Rightarrow> bool" where
  "page_aligned a \<longleftrightarrow> a mod PGSIZE = 0"

lemma page_aligned_unat: "page_aligned a \<longleftrightarrow> unat a mod 4096 = 0"
  by (simp add: page_aligned_def word_unat_eq_iff unat_mod)

lemma page_aligned_take_bit: "page_aligned a \<longleftrightarrow> take_bit 12 a = 0"
  using unat_take_bit [of 12 a] by (simp add: page_aligned_unat word_unat_eq_iff)

lemma page_aligned_PGROUNDDOWN [simp]: "page_aligned (PGROUNDDOWN a)"
  by (simp add: page_aligned_unat unat_PGROUNDDOWN minus_mod_eq_div_mult)

lemma PGROUNDDOWN_aligned [simp]: "page_aligned a \<Longrightarrow> PGROUNDDOWN a = a"
  by (simp add: page_aligned_unat unat_PGROUNDDOWN word_unat_eq_iff)

text \<open>
  The three parts of a virtual address: PGADDR puts together exactly the address that PDX,
  PTX and the page offset take apart, so no two pages of an address space share a page-table
  entry.
\<close>

lemma PGADDR_parts: "PGADDR (PDX va) (PTX va) (va AND 0xFFF) = va"
  unfolding PGADDR_def PDX_def PTX_def word_masks
proof (rule bit_word_eqI)
  fix n :: nat
  assume "n < LENGTH(32)"
  then consider "n < 12" | "12 \<le> n \<and> n < 22" | "22 \<le> n \<and> n < 32" by force
  then show "bit (push_bit 22 (take_bit 10 (drop_bit 22 va)) OR
      push_bit 12 (take_bit 10 (drop_bit 12 va)) OR take_bit 12 va) n = bit va n"
    by cases (auto simp: bit_simps)
qed

subsection \<open>Loads and stores\<close>

lemma word_offsets_distinct [simp]:
  "(a :: u32) + 1 \<noteq> a" "a + 2 \<noteq> a" "a + 3 \<noteq> a" "a + 1 \<noteq> a + 2" "a + 1 \<noteq> a + 3" "a + 2 \<noteq> a + 3"
  "a \<noteq> a + 1" "a \<noteq> a + 2" "a \<noteq> a + 3" "a + 2 \<noteq> a + 1" "a + 3 \<noteq> a + 1" "a + 3 \<noteq> a + 2"
  by simp_all

lemma word_of_bytes:
  "(ucast (ucast v :: u8) :: u32) OR push_bit 8 (ucast (ucast (drop_bit 8 v) :: u8))
     OR push_bit 16 (ucast (ucast (drop_bit 16 v) :: u8))
     OR push_bit 24 (ucast (ucast (drop_bit 24 v) :: u8)) = v"
proof (rule bit_word_eqI)
  fix n :: nat
  assume "n < LENGTH(32)"
  then consider "n < 8" | "8 \<le> n \<and> n < 16" | "16 \<le> n \<and> n < 24" | "24 \<le> n \<and> n < 32" by force
  then show "bit ((ucast (ucast v :: u8) :: u32) OR push_bit 8 (ucast (ucast (drop_bit 8 v) :: u8))
     OR push_bit 16 (ucast (ucast (drop_bit 16 v) :: u8))
     OR push_bit 24 (ucast (ucast (drop_bit 24 v) :: u8))) n = bit v n"
    by cases (auto simp: bit_simps)
qed

lemma load32_store32_same [simp]: "load32 (store32 m a v) a = v"
  unfolding load32_def store32_def by (simp add: word_of_bytes)

lemma store32_frame: "4 \<le> b - a \<Longrightarrow> store32 m a v b = m b"
proof -
  assume far: "4 \<le> b - a"
  have "b \<noteq> a + k" if "k < 4" for k
    using far that by auto
  from this [of 0] this [of 1] this [of 2] this [of 3] show ?thesis
    by (simp add: store32_def)
qed

lemma load32_cong:
  assumes "\<And>k. k < 4 \<Longrightarrow> m (a + k) = m' (a + k)"
  shows "load32 m a = load32 m' a"
  using assms [of 0] assms [of 1] assms [of 2] assms [of 3] by (simp add: load32_def)

text \<open>Words at 4-aligned addresses, such as the entries of a page table, do not overlap.\<close>

definition word_aligned :: "u32 \<Rightarrow> bool" where
  "word_aligned a \<longleftrightarrow> unat a mod 4 = 0"

lemma unat_word_aligned_add:
  assumes "word_aligned a" and "k < 4"
  shows "unat (a + k) = unat a + unat k"
proof -
  have "unat a < 4294967296" and "unat k < 4"
    using unsigned_less [of a] assms(2) by (auto simp: word_less_nat_alt)
  with assms(1) have "unat a + unat k < 4294967296"
    unfolding word_aligned_def by presburger
  then show ?thesis by (simp add: unat_word_ariths)
qed

lemma word_aligned_far:
  assumes "word_aligned a" and "word_aligned b" and "a \<noteq> b" and "k < 4"
  shows "4 \<le> b + k - a"
proof -
  have "\<not> b + k - a < 4"
  proof
    assume "b + k - a < 4"
    moreover have "a + (b + k - a) = b + k" by simp
    ultimately have "unat a + unat (b + k - a) = unat b + unat k"
      using unat_word_aligned_add [OF assms(1), of "b + k - a"] unat_word_aligned_add [OF assms(2,4)]
      by simp
    moreover have "unat (b + k - a) < 4" "unat k < 4"
      using \<open>b + k - a < 4\<close> assms(4) by (auto simp: word_less_nat_alt)
    ultimately have "unat a = unat b"
      using assms(1,2) unfolding word_aligned_def by presburger
    with assms(3) show False by (simp add: word_unat_eq_iff)
  qed
  then show ?thesis by simp
qed

lemma load32_store32:
  assumes "word_aligned a" and "word_aligned b"
  shows "load32 (store32 m a v) b = (if a = b then v else load32 m b)"
  using assms by (auto intro!: load32_cong store32_frame word_aligned_far)

lemma unat_page_aligned_add:
  assumes "page_aligned a" and "k < PGSIZE"
  shows "unat (a + k) = unat a + unat k"
proof -
  obtain q where q: "unat a = 4096 * q" using assms(1) by (auto simp: page_aligned_unat)
  have "unat a < 4294967296" and "unat k < 4096"
    using unsigned_less [of a] assms(2) by (auto simp: word_less_nat_alt)
  then have "unat a + unat k < 4294967296" unfolding q by simp
  then show ?thesis by (simp add: unat_word_ariths)
qed

lemma PGROUNDDOWN_add [simp]:
  assumes "page_aligned a" and "k < PGSIZE"
  shows "PGROUNDDOWN (a + k) = a"
proof -
  have "unat k < 4096" using assms(2) by (simp add: word_less_nat_alt)
  moreover obtain q where "unat a = 4096 * q" using assms(1) by (auto simp: page_aligned_unat)
  ultimately show ?thesis
    using unat_page_aligned_add [OF assms] by (simp add: word_unat_eq_iff unat_PGROUNDDOWN)
qed

text \<open>An offset from a page that is within the page's size stays in that page.\<close>

lemma in_page_iff:
  assumes "page_aligned v"
  shows "b - v < PGSIZE \<longleftrightarrow> PGROUNDDOWN b = v"
proof
  assume "b - v < PGSIZE"
  then show "PGROUNDDOWN b = v" using PGROUNDDOWN_add [OF assms, of "b - v"] by simp
next
  assume v: "PGROUNDDOWN b = v"
  have "take_bit 12 b < PGSIZE"
    using unat_take_bit [of 12 b] by (simp add: word_less_nat_alt)
  moreover have "b - v = take_bit 12 b"
    unfolding v [symmetric] PGROUNDDOWN_mask and_not_mask by simp
  ultimately show "b - v < PGSIZE" by simp
qed

lemma word_aligned_page: "page_aligned a \<Longrightarrow> word_aligned a"
  by (auto simp: page_aligned_unat word_aligned_def mod_eq_0_iff_dvd intro: dvd_trans [of 4 4096])

lemma in_word_page:
  assumes "word_aligned a" and "k < 4"
  shows "PGROUNDDOWN (a + k) = PGROUNDDOWN a"
proof -
  have "unat k < 4" using assms(2) by (simp add: word_less_nat_alt)
  moreover have "unat (a + k) = unat a + unat k" using assms by (rule unat_word_aligned_add)
  moreover obtain q where "unat a = 4 * q" using assms(1) by (auto simp: word_aligned_def)
  ultimately have "unat (a + k) div 4096 = unat a div 4096"
    using div_mult2_eq [of "unat a + unat k" 4 1024] div_mult2_eq [of "unat a" 4 1024] by simp
  then show ?thesis
    unfolding word_unat_eq_iff unat_PGROUNDDOWN minus_mod_eq_div_mult by simp
qed

lemma store32_other_page:
  assumes "word_aligned a" and "PGROUNDDOWN b \<noteq> PGROUNDDOWN a"
  shows "store32 m a v b = m b"
proof (rule store32_frame)
  have "\<not> b - a < 4"
    using in_word_page [OF assms(1), of "b - a"] assms(2) by auto
  then show "4 \<le> b - a" by simp
qed

lemma memset_page: "page_aligned v \<Longrightarrow>
    memset m v c PGSIZE b = (if PGROUNDDOWN b = v then ucast c else m b)"
  by (simp add: memset_apply in_page_iff)

lemma load32_page_cong:
  assumes "word_aligned a" and "\<And>b. PGROUNDDOWN b = PGROUNDDOWN a \<Longrightarrow> m b = m' b"
  shows "load32 m a = load32 m' a"
  using assms by (intro load32_cong) (simp add: in_word_page)

subsection \<open>Page-table entries and descriptors\<close>

lemma mask_12: "(0xFFF :: u32) = mask 12"
  by (simp add: mask_eq_exp_minus_1)

lemma bit_page_aligned: "page_aligned a \<Longrightarrow> n < 12 \<Longrightarrow> \<not> bit a n"
  by (metis bit_0_eq bit_take_bit_iff bot_apply page_aligned_take_bit bot_bool_def)

lemma bit_small: "(f :: u32) \<le> 0xFFF \<Longrightarrow> 12 \<le> n \<Longrightarrow> \<not> bit f n"
proof -
  assume "f \<le> 0xFFF" and n: "12 \<le> n"
  then have "unat f < 2 ^ 12" by (simp add: word_le_nat_alt)
  then have "take_bit 12 f = f" using unat_take_bit [of 12 f] by (simp add: word_unat_eq_iff)
  then show ?thesis using n by (metis bit_take_bit_iff not_less)
qed

lemma PTE_or:
  assumes "page_aligned pa" and "perm \<le> 0xFFF"
  shows "PTE_ADDR (pa OR perm) = pa \<and> PTE_FLAGS (pa OR perm) = perm"
proof
  show "PTE_ADDR (pa OR perm) = pa"
    unfolding PTE_ADDR_eq PGROUNDDOWN_mask
    using bit_page_aligned [OF assms(1)] bit_small [OF assms(2)]
    by (intro bit_word_eqI) (force simp: bit_simps not_less)
  show "PTE_FLAGS (pa OR perm) = perm"
    unfolding PTE_FLAGS_def word_masks
    using bit_page_aligned [OF assms(1)] bit_small [OF assms(2)]
    by (intro bit_word_eqI) (force simp: bit_simps not_less)
qed

text \<open>
  A page-table entry built from a page address and permission bits gives both back: PTE_ADDR
  and PTE_FLAGS are the projections of \<open>pa | perm\<close> for a page-aligned physical address and
  permissions that fit in the low twelve bits.
\<close>

lemma PTE_parts:
  assumes "page_aligned pa" and "perm \<le> 0xFFF"
  shows "PTE_ADDR (pa OR perm) = pa \<and> PTE_FLAGS (pa OR perm) = perm"
  using assms by (rule PTE_or)

lemma PTE_parts_example: "PTE_ADDR (0x5000 OR 7) = 0x5000 \<and> PTE_FLAGS (0x5000 OR 7) = 7"
  using PTE_parts [of "0x5000" 7] by (simp add: page_aligned_def)

text \<open>
  The scattered bit-fields of the descriptors hold the whole value: the base address in a
  segment descriptor, the limit of a page-granular segment up to its last page, and the handler
  offset of an interrupt gate are read back unchanged by the processor.
\<close>

lemma descriptors_round_trip:
  "seg_base (SEG t base lim dpl) = base \<and> seg_base (SEG16 t base lim dpl) = base \<and>
   seg_limit (SEG t base lim dpl) = (lim OR 0xFFF) \<and> gate_offset (SETGATE istrap sel off d) = off"
proof -
  have "push_bit 24 (take_bit 8 (drop_bit 24 w)) OR push_bit 16 (take_bit 8 (take_bit 8 (drop_bit 16 w)))
      OR take_bit 16 (take_bit 16 w) = w" for w :: u32
  proof (rule bit_word_eqI)
    fix n :: nat
    assume "n < LENGTH(32)"
    then consider "n < 16" | "16 \<le> n \<and> n < 24" | "24 \<le> n \<and> n < 32" by force
    then show "bit (push_bit 24 (take_bit 8 (drop_bit 24 w)) OR
        push_bit 16 (take_bit 8 (take_bit 8 (drop_bit 16 w))) OR take_bit 16 (take_bit 16 w)) n = bit w n"
      by cases (auto simp: bit_simps)
  qed
  moreover have "push_bit 12 (push_bit 16 (take_bit 4 (drop_bit 28 lim)) OR
      take_bit 16 (take_bit 16 (drop_bit 12 lim))) OR 0xFFF = lim OR 0xFFF"
    unfolding mask_12
  proof (rule bit_word_eqI)
    fix n :: nat
    assume "n < LENGTH(32)"
    then consider "n < 12" | "12 \<le> n \<and> n < 28" | "28 \<le> n \<and> n < 32" by force
    then show "bit (push_bit 12 (push_bit 16 (take_bit 4 (drop_bit 28 lim)) OR
        take_bit 16 (take_bit 16 (drop_bit 12 lim))) OR mask 12) n = bit (lim OR mask 12) n"
      by cases (auto simp: bit_simps)
  qed
  moreover have "push_bit 16 (take_bit 16 (drop_bit 16 off)) OR take_bit 16 (take_bit 16 off) = off"
    by (rule bit_word_eqI) (auto simp: bit_simps)
  ultimately show ?thesis
    by (simp only: seg_base_def SEG_def SEG16_def seg_limit_def gate_offset_def SETGATE_def
        segdesc.simps gatedesc.simps word_masks Let_def if_True simp_thms)
qed

end
