(* ===== verification/Kalloc.thy ===== *)
theory Kalloc
  imports Spinlock Mmu
begin

section \<open>The physical page allocator (kalloc.c)\<close>

text \<open>
  Extends the state with the allocator's \<open>kmem\<close>, the memory the kernel reaches through its
  direct map, indexed by kernel virtual address, and the linker symbol \<open>end\<close>. The free list is
  threaded through the free pages themselves: \<open>r->next\<close> is the word at the start of page \<open>r\<close>.
\<close>

subsection \<open>State and operations\<close>

record kmem_st = mach +
  use_lock :: bool
  freelist :: u32
  mem :: bytemem
  kend :: u32

definition kfree :: "u32 \<Rightarrow> (unit, 'a kmem_st_scheme) kop" where
  "kfree v =
     bnd (gets kend) (\<lambda>e.
     if v mod PGSIZE \<noteq> 0 \<or> v < e \<or> V2P v \<ge> PHYSTOP then kpanic ''kfree'' else
     thn (upd (\<lambda>s. s\<lparr>mem := memset (mem s) v 1 PGSIZE\<rparr>))
     (bnd (gets use_lock) (\<lambda>ul.
     thn (kwhen ul (acquire LKmem))
     (thn (upd (\<lambda>s. s\<lparr>mem := store32 (mem s) v (freelist s)\<rparr>))
     (thn (upd (\<lambda>s. s\<lparr>freelist := v\<rparr>))
     (bnd (gets use_lock) (\<lambda>ul.
     kwhen ul (release LKmem))))))))"

definition kalloc :: "(u32, 'a kmem_st_scheme) kop" where
  "kalloc =
     bnd (gets use_lock) (\<lambda>ul.
     thn (kwhen ul (acquire LKmem))
     (bnd (gets freelist) (\<lambda>r.
     thn (kwhen (r \<noteq> 0) (upd (\<lambda>s. s\<lparr>freelist := load32 (mem s) r\<rparr>)))
     (bnd (gets use_lock) (\<lambda>ul.
     thn (kwhen ul (release LKmem))
     (ret r))))))"

text \<open>
  The loop of \<open>freerange\<close>. Its pointer sum can only wrap at the last page of the address space,
  where \<open>kfree\<close> panics, so that no turn follows; every other turn moves \<open>p\<close> up.
\<close>

function freerange_from :: "u32 \<Rightarrow> u32 \<Rightarrow> (unit, 'a kmem_st_scheme) kop" where
  "freerange_from p vend =
     (if p + PGSIZE \<le> vend
      then thn (kfree p) (if p < p + PGSIZE then freerange_from (p + PGSIZE) vend else ret ())
      else ret ())"
  by auto
termination
  by (relation "measure (\<lambda>(p, vend). 2 ^ 32 - unat p)") (auto intro: word_up_measure simp del: power_numeral)

declare freerange_from.simps [simp del]

definition freerange :: "u32 \<Rightarrow> u32 \<Rightarrow> (unit, 'a kmem_st_scheme) kop" where
  "freerange vstart vend = freerange_from (PGROUNDUP vstart) vend"

definition kinit1 :: "u32 \<Rightarrow> u32 \<Rightarrow> (unit, 'a kmem_st_scheme) kop" where
  "kinit1 vstart vend =
     thn (initlock LKmem ''kmem'')
     (thn (upd (\<lambda>s. s\<lparr>use_lock := False\<rparr>))
     (freerange vstart vend))"

definition kinit2 :: "u32 \<Rightarrow> u32 \<Rightarrow> (unit, 'a kmem_st_scheme) kop" where
  "kinit2 vstart vend =
     thn (freerange vstart vend)
     (upd (\<lambda>s. s\<lparr>use_lock := True\<rparr>))"

subsection \<open>The machine layer below\<close>

lemmas mach_on_defs = lock_on_def cli_on_def settle_def set_cpu_def cli_def

lemma kmem_over_mach [simp]:
  "use_lock (lock_on l s) = use_lock s" "use_lock (settle s) = use_lock s"
  "freelist (lock_on l s) = freelist s" "freelist (settle s) = freelist s"
  "mem (lock_on l s) = mem s" "mem (settle s) = mem s"
  "kend (lock_on l s) = kend s" "kend (settle s) = kend s"
  by (simp_all add: mach_on_defs)

lemma me_kmem [simp]:
  "me (s\<lparr>freelist := x\<rparr>) = me s" "me (s\<lparr>mem := y\<rparr>) = me s" "me (s\<lparr>use_lock := b\<rparr>) = me s"
  by (simp_all add: me_def cpu_ix_def lapicid_def)

lemma mach_kmem [simp]:
  "mach_ok (s\<lparr>freelist := x\<rparr>) = mach_ok s" "mach_ok (s\<lparr>mem := y\<rparr>) = mach_ok s"
  "lock_free l (s\<lparr>freelist := x\<rparr>) = lock_free l s" "lock_free l (s\<lparr>mem := y\<rparr>) = lock_free l s"
  by (simp_all add: mach_ok_def lock_free_def cpu_ix_def lapicid_def readeflags_IF_def)

lemma kmem_upd_lock_on [simp]:
  "(lock_on l s)\<lparr>freelist := x\<rparr> = lock_on l (s\<lparr>freelist := x\<rparr>)"
  "(lock_on l s)\<lparr>mem := y\<rparr> = lock_on l (s\<lparr>mem := y\<rparr>)"
  by (simp_all add: lock_on_def cli_on_def set_cpu_def cli_def readeflags_IF_def cong: if_cong)

lemma kmem_upd_settle [simp]:
  "(settle s)\<lparr>freelist := x\<rparr> = settle (s\<lparr>freelist := x\<rparr>)"
  "(settle s)\<lparr>mem := y\<rparr> = settle (s\<lparr>mem := y\<rparr>)"
  by (simp_all add: settle_def set_cpu_def readeflags_IF_def cong: if_cong)

subsection \<open>The free list\<close>

definition page_ok :: "u32 \<Rightarrow> u32 \<Rightarrow> bool" where
  "page_ok e v \<longleftrightarrow> page_aligned v \<and> e \<le> v \<and> V2P v < PHYSTOP"

fun flist :: "bytemem \<Rightarrow> u32 \<Rightarrow> u32 list \<Rightarrow> bool" where
  "flist m r [] \<longleftrightarrow> r = 0"
| "flist m r (p # ps) \<longleftrightarrow> r = p \<and> p \<noteq> 0 \<and> flist m (load32 m p) ps"

text \<open>
  \<open>free_pages s ps\<close>: the linked list in memory is \<open>ps\<close>, a list of distinct pages between the
  end of the kernel and the top of physical memory. \<open>kmem_ready\<close>: the allocator's lock, once in
  use, can be taken.
\<close>

definition free_pages :: "'a kmem_st_scheme \<Rightarrow> u32 list \<Rightarrow> bool" where
  "free_pages s ps \<longleftrightarrow> KERNBASE \<le> kend s \<and> flist (mem s) (freelist s) ps \<and> distinct ps \<and>
     (\<forall>p \<in> set ps. page_ok (kend s) p)"

definition kmem_ready :: "'a kmem_st_scheme \<Rightarrow> bool" where
  "kmem_ready s \<longleftrightarrow> mach_ok s \<and> (use_lock s \<longrightarrow> lock_free LKmem s)"

definition kdone :: "'a kmem_st_scheme \<Rightarrow> 'a kmem_st_scheme" where
  "kdone s = (if use_lock s then settle s else s)"

lemma kmem_ready_kdone [simp]: "kmem_ready s \<Longrightarrow> kmem_ready (kdone s)"
  by (simp add: kmem_ready_def kdone_def mach_ok_settle)

lemma kmem_ready_settle [simp]: "kmem_ready s \<Longrightarrow> kmem_ready (settle s)"
  by (simp add: kmem_ready_def mach_ok_settle)

lemma kmem_ready_upd [simp]:
  "kmem_ready (s\<lparr>freelist := x\<rparr>) = kmem_ready s" "kmem_ready (s\<lparr>mem := y\<rparr>) = kmem_ready s"
  by (simp_all add: kmem_ready_def)

lemma kdone_fields [simp]:
  "freelist (kdone s) = freelist s" "mem (kdone s) = mem s" "kend (kdone s) = kend s"
  "use_lock (kdone s) = use_lock s"
  by (simp_all add: kdone_def)

lemma free_pages_kdone [simp]: "free_pages (kdone s) = free_pages s"
  by (simp add: fun_eq_iff free_pages_def)

lemma page_ok_nonzero: "page_ok e v \<Longrightarrow> KERNBASE \<le> e \<Longrightarrow> v \<noteq> 0"
  by (auto simp: page_ok_def)

lemma kfree_ok:
  assumes "kmem_ready s" and "page_ok (kend s) v"
  shows "kfree v s = Ret () (kdone (s\<lparr>mem := store32 (memset (mem s) v 1 PGSIZE) v (freelist s),
            freelist := v\<rparr>))"
  using assms
  by (auto simp: kfree_def kop page_ok_def page_aligned_def kmem_ready_def kdone_def
      acquire_ok release_on not_less not_le)

lemma kfree_panics: "\<not> page_ok (kend s) v \<Longrightarrow> kfree v s = Panic ''kfree''"
  by (auto simp: kfree_def kop page_ok_def page_aligned_def not_less not_le)

lemma kalloc_ok:
  assumes "kmem_ready s"
  shows "kalloc s = Ret (freelist s)
     (kdone (if freelist s = 0 then s else s\<lparr>freelist := load32 (mem s) (freelist s)\<rparr>))"
  using assms
  by (auto simp: kalloc_def kop kmem_ready_def kdone_def acquire_ok release_on)

lemma flist_cong:
  "(\<And>p. p \<in> set ps \<Longrightarrow> load32 m p = load32 m' p) \<Longrightarrow> flist m r ps = flist m' r ps"
  by (induction ps arbitrary: r) auto

lemma kfree_mem_other:
  assumes "page_aligned v" and "PGROUNDDOWN b \<noteq> v"
  shows "store32 (memset m v c PGSIZE) v x b = m b"
  using assms by (simp add: store32_other_page word_aligned_page memset_page)

lemma free_pages_kfree:
  assumes "free_pages s ps" and "page_ok (kend s) v" and "v \<notin> set ps"
  shows "free_pages (s\<lparr>mem := store32 (memset (mem s) v 1 PGSIZE) v (freelist s), freelist := v\<rparr>) (v # ps)"
proof -
  have "load32 (mem s) p = load32 (store32 (memset (mem s) v 1 PGSIZE) v (freelist s)) p"
    if "p \<in> set ps" for p
  proof (rule load32_page_cong)
    have p: "page_aligned p" using that assms(1) by (auto simp: free_pages_def page_ok_def)
    then show "word_aligned p" by (rule word_aligned_page)
    fix b assume "PGROUNDDOWN b = PGROUNDDOWN p"
    moreover have "p \<noteq> v" using that assms(3) by auto
    ultimately show "mem s b = store32 (memset (mem s) v 1 PGSIZE) v (freelist s) b"
      using p assms(2) by (simp add: kfree_mem_other page_ok_def)
  qed
  then have "flist (mem s) (freelist s) ps =
      flist (store32 (memset (mem s) v 1 PGSIZE) v (freelist s)) (freelist s) ps"
    by (rule flist_cong)
  then show ?thesis
    using assms page_ok_nonzero [OF assms(2)] by (auto simp: free_pages_def)
qed

subsection \<open>The allocator's interface\<close>

text \<open>
  What the callers of \<open>kalloc\<close> and \<open>kfree\<close> (page tables, kernel stacks, pipes) rely on: the
  free pages form a stack of distinct usable pages, and neither call touches memory outside the
  page it frees.
\<close>

locale page_pool =
  fixes alloc :: "(u32, 's) kop"
    and free :: "u32 \<Rightarrow> (unit, 's) kop"
    and pool :: "'s \<Rightarrow> u32 list \<Rightarrow> bool"
    and ready :: "'s \<Rightarrow> bool"
    and usable :: "'s \<Rightarrow> u32 \<Rightarrow> bool"
    and store :: "'s \<Rightarrow> bytemem"
  assumes alloc_none: "ready s \<Longrightarrow> pool s [] \<Longrightarrow>
        \<exists>t. alloc s = Ret 0 t \<and> ready t \<and> pool t [] \<and> usable t = usable s \<and> store t = store s"
    and alloc_some: "ready s \<Longrightarrow> pool s (p # ps) \<Longrightarrow>
        \<exists>t. alloc s = Ret p t \<and> ready t \<and> pool t ps \<and> usable t = usable s \<and> store t = store s"
    and free_page: "ready s \<Longrightarrow> pool s ps \<Longrightarrow> usable s v \<Longrightarrow> v \<notin> set ps \<Longrightarrow>
        \<exists>t. free v s = Ret () t \<and> ready t \<and> pool t (v # ps) \<and> usable t = usable s \<and>
            (\<forall>b. PGROUNDDOWN b \<noteq> v \<longrightarrow> store t b = store s b)"
    and pool_ok: "pool s ps \<Longrightarrow> distinct ps \<and> 0 \<notin> set ps \<and> (\<forall>p \<in> set ps. usable s p)"
begin

lemma alloc_returns:
  assumes "ready s" and "pool s ps"
  shows "\<exists>r t. alloc s = Ret r t \<and> ready t \<and> pool t (tl ps) \<and> usable t = usable s \<and>
     store t = store s \<and> (r = 0 \<longleftrightarrow> ps = []) \<and> (r \<noteq> 0 \<longrightarrow> usable s r \<and> r \<in> set ps \<and> r \<notin> set (tl ps))"
proof (cases ps)
  case Nil
  then show ?thesis using alloc_none assms by fastforce
next
  case (Cons p qs)
  then show ?thesis using alloc_some [of s p qs] pool_ok [of s ps] assms by fastforce
qed

lemma free_then_alloc:
  assumes "ready s" and "pool s ps" and "usable s v" and "v \<notin> set ps"
  shows "\<exists>t. thn (free v) alloc s = Ret v t \<and> pool t ps"
proof -
  obtain u where u: "free v s = Ret () u" "ready u" "pool u (v # ps)"
    using free_page [OF assms] by auto
  then obtain t where "alloc u = Ret v t" "pool t ps" using alloc_some by blast
  with u show ?thesis by (simp add: kop)
qed

lemma two_allocs_distinct:
  assumes "ready s" and "pool s (p # q # ps)"
  shows "\<exists>t u. alloc s = Ret p t \<and> alloc t = Ret q u \<and> p \<noteq> q \<and> p \<noteq> 0 \<and> q \<noteq> 0"
proof -
  obtain t where t: "alloc s = Ret p t" "ready t" "pool t (q # ps)"
    using alloc_some [OF assms] by auto
  moreover obtain u where "alloc t = Ret q u" using alloc_some [OF t(2,3)] by auto
  ultimately show ?thesis using pool_ok [OF assms(2)] by auto
qed

text \<open>Freeing a sequence of pages pushes them one by one.\<close>

lemma free_all_pool:
  assumes "ready s" and "pool s ps" and "\<forall>v \<in> set vs. usable s v" and "distinct vs"
    and "set vs \<inter> set ps = {}"
  shows "\<exists>t. kfor vs free s = Ret () t \<and> ready t \<and> pool t (rev vs @ ps) \<and> usable t = usable s"
  using assms
proof (induction vs arbitrary: s ps)
  case Nil
  then show ?case by (simp add: kop)
next
  case (Cons v vs)
  obtain u where u: "free v s = Ret () u" "ready u" "pool u (v # ps)" "usable u = usable s"
    using free_page [of s ps v] Cons.prems by auto
  moreover obtain t where "kfor vs free u = Ret () t" "ready t" "pool t (rev vs @ v # ps)"
      "usable t = usable u"
    using Cons.IH [of u "v # ps"] u Cons.prems by auto
  ultimately show ?case by (simp add: kop)
qed

end

interpretation kpool: page_pool kalloc kfree free_pages kmem_ready "\<lambda>s. page_ok (kend s)" mem
proof
  fix s :: "'a kmem_st_scheme" and ps and p v :: u32
  show "\<exists>t. kalloc s = Ret 0 t \<and> kmem_ready t \<and> free_pages t [] \<and>
      page_ok (kend t) = page_ok (kend s) \<and> mem t = mem s"
    if "kmem_ready s" "free_pages s []"
    using that by (auto simp: kalloc_ok free_pages_def)
  show "\<exists>t. kalloc s = Ret p t \<and> kmem_ready t \<and> free_pages t ps \<and>
      page_ok (kend t) = page_ok (kend s) \<and> mem t = mem s"
    if "kmem_ready s" "free_pages s (p # ps)"
    using that by (auto simp: kalloc_ok free_pages_def)
  show "\<exists>t. kfree v s = Ret () t \<and> kmem_ready t \<and> free_pages t (v # ps) \<and>
      page_ok (kend t) = page_ok (kend s) \<and> (\<forall>b. PGROUNDDOWN b \<noteq> v \<longrightarrow> mem t b = mem s b)"
    if "kmem_ready s" "free_pages s ps" "page_ok (kend s) v" "v \<notin> set ps"
    using that free_pages_kfree [of s ps v] by (auto simp: kfree_ok page_ok_def kfree_mem_other)
  show "distinct ps \<and> 0 \<notin> set ps \<and> (\<forall>p \<in> set ps. page_ok (kend s) p)" if "free_pages s ps"
    using that page_ok_nonzero by (auto simp: free_pages_def)
qed

text \<open>An allocator with its lock in use and two free pages.\<close>

definition kmem0 :: "'a \<Rightarrow> 'a kmem_st_scheme" where
  "kmem0 x = mach0 \<lparr>use_lock = True, freelist = 0x80400000,
     mem = store32 (store32 (\<lambda>_. 0) 0x80400000 0x80401000) 0x80401000 0,
     kend = 0x80114000, \<dots> = x\<rparr>"

lemma kmem0_fields [simp]:
  "use_lock (kmem0 x)" "freelist (kmem0 x) = 0x80400000" "kend (kmem0 x) = 0x80114000"
  by (simp_all add: kmem0_def mach0_def)

lemma kmem0_ready [simp]: "kmem_ready (kmem0 x)"
  by (simp add: kmem_ready_def) (simp add: kmem0_def)

lemma kmem0_free [simp]: "free_pages (kmem0 x) [0x80400000, 0x80401000]"
proof -
  have "mem (kmem0 x) = store32 (store32 (\<lambda>_. 0) 0x80400000 0x80401000) 0x80401000 0"
    by (simp add: kmem0_def mach0_def)
  then show ?thesis
    by (simp add: free_pages_def load32_store32 word_aligned_def page_ok_def page_aligned_def V2P_def)
qed

subsection \<open>What the allocator guarantees\<close>

text \<open>
  C7. kfree and kalloc implement a stack of pages: freeing a usable page that is not on the list
  pushes it, allocating then returns it and restores the list, and no byte outside the freed
  page changes.
\<close>

theorem kfree_kalloc_stack:
  assumes "kmem_ready s" and "free_pages s ps" and "page_ok (kend s) v" and "v \<notin> set ps"
  shows "\<exists>t u. kfree v s = Ret () t \<and> free_pages t (v # ps) \<and>
     (\<forall>b. PGROUNDDOWN b \<noteq> v \<longrightarrow> mem t b = mem s b) \<and> kalloc t = Ret v u \<and> free_pages u ps"
proof -
  obtain t where t: "kfree v s = Ret () t" "kmem_ready t" "free_pages t (v # ps)"
      "\<forall>b. PGROUNDDOWN b \<noteq> v \<longrightarrow> mem t b = mem s b"
    using kpool.free_page [OF assms] by auto
  moreover obtain u where "kalloc t = Ret v u" "free_pages u ps"
    using kpool.alloc_some [OF t(2,3)] by auto
  ultimately show ?thesis by blast
qed

theorem kfree_kalloc_stack_witness:
  "\<exists>t u. kfree 0x80500000 (kmem0 ()) = Ret () t \<and> kalloc t = Ret 0x80500000 u"
  using kfree_kalloc_stack [of "kmem0 ()" "[0x80400000, 0x80401000]" "0x80500000"]
  by (auto simp: page_ok_def page_aligned_def V2P_def)

text \<open>
  kalloc never fails with a panic and never hands out a page twice: it returns 0 exactly when
  no page is free, and otherwise a usable page that is no longer on the free list; memory is
  unchanged.
\<close>

lemma kalloc_exclusive:
  assumes "kmem_ready s" and "free_pages s ps"
  shows "\<exists>r t. kalloc s = Ret r t \<and> free_pages t (tl ps) \<and> mem t = mem s \<and> (r = 0 \<longleftrightarrow> ps = []) \<and>
     (r \<noteq> 0 \<longrightarrow> page_ok (kend s) r \<and> r \<notin> set (tl ps))"
  using kpool.alloc_returns [OF assms] by blast

lemma kalloc_exclusive_example:
  "\<exists>r t. kalloc (kmem0 ()) = Ret r t \<and> free_pages t [0x80401000] \<and> r \<noteq> 0"
  using kalloc_exclusive [of "kmem0 ()" "[0x80400000, 0x80401000]"] by auto

subsection \<open>freerange\<close>

definition page_seq :: "u32 \<Rightarrow> nat \<Rightarrow> u32 list" where
  "page_seq p n = map (\<lambda>i. p + of_nat (4096 * i)) [0..<n]"

lemma page_seq_Suc: "page_seq p (Suc n) = p # page_seq (p + PGSIZE) n"
  by (simp add: page_seq_def upt_conv_Cons map_Suc_upt [symmetric] algebra_simps del: upt_Suc)

lemma page_seq_0 [simp]: "page_seq p 0 = []"
  by (simp add: page_seq_def)

lemma unat_page_seq:
  "unat p + 4096 * n < 2 ^ 32 \<Longrightarrow> i < n \<Longrightarrow> unat ((p :: u32) + of_nat (4096 * i)) = unat p + 4096 * i"
  by (simp add: unat_word_ariths unat_of_nat)

lemma distinct_page_seq:
  assumes "unat p + 4096 * n < 2 ^ 32"
  shows "distinct (page_seq p n)"
proof -
  have "inj_on (\<lambda>i. p + of_nat (4096 * i)) {0..<n}"
  proof (rule inj_onI)
    fix i j assume "i \<in> {0..<n}" "j \<in> {0..<n}" "p + of_nat (4096 * i) = p + of_nat (4096 * j)"
    then show "i = j"
      using unat_page_seq [OF assms, of i] unat_page_seq [OF assms, of j] by simp
  qed
  then show ?thesis by (simp add: page_seq_def distinct_map)
qed

lemma freerange_from_seq:
  assumes "unat p + 4096 < 2 ^ 32" and "unat vend + 4096 < 2 ^ 32"
  shows "freerange_from p vend = kfor (page_seq p ((unat vend - unat p) div 4096)) kfree"
  using assms
proof (induction p vend rule: freerange_from.induct)
  case (1 p vend)
  have p1: "unat (p + PGSIZE) = unat p + 4096"
    using 1(2,3) by (simp add: unat_word_ariths)
  show ?case
  proof (cases "p + PGSIZE \<le> vend")
    case True
    have "p < p + PGSIZE" by (simp add: word_less_nat_alt p1)
    moreover have "(unat vend - unat p) div 4096 = Suc ((unat vend - unat (p + PGSIZE)) div 4096)"
      using True p1 by (simp add: word_le_nat_alt le_div_geq)
    ultimately show ?thesis
      using 1 True p1 by (simp add: freerange_from.simps [of p] page_seq_Suc word_le_nat_alt)
  next
    case False
    then have "(unat vend - unat p) div 4096 = 0" using p1 by (simp add: word_le_nat_alt)
    with False show ?thesis by (simp add: freerange_from.simps [of p])
  qed
qed

lemma page_seq_usable:
  assumes "page_aligned p" and "e \<le> p" and "KERNBASE \<le> e" and "vend \<le> P2V PHYSTOP"
    and "v \<in> set (page_seq p ((unat vend - unat p) div 4096))"
  shows "page_ok e v \<and> p \<le> v \<and> v < vend"
proof -
  obtain i where i: "i < (unat vend - unat p) div 4096" and v: "v = p + of_nat (4096 * i)"
    using assms(5) by (auto simp: page_seq_def)
  then have "4096 * Suc i \<le> unat vend - unat p" by (simp add: less_eq_div_iff_mult_less_eq Suc_le_eq [symmetric])
  moreover have "unat vend \<le> 0x8E000000"
    using assms(4) by (simp add: P2V_def word_le_nat_alt)
  ultimately have u: "unat v = unat p + 4096 * i" and less: "unat v + 4096 \<le> unat vend"
    unfolding v by (auto simp: unat_word_ariths unat_of_nat)
  have "page_aligned v" using assms(1) by (simp add: page_aligned_unat u)
  moreover have "unat (V2P v) = unat v - 0x80000000"
    using assms(2,3) u by (simp add: V2P_def unat_sub word_le_nat_alt)
  ultimately show ?thesis
    using assms(2) u less \<open>unat vend \<le> 0x8E000000\<close>
    by (auto simp: page_ok_def word_less_nat_alt word_le_nat_alt)
qed

text \<open>
  C8. freerange hands to the allocator exactly the whole pages of the range: the pages from the
  first page boundary at or after vstart, as many as fit below vend, each pushed once and in
  address order; it returns for every range between the end of the kernel and PHYSTOP.
\<close>

theorem freerange_frees_whole_pages:
  assumes "kmem_ready s" and "free_pages s ps" and "kend s \<le> vstart" and "vstart \<le> vend"
    and "vend \<le> P2V PHYSTOP" and "\<forall>p \<in> set ps. \<not> (vstart \<le> p \<and> p < vend)"
  shows "\<exists>t. freerange vstart vend s = Ret () t \<and>
     free_pages t (rev (page_seq (PGROUNDUP vstart) ((unat vend - unat (PGROUNDUP vstart)) div 4096)) @ ps)"
proof -
  define p where "p = PGROUNDUP vstart"
  define vs where "vs = page_seq p ((unat vend - unat p) div 4096)"
  have v: "unat vend \<le> 0x8E000000" and e: "KERNBASE \<le> kend s"
    using assms(2,5) by (simp_all add: P2V_def word_le_nat_alt free_pages_def)
  then have "unat vstart + 4095 < 2 ^ 32" using assms(4) by (simp add: word_le_nat_alt)
  then have u: "unat p = (unat vstart + 4095) div 4096 * 4096"
    by (simp add: p_def unat_PGROUNDUP)
  then have ge: "vstart \<le> p" and less: "unat p + 4096 < 2 ^ 32"
    using v assms(4) div_mult_mod_eq [of "unat vstart + 4095" 4096]
      mod_less_divisor [of 4096 "unat vstart + 4095"]
    by (auto simp: word_le_nat_alt simp del: mod_less_divisor div_mult_mod_eq)
  have "page_aligned p" by (simp add: page_aligned_unat u)
  then have ok: "page_ok (kend s) x \<and> vstart \<le> x \<and> x < vend" if "x \<in> set vs" for x
    using page_seq_usable [of p "kend s" vend x] that e assms(5) order.trans [OF assms(3) ge]
      order.trans [OF ge, of x] unfolding vs_def by auto
  have "distinct vs"
    unfolding vs_def using less v by (intro distinct_page_seq) auto
  moreover have "set vs \<inter> set ps = {}" using ok assms(6) by auto
  ultimately obtain t where "kfor vs kfree s = Ret () t" "free_pages t (rev vs @ ps)"
    using kpool.free_all_pool [OF assms(1,2), of vs] ok by auto
  then show ?thesis
    using less v by (auto simp: freerange_def freerange_from_seq vs_def p_def)
qed

theorem freerange_frees_whole_pages_witness:
  "\<exists>t. freerange 0x80500001 0x80503000 (kmem0 ()) = Ret () t \<and>
     free_pages t [0x80502000, 0x80501000, 0x80400000, 0x80401000]"
  using freerange_frees_whole_pages [of "kmem0 ()" "[0x80400000, 0x80401000]" "0x80500001" "0x80503000"]
  by (simp add: P2V_def PGROUNDUP_def page_seq_def upt_conv_Cons)

end
