(* ===== verification/Vm.thy ===== *)
theory Vm
  imports Kalloc
begin

section \<open>Page tables (vm.c)\<close>

text \<open>
  Extends the state with the kernel page directory, the linker symbol \<open>data\<close>, and the parts of
  the \<open>cpus\<close> array and of the processor that segmentation uses: the descriptor tables, the task
  state segments, their addresses and the task register. A page directory and a page table are
  named by the kernel virtual address of their page; entries are words in \<open>mem\<close>.
  \<open>loaduvm\<close>, which reads a file, is modelled with \<open>exec\<close>.
\<close>

subsection \<open>State\<close>

record taskst =
  ts_ss0 :: u16
  ts_esp0 :: u32
  ts_iomb :: u16

record vm_st = kmem_st +
  kpgdir :: u32
  kdata :: u32
  gdt :: "nat \<Rightarrow> nat \<Rightarrow> segdesc"
  ts :: "nat \<Rightarrow> taskst"
  ts_addr :: "nat \<Rightarrow> u32"
  r_gdt :: "nat \<Rightarrow> nat option"
  r_tr :: "nat \<Rightarrow> u32"

definition lcr3 :: "u32 \<Rightarrow> (unit, 'a mach_scheme) kop" where
  "lcr3 v = upd (\<lambda>s. s\<lparr>regs := (regs s)(cur s := (regs s (cur s))\<lparr>r_cr3 := v\<rparr>)\<rparr>)"

definition ld32 :: "u32 \<Rightarrow> (u32, 'a kmem_st_scheme) kop" where
  "ld32 a = gets (\<lambda>s. load32 (mem s) a)"

definition st32 :: "u32 \<Rightarrow> u32 \<Rightarrow> (unit, 'a kmem_st_scheme) kop" where
  "st32 a v = upd (\<lambda>s. s\<lparr>mem := store32 (mem s) a v\<rparr>)"

definition zero_page :: "u32 \<Rightarrow> (unit, 'a kmem_st_scheme) kop" where
  "zero_page p = upd (\<lambda>s. s\<lparr>mem := memset (mem s) p 0 PGSIZE\<rparr>)"

subsection \<open>Operations\<close>

definition set_gdt :: "nat \<Rightarrow> nat \<Rightarrow> segdesc \<Rightarrow> (unit, 'a vm_st_scheme) kop" where
  "set_gdt c i d = upd (\<lambda>s. s\<lparr>gdt := (gdt s)(c := (gdt s c)(i := d))\<rparr>)"

definition seginit :: "(unit, 'a vm_st_scheme) kop" where
  "seginit =
     bnd cpuid (\<lambda>c.
     thn (set_gdt c 1 (SEG (0x8 OR 0x2) 0 0xffffffff 0))
     (thn (set_gdt c 2 (SEG 0x2 0 0xffffffff 0))
     (thn (set_gdt c 3 (SEG (0x8 OR 0x2) 0 0xffffffff 3))
     (thn (set_gdt c 4 (SEG 0x2 0 0xffffffff 3))
     (upd (\<lambda>s. s\<lparr>r_gdt := (r_gdt s)(cur s := Some c)\<rparr>))))))"

definition walkpgdir :: "u32 \<Rightarrow> u32 \<Rightarrow> bool \<Rightarrow> (u32, 'a kmem_st_scheme) kop" where
  "walkpgdir pgdir va alloc =
     (let pde = pgdir + 4 * PDX va in
      bnd (ld32 pde) (\<lambda>e.
      if e AND PTE_P \<noteq> 0 then ret (P2V (PTE_ADDR e) + 4 * PTX va)
      else if \<not> alloc then ret 0
      else bnd kalloc (\<lambda>pgtab.
        if pgtab = 0 then ret 0 else
        thn (zero_page pgtab)
        (thn (st32 pde (V2P pgtab OR PTE_P OR PTE_W OR PTE_U))
        (ret (pgtab + 4 * PTX va))))))"

text \<open>
  The loop of \<open>mappages\<close> ends when \<open>a\<close> meets \<open>last\<close>. Both are page aligned, so that happens
  after exactly \<open>(last - a) / PGSIZE\<close> further turns (the difference taken modulo \<open>2 ^ 32\<close>); the
  first argument counts them down.
\<close>

fun mappages_from :: "nat \<Rightarrow> u32 \<Rightarrow> u32 \<Rightarrow> u32 \<Rightarrow> u32 \<Rightarrow> u32 \<Rightarrow> (int, 'a kmem_st_scheme) kop" where
  "mappages_from n pgdir a lst pa perm =
     bnd (walkpgdir pgdir a True) (\<lambda>pte.
     if pte = 0 then ret (-1) else
     bnd (ld32 pte) (\<lambda>e.
     if e AND PTE_P \<noteq> 0 then kpanic ''remap'' else
     thn (st32 pte (pa OR perm OR PTE_P))
     (if a = lst then ret 0
      else case n of
             0 \<Rightarrow> ret 0
           | Suc k \<Rightarrow> mappages_from k pgdir (a + PGSIZE) lst (pa + PGSIZE) perm)))"

declare mappages_from.simps [simp del]

definition mappages :: "u32 \<Rightarrow> u32 \<Rightarrow> u32 \<Rightarrow> u32 \<Rightarrow> u32 \<Rightarrow> (int, 'a kmem_st_scheme) kop" where
  "mappages pgdir va sz pa perm =
     (let a = PGROUNDDOWN va; lst = PGROUNDDOWN (va + sz - 1) in
      mappages_from (unat (lst - a) div 4096) pgdir a lst pa perm)"

text \<open>
  The loop of \<open>deallocuvm\<close>; its sum wraps only past the last page of the address space, and the
  callers stop at \<open>KERNBASE\<close>.
\<close>

function deallocuvm_from :: "u32 \<Rightarrow> u32 \<Rightarrow> u32 \<Rightarrow> (unit, 'a kmem_st_scheme) kop" where
  "deallocuvm_from pgdir a oldsz =
     (if a < oldsz then
        bnd (walkpgdir pgdir a False) (\<lambda>pte.
        if pte = 0 then
          (let a' = PGADDR (PDX a + 1) 0 0 - PGSIZE + PGSIZE in
           if a < a' then deallocuvm_from pgdir a' oldsz else ret ())
        else bnd (ld32 pte) (\<lambda>e.
          thn (kwhen (e AND PTE_P \<noteq> 0)
                (let pa = PTE_ADDR e in
                 if pa = 0 then kpanic ''kfree''
                 else thn (kfree (P2V pa)) (st32 pte 0)))
          (if a < a + PGSIZE then deallocuvm_from pgdir (a + PGSIZE) oldsz else ret ())))
      else ret ())"
  by auto
termination
  by (relation "measure (\<lambda>(pgdir, a, oldsz). 2 ^ 32 - unat a)") (auto intro: word_up_measure simp del: One_nat_def power_numeral)

declare deallocuvm_from.simps [simp del]

definition deallocuvm :: "u32 \<Rightarrow> u32 \<Rightarrow> u32 \<Rightarrow> (u32, 'a kmem_st_scheme) kop" where
  "deallocuvm pgdir oldsz newsz =
     (if newsz \<ge> oldsz then ret oldsz
      else thn (deallocuvm_from pgdir (PGROUNDUP newsz) oldsz) (ret newsz))"

text \<open>The loop body of \<open>freevm\<close> over the page-directory entries.\<close>

definition freevm_entry :: "u32 \<Rightarrow> nat \<Rightarrow> (unit, 'a kmem_st_scheme) kop" where
  "freevm_entry pgdir i =
     bnd (ld32 (pgdir + 4 * of_nat i)) (\<lambda>e.
     kwhen (e AND PTE_P \<noteq> 0) (kfree (P2V (PTE_ADDR e))))"

definition freevm :: "u32 \<Rightarrow> (unit, 'a kmem_st_scheme) kop" where
  "freevm pgdir =
     (if pgdir = 0 then kpanic ''freevm: no pgdir'' else
      thn (deallocuvm pgdir KERNBASE 0)
      (thn (kfor [0..<1024] (freevm_entry pgdir))
      (kfree pgdir)))"

text \<open>
  The error message of \<open>allocuvm\<close> is printed by \<open>cprintf\<close>, which changes no state modelled
  here. Its loop runs over the page boundaries from \<open>PGROUNDUP(oldsz)\<close> below \<open>newsz\<close>; there is no
  wrap because \<open>newsz\<close> is below \<open>KERNBASE\<close>.
\<close>

fun allocuvm_pages :: "u32 \<Rightarrow> u32 \<Rightarrow> u32 \<Rightarrow> u32 list \<Rightarrow> (u32, 'a kmem_st_scheme) kop" where
  "allocuvm_pages pgdir oldsz newsz [] = ret newsz"
| "allocuvm_pages pgdir oldsz newsz (a # rest) =
     bnd kalloc (\<lambda>p.
     if p = 0 then thn (deallocuvm pgdir newsz oldsz) (ret 0) else
     thn (zero_page p)
     (bnd (mappages pgdir a PGSIZE (V2P p) (PTE_W OR PTE_U)) (\<lambda>r.
     if r < 0 then thn (deallocuvm pgdir newsz oldsz) (thn (kfree p) (ret 0))
     else allocuvm_pages pgdir oldsz newsz rest)))"

text \<open>The turns of a loop \<open>for(; a < lim; a += PGSIZE)\<close> that does not wrap.\<close>

definition pg_range :: "u32 \<Rightarrow> u32 \<Rightarrow> u32 list" where
  "pg_range a lim = page_seq a ((unat lim - unat a + 4095) div 4096)"

definition allocuvm :: "u32 \<Rightarrow> u32 \<Rightarrow> u32 \<Rightarrow> (u32, 'a kmem_st_scheme) kop" where
  "allocuvm pgdir oldsz newsz =
     (if newsz \<ge> KERNBASE then ret 0
      else if newsz < oldsz then ret oldsz
      else allocuvm_pages pgdir oldsz newsz (pg_range (PGROUNDUP oldsz) newsz))"

record kmap =
  km_virt :: u32
  km_phys_start :: u32
  km_phys_end :: u32
  km_perm :: u32

definition kmap_table :: "u32 \<Rightarrow> kmap list" where
  "kmap_table d =
     [\<lparr>km_virt = KERNBASE, km_phys_start = 0, km_phys_end = EXTMEM, km_perm = PTE_W\<rparr>,
      \<lparr>km_virt = KERNLINK, km_phys_start = V2P KERNLINK, km_phys_end = V2P d, km_perm = 0\<rparr>,
      \<lparr>km_virt = d, km_phys_start = V2P d, km_phys_end = PHYSTOP, km_perm = PTE_W\<rparr>,
      \<lparr>km_virt = DEVSPACE, km_phys_start = DEVSPACE, km_phys_end = 0, km_perm = PTE_W\<rparr>]"

fun setupkvm_loop :: "u32 \<Rightarrow> kmap list \<Rightarrow> (u32, 'a kmem_st_scheme) kop" where
  "setupkvm_loop pgdir [] = ret pgdir"
| "setupkvm_loop pgdir (k # ks) =
     bnd (mappages pgdir (km_virt k) (km_phys_end k - km_phys_start k) (km_phys_start k) (km_perm k)) (\<lambda>r.
     if r < 0 then thn (freevm pgdir) (ret 0) else setupkvm_loop pgdir ks)"

definition setupkvm :: "(u32, 'a vm_st_scheme) kop" where
  "setupkvm =
     bnd kalloc (\<lambda>pgdir.
     if pgdir = 0 then ret 0 else
     thn (zero_page pgdir)
     (if P2V PHYSTOP > DEVSPACE then kpanic ''PHYSTOP too high'' else
      bnd (gets kdata) (\<lambda>d. setupkvm_loop pgdir (kmap_table d))))"

definition switchkvm :: "(unit, 'a vm_st_scheme) kop" where
  "switchkvm = bnd (gets kpgdir) (\<lambda>d. lcr3 (V2P d))"

definition kvmalloc :: "(unit, 'a vm_st_scheme) kop" where
  "kvmalloc = bnd setupkvm (\<lambda>d. thn (upd (\<lambda>s. s\<lparr>kpgdir := d\<rparr>)) switchkvm)"

text \<open>
  \<open>switchuvm\<close> of a process with the given kernel stack and page directory; \<open>None\<close> is the null
  process pointer. The task state segment is 104 bytes long.
\<close>

definition switchuvm :: "(u32 \<times> u32) option \<Rightarrow> (unit, 'a vm_st_scheme) kop" where
  "switchuvm p =
     (case p of
        None \<Rightarrow> kpanic ''switchuvm: no process''
      | Some (kstack, pgdir) \<Rightarrow>
          if kstack = 0 then kpanic ''switchuvm: no kstack''
          else if pgdir = 0 then kpanic ''switchuvm: no pgdir''
          else
            thn pushcli
            (bnd mycpu (\<lambda>c.
            bnd (gets ts_addr) (\<lambda>ta.
            thn (set_gdt c 5 ((SEG16 STS_T32A (ta c) (104 - 1) 0)\<lparr>sd_s := 0\<rparr>))
            (thn (upd (\<lambda>s. s\<lparr>ts := (ts s)(c :=
                \<lparr>ts_ss0 = push_bit 3 2, ts_esp0 = kstack + 4096, ts_iomb = 0xFFFF\<rparr>)\<rparr>))
            (thn (upd (\<lambda>s. s\<lparr>r_tr := (r_tr s)(cur s := push_bit 3 5)\<rparr>))
            (thn (lcr3 (V2P pgdir))
            popcli)))))))"

definition inituvm :: "u32 \<Rightarrow> u32 \<Rightarrow> u32 \<Rightarrow> (unit, 'a kmem_st_scheme) kop" where
  "inituvm pgdir init sz =
     (if sz \<ge> PGSIZE then kpanic ''inituvm: more than a page'' else
      bnd kalloc (\<lambda>p.
      thn (zero_page p)
      (bnd (mappages pgdir 0 PGSIZE (V2P p) (PTE_W OR PTE_U)) (\<lambda>_.
      upd (\<lambda>s. s\<lparr>mem := memmove (mem s) p init sz\<rparr>)))))"

definition clearpteu :: "u32 \<Rightarrow> u32 \<Rightarrow> (unit, 'a kmem_st_scheme) kop" where
  "clearpteu pgdir uva =
     bnd (walkpgdir pgdir uva False) (\<lambda>pte.
     if pte = 0 then kpanic ''clearpteu'' else
     bnd (ld32 pte) (\<lambda>e. st32 pte (e AND NOT PTE_U)))"

text \<open>The pages of \<open>copyuvm\<close>; a failed step goes to the label \<open>bad\<close>.\<close>

definition copyuvm_bad :: "u32 \<Rightarrow> (u32, 'a kmem_st_scheme) kop" where
  "copyuvm_bad d = thn (freevm d) (ret 0)"

fun copyuvm_pages :: "u32 \<Rightarrow> u32 \<Rightarrow> u32 list \<Rightarrow> (u32, 'a kmem_st_scheme) kop" where
  "copyuvm_pages d pgdir [] = ret d"
| "copyuvm_pages d pgdir (i # rest) =
     bnd (walkpgdir pgdir i False) (\<lambda>pte.
     if pte = 0 then kpanic ''copyuvm: pte should exist'' else
     bnd (ld32 pte) (\<lambda>e.
     if e AND PTE_P = 0 then kpanic ''copyuvm: page not present'' else
     (let pa = PTE_ADDR e; flags = PTE_FLAGS e in
      bnd kalloc (\<lambda>p.
      if p = 0 then copyuvm_bad d else
      thn (upd (\<lambda>s. s\<lparr>mem := memmove (mem s) p (P2V pa) PGSIZE\<rparr>))
      (bnd (mappages d i PGSIZE (V2P p) flags) (\<lambda>r.
      if r < 0 then thn (kfree p) (copyuvm_bad d)
      else copyuvm_pages d pgdir rest))))))"

definition copyuvm :: "u32 \<Rightarrow> u32 \<Rightarrow> (u32, 'a vm_st_scheme) kop" where
  "copyuvm pgdir sz =
     bnd setupkvm (\<lambda>d.
     if d = 0 then ret 0 else copyuvm_pages d pgdir (pg_range 0 sz))"

text \<open>
  The present entry that translates \<open>va\<close>, by a walk of the two levels as the processor does it.
\<close>

definition pde_of :: "bytemem \<Rightarrow> u32 \<Rightarrow> u32 \<Rightarrow> u32" where
  "pde_of m pgdir i = load32 m (pgdir + 4 * i)"

definition table_of :: "bytemem \<Rightarrow> u32 \<Rightarrow> u32 \<Rightarrow> u32" where
  "table_of m pgdir i = P2V (PTE_ADDR (pde_of m pgdir i))"

definition present :: "u32 \<Rightarrow> bool" where
  "present e \<longleftrightarrow> e AND PTE_P \<noteq> 0"

definition translate :: "bytemem \<Rightarrow> u32 \<Rightarrow> u32 \<Rightarrow> u32 option" where
  "translate m pgdir va =
     (if present (pde_of m pgdir (PDX va)) then
        let e = load32 m (table_of m pgdir (PDX va) + 4 * PTX va) in
        if present e then Some e else None
      else None)"

text \<open>
  \<open>uva2ka\<close> does not test the pointer \<open>walkpgdir\<close> returns. When it is null, the processor reads
  the word at address 0 of the current address space, or takes a page fault in kernel mode.
\<close>

definition load_null :: "(u32, 'a kmem_st_scheme) kop" where
  "load_null s =
     (case translate (mem s) (P2V (r_cr3 (regs s (cur s)))) 0 of
        Some e \<Rightarrow> Ret (load32 (mem s) (P2V (PTE_ADDR e))) s
      | None \<Rightarrow> Panic ''trap'')"

definition uva2ka :: "u32 \<Rightarrow> u32 \<Rightarrow> (u32, 'a kmem_st_scheme) kop" where
  "uva2ka pgdir uva =
     bnd (walkpgdir pgdir uva False) (\<lambda>pte.
     bnd (if pte = 0 then load_null else ld32 pte) (\<lambda>e.
     if e AND PTE_P = 0 then ret 0
     else if e AND PTE_U = 0 then ret 0
     else ret (P2V (PTE_ADDR e))))"

text \<open>
  \<open>copyout\<close> of the bytes at kernel address \<open>buf\<close>. The number of turns is bounded by the pages the
  destination touches: each turn but the last ends on a page boundary.
\<close>

function copyout :: "u32 \<Rightarrow> u32 \<Rightarrow> u32 \<Rightarrow> u32 \<Rightarrow> (int, 'a kmem_st_scheme) kop" where
  "copyout pgdir va buf len =
     (if len > 0 then
        (let va0 = PGROUNDDOWN va in
         bnd (uva2ka pgdir va0) (\<lambda>pa0.
         if pa0 = 0 then ret (-1) else
         (let n0 = PGSIZE - (va - va0); n = (if n0 > len then len else n0) in
          thn (upd (\<lambda>s. s\<lparr>mem := memmove (mem s) (pa0 + (va - va0)) buf n\<rparr>))
          (copyout pgdir (va0 + PGSIZE) (buf + n) (len - n)))))
      else ret 0)"
  by auto
termination
proof (relation "measure (\<lambda>(pgdir, va, buf, len). unat len)")
  fix pgdir va buf len va0 n0 n :: u32
  assume "len > 0" and va0: "va0 = PGROUNDDOWN va" and n0: "n0 = PGSIZE - (va - va0)"
    and n: "n = (if n0 > len then len else n0)"
  have "va - va0 < PGSIZE" by (simp add: va0 in_page_iff)
  then have "n0 > 0" by (auto simp: n0 word_less_nat_alt unat_sub word_le_nat_alt)
  then have "0 < n" and "n \<le> len" using \<open>len > 0\<close> by (auto simp: n)
  then show "((pgdir, va0 + PGSIZE, buf + n, len - n), (pgdir, va, buf, len))
      \<in> measure (\<lambda>(pgdir, va, buf, len). unat len)"
    by (auto simp: unat_sub word_less_nat_alt word_le_nat_alt)
qed simp

declare copyout.simps [simp del]

subsection \<open>Entries of a table\<close>

lemma present_or [simp]: "present (e OR perm OR PTE_P)"
proof -
  have "bit ((e OR perm OR PTE_P) AND PTE_P) 0" by (simp add: bit_simps)
  then show ?thesis by (metis present_def bit_0_eq bot_apply bot_bool_def)
qed

lemma PDX_less: "PDX va < 1024"
proof -
  have "unat va div 2 ^ 22 < 1024"
    using unat_u32_less [of va] by (simp add: div_less_iff_less_mult)
  then show ?thesis by (simp add: word_less_nat_alt unat_PDX)
qed

lemma PTX_less: "PTX va < 1024"
  by (simp add: word_less_nat_alt unat_PTX)

lemma entry_off: "i < 1024 \<Longrightarrow> unat (4 * i :: u32) = 4 * unat i"
  by (simp add: unat_word_ariths word_less_nat_alt)

lemma entry_page:
  assumes "page_aligned d" and "i < 1024"
  shows "PGROUNDDOWN (d + 4 * i) = d"
  using assms by (intro PGROUNDDOWN_add) (simp_all add: word_less_nat_alt entry_off)

lemma entry_word:
  assumes "page_aligned d" and "i < 1024"
  shows "word_aligned (d + 4 * i)"
proof -
  have "4 * i < PGSIZE" using assms(2) by (simp add: word_less_nat_alt entry_off)
  then have "unat (d + 4 * i) = unat d + 4 * unat i"
    using assms by (simp add: unat_page_aligned_add entry_off)
  moreover have "unat d mod 4 = 0" using assms(1) word_aligned_page by (simp add: word_aligned_def)
  ultimately show ?thesis by (simp add: word_aligned_def)
qed

lemma entry_inj:
  assumes "i < 1024" and "j < 1024"
  shows "(d :: u32) + 4 * i = d + 4 * j \<longleftrightarrow> i = j"
proof -
  have "4 * i = 4 * j \<longleftrightarrow> i = j"
    using assms by (simp add: word_unat_eq_iff entry_off)
  then show ?thesis by simp
qed

lemma entry_nonzero: "page_aligned d \<Longrightarrow> d \<noteq> 0 \<Longrightarrow> i < 1024 \<Longrightarrow> d + 4 * i \<noteq> 0"
  using entry_page [of d i] by (auto simp: PGROUNDDOWN_def)

lemma page_index:
  "PGROUNDDOWN a = PGROUNDDOWN b \<longleftrightarrow> PDX a = PDX b \<and> PTX a = PTX b"
proof -
  have "x = y \<longleftrightarrow> x div 1024 = y div 1024 \<and> x mod 1024 = y mod 1024" for x y :: nat
    by (metis div_mult_mod_eq)
  from this [of "unat a div 4096" "unat b div 4096"] show ?thesis
    by (simp add: word_unat_eq_iff unat_PGROUNDDOWN minus_mod_eq_div_mult unat_PDX unat_PTX
        div_mult2_eq [symmetric])
qed

lemma page_aligned_P2V [simp]: "page_aligned (P2V a) = page_aligned a"
proof -
  have "unat (P2V a) mod 4096 = (unat a + 524288 * 4096) mod 4294967296 mod 4096"
    by (simp add: P2V_def unat_word_ariths)
  also have "\<dots> = unat a mod 4096"
    by (subst mod_mod_cancel) (simp_all only: mod_mult_self1, simp)
  finally show ?thesis by (simp add: page_aligned_unat)
qed

lemma P2V_V2P [simp]: "P2V (V2P a) = a" "V2P (P2V a) = a"
  by (simp_all add: P2V_def V2P_def)

lemma page_aligned_V2P [simp]: "page_aligned (V2P a) = page_aligned a"
  using page_aligned_P2V [of "V2P a"] by simp

lemma page_aligned_PTE_ADDR [simp]: "page_aligned (PTE_ADDR e)"
  by (simp add: PTE_ADDR_eq)

lemma page_aligned_table_of [simp]: "page_aligned (table_of m pgdir i)"
  by (simp add: table_of_def)

subsection \<open>Well-formed page directories\<close>

text \<open>
  \<open>pt_wf m pgdir ps\<close>: the page tables below \<open>pgdir\<close> are distinct pages, different from the
  directory, and none of them is on the free list \<open>ps\<close>.
\<close>

definition pt_wf :: "bytemem \<Rightarrow> u32 \<Rightarrow> u32 list \<Rightarrow> bool" where
  "pt_wf m pgdir ps \<longleftrightarrow> page_aligned pgdir \<and> pgdir \<notin> set ps \<and>
     (\<forall>i < 1024. present (pde_of m pgdir i) \<longrightarrow>
        table_of m pgdir i \<noteq> pgdir \<and> table_of m pgdir i \<noteq> 0 \<and> table_of m pgdir i \<notin> set ps \<and>
        (\<forall>j < 1024. present (pde_of m pgdir j) \<and> table_of m pgdir j = table_of m pgdir i \<longrightarrow> j = i))"

lemma pde_of_cong:
  assumes "page_aligned pgdir" and "i < 1024" and "\<And>b. PGROUNDDOWN b = pgdir \<Longrightarrow> m b = m' b"
  shows "pde_of m pgdir i = pde_of m' pgdir i"
  unfolding pde_of_def
  by (rule load32_page_cong) (use assms entry_page entry_word in auto)

lemma pde_of_store_entry:
  assumes "pt_wf m pgdir ps" and "present (pde_of m pgdir i)" and "i < 1024" and "j < 1024" and "k < 1024"
  shows "pde_of (store32 m (table_of m pgdir i + 4 * k) e) pgdir j = pde_of m pgdir j"
proof (rule pde_of_cong)
  show "page_aligned pgdir" using assms(1) by (simp add: pt_wf_def)
  fix b assume "PGROUNDDOWN b = pgdir"
  moreover have "table_of m pgdir i \<noteq> pgdir" using assms by (auto simp: pt_wf_def)
  ultimately show "store32 m (table_of m pgdir i + 4 * k) e b = m b"
    using assms by (intro store32_other_page) (auto simp: entry_word entry_page)
qed fact

lemma pt_wf_store_entry:
  assumes "pt_wf m pgdir ps" and "present (pde_of m pgdir i)" and "i < 1024" and "k < 1024"
  shows "pt_wf (store32 m (table_of m pgdir i + 4 * k) e) pgdir ps"
proof -
  let ?m = "store32 m (table_of m pgdir i + 4 * k) e"
  have "pde_of ?m pgdir j = pde_of m pgdir j" if "j < 1024" for j
    using assms that by (intro pde_of_store_entry)
  then show ?thesis using assms(1) unfolding pt_wf_def table_of_def by simp
qed

text \<open>Storing an entry changes the translation of one page and of no other.\<close>

lemma translate_store_entry:
  assumes wf: "pt_wf m pgdir ps" and pr: "present (pde_of m pgdir (PDX a))"
  shows "translate (store32 m (table_of m pgdir (PDX a) + 4 * PTX a) e) pgdir va =
     (if PGROUNDDOWN va = PGROUNDDOWN a then (if present e then Some e else None)
      else translate m pgdir va)"
proof -
  let ?x = "table_of m pgdir (PDX a) + 4 * PTX a"
  have pde: "pde_of (store32 m ?x e) pgdir (PDX va) = pde_of m pgdir (PDX va)"
    using assms by (intro pde_of_store_entry) (auto simp: PDX_less PTX_less)
  then have tab: "table_of (store32 m ?x e) pgdir (PDX va) = table_of m pgdir (PDX va)"
    by (simp add: table_of_def)
  have "load32 (store32 m ?x e) (table_of m pgdir (PDX va) + 4 * PTX va) =
      (if PGROUNDDOWN va = PGROUNDDOWN a then e else load32 m (table_of m pgdir (PDX va) + 4 * PTX va))"
    if "present (pde_of m pgdir (PDX va))"
  proof -
    have "?x = table_of m pgdir (PDX va) + 4 * PTX va \<longleftrightarrow> PGROUNDDOWN va = PGROUNDDOWN a"
    proof
      assume eq: "?x = table_of m pgdir (PDX va) + 4 * PTX va"
      then have "table_of m pgdir (PDX a) = table_of m pgdir (PDX va)"
        using entry_page [of _ "PTX a"] entry_page [of _ "PTX va"]
        by (metis PTX_less page_aligned_table_of)
      moreover from this have "PDX a = PDX va"
        using wf pr that by (auto simp: pt_wf_def PDX_less)
      ultimately show "PGROUNDDOWN va = PGROUNDDOWN a"
        using eq entry_inj [OF PTX_less PTX_less, of 0 a va] by (simp add: page_index)
    qed (simp add: page_index)
    then show ?thesis by (simp add: load32_store32 entry_word PTX_less)
  qed
  moreover have "PGROUNDDOWN va \<noteq> PGROUNDDOWN a" if "\<not> present (pde_of m pgdir (PDX va))"
    using pr that by (auto simp: page_index)
  ultimately show ?thesis
    unfolding translate_def pde tab Let_def by simp
qed

subsection \<open>walkpgdir\<close>

lemma walkpgdir_present:
  assumes "present (pde_of (mem s) pgdir (PDX va))"
  shows "walkpgdir pgdir va alloc s = Ret (table_of (mem s) pgdir (PDX va) + 4 * PTX va) s"
  using assms by (simp add: walkpgdir_def Let_def kop ld32_def pde_of_def table_of_def present_def)

lemma walkpgdir_absent:
  assumes "\<not> present (pde_of (mem s) pgdir (PDX va))"
  shows "walkpgdir pgdir va False s = Ret 0 s"
  using assms by (simp add: walkpgdir_def Let_def kop ld32_def pde_of_def present_def)

lemma walkpgdir_fails:
  assumes "\<not> present (pde_of (mem s) pgdir (PDX va))" and "kmem_ready s" and "free_pages s []"
  shows "\<exists>t. walkpgdir pgdir va True s = Ret 0 t \<and> kmem_ready t \<and> free_pages t [] \<and> mem t = mem s"
proof -
  obtain t where "kalloc s = Ret 0 t" "kmem_ready t" "free_pages t []" "mem t = mem s"
    using kpool.alloc_none [OF assms(2,3)] by auto
  then show ?thesis
    using assms(1) by (simp add: walkpgdir_def Let_def kop ld32_def pde_of_def present_def)
qed

definition new_table :: "bytemem \<Rightarrow> u32 \<Rightarrow> u32 \<Rightarrow> u32 \<Rightarrow> bytemem" where
  "new_table m pgdir va q =
     store32 (memset m q 0 PGSIZE) (pgdir + 4 * PDX va) (V2P q OR PTE_P OR PTE_W OR PTE_U)"

lemma free_pages_other_mem:
  assumes "free_pages s ps" and "\<And>b. PGROUNDDOWN b \<in> set ps \<Longrightarrow> m b = mem s b"
  shows "free_pages (s\<lparr>mem := m\<rparr>) ps"
proof -
  have "load32 m p = load32 (mem s) p" if "p \<in> set ps" for p
  proof -
    have "page_aligned p" using assms(1) that by (simp add: free_pages_def page_ok_def)
    then show ?thesis using assms(2) that by (intro load32_page_cong) (auto simp: word_aligned_page)
  qed
  then have "flist m (freelist s) ps = flist (mem s) (freelist s) ps"
    by (rule flist_cong)
  with assms(1) show ?thesis by (simp add: free_pages_def)
qed

lemma new_table_other:
  assumes "page_aligned pgdir" and "page_aligned q" and "PGROUNDDOWN b \<noteq> pgdir" and "PGROUNDDOWN b \<noteq> q"
  shows "new_table m pgdir va q b = m b"
  using assms unfolding new_table_def
  by (simp add: store32_other_page entry_word entry_page PDX_less memset_page)

lemma walkpgdir_allocates:
  assumes "\<not> present (pde_of (mem s) pgdir (PDX va))" and "kmem_ready s" and "free_pages s (q # ps)"
    and "page_aligned pgdir" and "pgdir \<notin> set (q # ps)"
  shows "\<exists>t. walkpgdir pgdir va True s = Ret (q + 4 * PTX va) t \<and> kmem_ready t \<and> free_pages t ps \<and>
     mem t = new_table (mem s) pgdir va q"
proof -
  obtain u where u: "kalloc s = Ret q u" "kmem_ready u" "free_pages u ps" "mem u = mem s"
    using kpool.alloc_some [OF assms(2,3)] by auto
  have q: "q \<noteq> 0" "page_aligned q" "q \<notin> set ps"
    using assms(3) page_ok_nonzero by (auto simp: free_pages_def page_ok_def)
  have "walkpgdir pgdir va True s =
      Ret (q + 4 * PTX va) (u\<lparr>mem := new_table (mem s) pgdir va q\<rparr>)"
    using assms(1) u q by (simp add: walkpgdir_def Let_def kop ld32_def st32_def zero_page_def
        pde_of_def present_def new_table_def)
  moreover have "free_pages (u\<lparr>mem := new_table (mem s) pgdir va q\<rparr>) ps"
    using u q assms(4,5) by (intro free_pages_other_mem) (auto intro!: new_table_other)
  ultimately show ?thesis using u by simp
qed

lemma new_table_pde:
  assumes "page_aligned pgdir" and "page_aligned q" and "q \<noteq> pgdir" and "i < 1024"
  shows "pde_of (new_table m pgdir va q) pgdir i =
     (if i = PDX va then V2P q OR PTE_P OR PTE_W OR PTE_U else pde_of m pgdir i)"
proof -
  have "load32 (memset m q 0 PGSIZE) (pgdir + 4 * i) = load32 m (pgdir + 4 * i)"
    by (rule load32_page_cong) (use assms in \<open>auto simp: entry_word entry_page memset_page\<close>)
  then show ?thesis
    using assms entry_inj [OF PDX_less assms(4), of pgdir va]
    by (auto simp: pde_of_def new_table_def load32_store32 entry_word PDX_less)
qed

lemma new_table_entries:
  assumes "page_aligned pgdir" and "page_aligned q" and "q \<noteq> pgdir" and "i < 1024"
  shows "load32 (new_table m pgdir va q) (q + 4 * i) = 0"
proof -
  have "load32 (new_table m pgdir va q) (q + 4 * i) = load32 (\<lambda>_. 0) (q + 4 * i)"
    using assms by (intro load32_page_cong)
      (auto simp: new_table_def entry_word entry_page store32_other_page PDX_less memset_page)
  also have "\<dots> = 0" by (simp add: load32_def)
  finally show ?thesis .
qed

lemma new_pde [simp]:
  "page_aligned q \<Longrightarrow> PTE_ADDR (V2P q OR 7) = V2P q" "present (V2P q OR 7)"
  using PTE_or [of "V2P q" 7] present_or [of "V2P q" 6] by simp_all

lemma pt_wf_new_table:
  assumes wf: "pt_wf m pgdir (q # ps)" and q: "page_aligned q" "q \<noteq> 0" "q \<notin> set ps"
    and absent: "\<not> present (pde_of m pgdir (PDX va))"
  shows "pt_wf (new_table m pgdir va q) pgdir ps"
    and "table_of (new_table m pgdir va q) pgdir (PDX va) = q"
    and "present (pde_of (new_table m pgdir va q) pgdir (PDX va))"
proof -
  have d: "page_aligned pgdir" "q \<noteq> pgdir" "pgdir \<notin> set ps" using wf by (auto simp: pt_wf_def)
  note pde = new_table_pde [OF d(1) q(1) d(2), of _ m va]
  have tab: "table_of (new_table m pgdir va q) pgdir i = (if i = PDX va then q else table_of m pgdir i)"
    if "i < 1024" for i
    using that q(1) by (simp add: table_of_def pde)
  show "table_of (new_table m pgdir va q) pgdir (PDX va) = q"
    by (simp add: tab PDX_less)
  show "present (pde_of (new_table m pgdir va q) pgdir (PDX va))"
    by (simp add: pde PDX_less)
  show "pt_wf (new_table m pgdir va q) pgdir ps"
    unfolding pt_wf_def using wf q d
    by (auto simp: pde tab pt_wf_def split: if_splits)
qed

lemma translate_new_table:
  assumes wf: "pt_wf m pgdir (q # ps)" and q: "page_aligned q" "q \<noteq> 0" "q \<notin> set ps"
    and absent: "\<not> present (pde_of m pgdir (PDX va))"
  shows "translate (new_table m pgdir va q) pgdir = translate m pgdir"
proof
  fix b
  have d: "page_aligned pgdir" "q \<noteq> pgdir" using wf by (auto simp: pt_wf_def)
  note pde = new_table_pde [OF d(1) q(1) d(2) PDX_less, of m va]
  show "translate (new_table m pgdir va q) pgdir b = translate m pgdir b"
  proof (cases "PDX b = PDX va")
    case True
    then show ?thesis
      using absent d q new_table_entries [OF d(1) q(1) d(2) PTX_less, of m va b]
        pt_wf_new_table(2) [OF assms]
      by (simp add: translate_def Let_def present_def)
  next
    case False
    have "load32 (new_table m pgdir va q) (table_of m pgdir (PDX b) + 4 * PTX b) =
        load32 m (table_of m pgdir (PDX b) + 4 * PTX b)" if "present (pde_of m pgdir (PDX b))"
      using that wf d q
      by (intro load32_page_cong new_table_other) (auto simp: entry_word entry_page PTX_less PDX_less pt_wf_def)
    then show ?thesis
      using False by (simp add: translate_def Let_def pde table_of_def)
  qed
qed

text \<open>\<open>walkpgdir\<close> with \<open>alloc\<close> set, whether it finds a page table or makes one.\<close>

lemma walkpgdir_ok:
  assumes "kmem_ready s" and "free_pages s ps" and "pt_wf (mem s) pgdir ps"
    and "present (pde_of (mem s) pgdir (PDX va)) \<or> ps \<noteq> []"
  shows "\<exists>t qs. walkpgdir pgdir va True s = Ret (table_of (mem t) pgdir (PDX va) + 4 * PTX va) t \<and>
     kmem_ready t \<and> free_pages t qs \<and> pt_wf (mem t) pgdir qs \<and> set qs \<subseteq> set ps \<and>
     present (pde_of (mem t) pgdir (PDX va)) \<and> translate (mem t) pgdir = translate (mem s) pgdir"
proof (cases "present (pde_of (mem s) pgdir (PDX va))")
  case True
  then show ?thesis using assms by (auto simp: walkpgdir_present)
next
  case False
  then obtain q qs where ps: "ps = q # qs" using assms(4) by (cases ps) auto
  have q: "page_aligned q" "q \<noteq> 0" "q \<notin> set qs" and d: "page_aligned pgdir" "pgdir \<notin> set ps"
    using assms(2,3) kpool.pool_ok [OF assms(2)] ps by (auto simp: free_pages_def page_ok_def pt_wf_def)
  obtain t where "walkpgdir pgdir va True s = Ret (q + 4 * PTX va) t" "kmem_ready t"
      "free_pages t qs" "mem t = new_table (mem s) pgdir va q"
    using walkpgdir_allocates [OF False assms(1)] assms(2) d ps by auto
  then show ?thesis
    using pt_wf_new_table [OF _ q False] translate_new_table [OF _ q False] assms(3) ps
    by (intro exI [of _ t] exI [of _ qs]) auto
qed

subsection \<open>mappages\<close>

lemma mappages_step:
  assumes "kmem_ready s" and "free_pages s ps" and "pt_wf (mem s) pgdir ps"
    and "present (pde_of (mem s) pgdir (PDX a)) \<or> ps \<noteq> []" and "translate (mem s) pgdir a = None"
  shows "\<exists>t qs. kmem_ready t \<and> free_pages t qs \<and> pt_wf (mem t) pgdir qs \<and> set qs \<subseteq> set ps \<and>
     (\<forall>va. translate (mem t) pgdir va =
        (if PGROUNDDOWN va = PGROUNDDOWN a then Some (pa OR perm OR PTE_P) else translate (mem s) pgdir va)) \<and>
     mappages_from n pgdir a lst pa perm s =
       (if a = lst then ret 0 else case n of 0 \<Rightarrow> ret 0
        | Suc k \<Rightarrow> mappages_from k pgdir (a + PGSIZE) lst (pa + PGSIZE) perm) t"
proof -
  obtain u qs where u: "walkpgdir pgdir a True s = Ret (table_of (mem u) pgdir (PDX a) + 4 * PTX a) u"
      "kmem_ready u" "free_pages u qs" "pt_wf (mem u) pgdir qs" "set qs \<subseteq> set ps"
      "present (pde_of (mem u) pgdir (PDX a))" "translate (mem u) pgdir = translate (mem s) pgdir"
    using walkpgdir_ok [OF assms(1-4)] by auto
  define x where "x = table_of (mem u) pgdir (PDX a) + 4 * PTX a"
  define t where "t = u\<lparr>mem := store32 (mem u) x (pa OR perm OR PTE_P)\<rparr>"
  have tab: "table_of (mem u) pgdir (PDX a) \<noteq> 0" "table_of (mem u) pgdir (PDX a) \<notin> set qs"
    using u(4,6) PDX_less [of a] by (auto simp: pt_wf_def)
  then have x0: "x \<noteq> 0" unfolding x_def by (intro entry_nonzero) (simp_all add: PTX_less)
  have "\<not> present (load32 (mem u) x)"
    using assms(5) u(6) u(7) [THEN fun_cong, of a] by (auto simp: translate_def x_def Let_def split: if_splits)
  then have run: "mappages_from n pgdir a lst pa perm s =
       (if a = lst then ret 0 else case n of 0 \<Rightarrow> ret 0
        | Suc k \<Rightarrow> mappages_from k pgdir (a + PGSIZE) lst (pa + PGSIZE) perm) t"
    using u(1) x0 by (simp add: mappages_from.simps [of n] kop x_def [symmetric] ld32_def st32_def
        present_def t_def)
  have "PGROUNDDOWN x = table_of (mem u) pgdir (PDX a)"
    by (simp add: x_def entry_page PTX_less)
  then have "free_pages t qs"
    unfolding t_def using u(3) tab
    by (intro free_pages_other_mem store32_other_page) (auto simp: x_def entry_word PTX_less)
  moreover have "pt_wf (mem t) pgdir qs"
    using u(4,6) by (simp add: t_def x_def pt_wf_store_entry PDX_less PTX_less)
  ultimately show ?thesis
    using u run by (intro exI [of _ t] exI [of _ qs])
      (simp add: translate_store_entry x_def t_def)
qed

lemma mappages_step_fails:
  assumes "kmem_ready s" and "free_pages s []" and "\<not> present (pde_of (mem s) pgdir (PDX a))"
  shows "\<exists>t. mappages_from n pgdir a lst pa perm s = Ret (-1) t \<and> kmem_ready t \<and> free_pages t [] \<and> mem t = mem s"
proof -
  obtain t where "walkpgdir pgdir a True s = Ret 0 t" "kmem_ready t" "free_pages t []" "mem t = mem s"
    using walkpgdir_fails [OF assms(3,1,2)] by auto
  then show ?thesis by (simp add: mappages_from.simps [of n] kop)
qed

lemma page_aligned_diff:
  assumes "page_aligned x" and "page_aligned y"
  shows "page_aligned (x - y)"
proof -
  obtain p q where "unat x = 4096 * p" and "unat y = 4096 * q"
    using assms by (auto simp: page_aligned_unat elim!: dvdE)
  then have "unat (x - y) = (if q \<le> p then 4096 * (p - q) else 4096 * (1048576 + p - q))"
    using unat_u32_less [of x] unat_u32_less [of y]
    by (auto simp: unat_sub_if_size word_size word_le_nat_alt)
  then show ?thesis by (simp add: page_aligned_unat split: if_splits)
qed

text \<open>The pages of a mapping, counted modulo \<open>2 ^ 32\<close> from its first page \<open>a\<close>.\<close>

definition in_mapping :: "u32 \<Rightarrow> nat \<Rightarrow> u32 \<Rightarrow> bool" where
  "in_mapping a n va \<longleftrightarrow> unat (PGROUNDDOWN va - a) \<le> 4096 * n"

lemma in_mapping_Suc:
  assumes "page_aligned a" and "4096 * Suc n < 2 ^ 32"
  shows "in_mapping a (Suc n) va \<longleftrightarrow> PGROUNDDOWN va = a \<or> in_mapping (a + PGSIZE) n va \<and> PGROUNDDOWN va \<noteq> a"
proof -
  define d where "d = PGROUNDDOWN va - a"
  have al: "unat d mod 4096 = 0"
    using page_aligned_diff [OF page_aligned_PGROUNDDOWN [of va] assms(1)]
    by (simp add: d_def page_aligned_unat)
  have e: "PGROUNDDOWN va - (a + PGSIZE) = d - PGSIZE" by (simp add: d_def)
  have "unat d \<le> 4096 * Suc n \<longleftrightarrow> d = 0 \<or> unat (d - PGSIZE) \<le> 4096 * n \<and> d \<noteq> 0"
  proof (cases "d = 0")
    case False
    then have "unat d \<noteq> 0" by (simp add: word_unat_eq_iff)
    with al have "PGSIZE \<le> d" by (auto simp: word_le_nat_alt dvd_imp_le mod_eq_0_iff_dvd)
    then have "unat (d - PGSIZE) = unat d - 4096" by (simp add: unat_sub)
    with False \<open>PGSIZE \<le> d\<close> show ?thesis by (auto simp: word_le_nat_alt)
  qed simp
  then show ?thesis by (simp add: in_mapping_def e d_def [symmetric]) (simp add: d_def)
qed

lemma in_mapping_0: "in_mapping a 0 va \<longleftrightarrow> PGROUNDDOWN va = a"
  by (simp add: in_mapping_def unsigned_eq_0_iff)

lemma page_aligned_next: "page_aligned a \<Longrightarrow> page_aligned (a + PGSIZE)"
  using page_aligned_diff [of a "- PGSIZE"] by (simp add: page_aligned_def)

lemma mappages_from_spec:
  assumes "kmem_ready s" and "free_pages s ps" and "pt_wf (mem s) pgdir ps" and "page_aligned a"
    and "4096 * n < 2 ^ 32" and "lst = a + of_nat (4096 * n)"
    and "\<And>va. in_mapping a n va \<Longrightarrow> translate (mem s) pgdir va = None"
  shows "\<exists>r t qs. mappages_from n pgdir a lst pa perm s = Ret r t \<and> kmem_ready t \<and> free_pages t qs \<and>
     pt_wf (mem t) pgdir qs \<and> set qs \<subseteq> set ps \<and> (r = 0 \<or> r = -1 \<and> qs = []) \<and>
     (\<forall>va. \<not> in_mapping a n va \<longrightarrow> translate (mem t) pgdir va = translate (mem s) pgdir va) \<and>
     (r = 0 \<longrightarrow> (\<forall>va. in_mapping a n va \<longrightarrow>
        translate (mem t) pgdir va = Some ((pa + (PGROUNDDOWN va - a)) OR perm OR PTE_P)))"
  using assms
proof (induction n arbitrary: s ps a pa)
  case 0
  show ?case
  proof (cases "present (pde_of (mem s) pgdir (PDX a)) \<or> ps \<noteq> []")
    case True
    have "translate (mem s) pgdir a = None" using 0 by (simp add: in_mapping_0)
    from mappages_step [OF 0(1-3) True this, of pa perm 0 lst] show ?thesis
      using 0 by (fastforce simp: in_mapping_0 kop)
  next
    case False
    then show ?thesis
      using 0 mappages_step_fails [of s pgdir a 0 lst pa perm] by (fastforce simp: in_mapping_0)
  qed
next
  case (Suc n)
  note split = in_mapping_Suc [OF Suc.prems(4,5)]
  show ?case
  proof (cases "present (pde_of (mem s) pgdir (PDX a)) \<or> ps \<noteq> []")
    case True
    have "translate (mem s) pgdir a = None" using Suc.prems by (simp add: split)
    then obtain t qs where t: "kmem_ready t" "free_pages t qs" "pt_wf (mem t) pgdir qs" "set qs \<subseteq> set ps"
        "\<And>va. translate (mem t) pgdir va = (if PGROUNDDOWN va = a then Some (pa OR perm OR PTE_P)
            else translate (mem s) pgdir va)"
        "mappages_from (Suc n) pgdir a lst pa perm s = (if a = lst then ret 0 else
            mappages_from n pgdir (a + PGSIZE) lst (pa + PGSIZE) perm) t"
      using mappages_step [OF Suc.prems(1-3) True, of pa perm "Suc n" lst] Suc.prems(4) by auto
    have ne: "a \<noteq> lst"
    proof
      assume "a = lst"
      then have "of_nat (4096 * Suc n) = (0 :: u32)" using Suc.prems(6) by simp
      then show False using Suc.prems(5) by (simp only: word_of_nat_eq_0_iff) (auto dest: dvd_imp_le)
    qed
    have notin: "\<not> in_mapping (a + PGSIZE) n va" if "PGROUNDDOWN va = a" for va
      using that Suc.prems(5) by (simp add: in_mapping_def)
    have last: "lst = a + PGSIZE + of_nat (4096 * n)" using Suc.prems(6) by simp
    have bound: "4096 * n < 2 ^ 32" using Suc.prems(5) by simp
    have unmapped: "translate (mem t) pgdir va = None" if "in_mapping (a + PGSIZE) n va" for va
      using that notin [of va] Suc.prems(7) [of va] by (auto simp: t(5) split)
    from Suc.IH [OF t(1-3) page_aligned_next [OF Suc.prems(4)] bound last unmapped, of "pa + PGSIZE"]
    obtain r u rs where "mappages_from n pgdir (a + PGSIZE) lst (pa + PGSIZE) perm t = Ret r u"
        "kmem_ready u" "free_pages u rs" "pt_wf (mem u) pgdir rs" "set rs \<subseteq> set qs" "r = 0 \<or> r = -1 \<and> rs = []"
        "\<forall>va. \<not> in_mapping (a + PGSIZE) n va \<longrightarrow> translate (mem u) pgdir va = translate (mem t) pgdir va"
        "r = 0 \<longrightarrow> (\<forall>va. in_mapping (a + PGSIZE) n va \<longrightarrow> translate (mem u) pgdir va =
           Some ((pa + PGSIZE + (PGROUNDDOWN va - (a + PGSIZE))) OR perm OR PTE_P))"
      by blast
    then show ?thesis
      using t(4,5,6) ne notin by (intro exI [of _ r] exI [of _ u] exI [of _ rs]) (auto simp: split)
  next
    case False
    then show ?thesis
      using Suc.prems mappages_step_fails [of s pgdir a "Suc n" lst pa perm] by fastforce
  qed
qed

text \<open>The pages that hold the \<open>sz\<close> bytes from \<open>va\<close>, as the bounds of the loop give them.\<close>

definition page_in :: "u32 \<Rightarrow> u32 \<Rightarrow> u32 \<Rightarrow> bool" where
  "page_in va sz x \<longleftrightarrow>
     PGROUNDDOWN x - PGROUNDDOWN va \<le> PGROUNDDOWN (va + sz - 1) - PGROUNDDOWN va"

lemma page_in_mapping:
  "in_mapping (PGROUNDDOWN va) (unat (PGROUNDDOWN (va + sz - 1) - PGROUNDDOWN va) div 4096) x = page_in va sz x"
  and page_count_last: "PGROUNDDOWN (va + sz - 1) = PGROUNDDOWN va +
     of_nat (4096 * (unat (PGROUNDDOWN (va + sz - 1) - PGROUNDDOWN va) div 4096))"
proof -
  let ?d = "PGROUNDDOWN (va + sz - 1) - PGROUNDDOWN va"
  have "unat ?d mod 4096 = 0"
    using page_aligned_diff [OF page_aligned_PGROUNDDOWN page_aligned_PGROUNDDOWN]
    by (simp only: page_aligned_unat)
  then have d: "4096 * (unat ?d div 4096) = unat ?d"
    by (simp add: mod_eq_0_iff_dvd)
  show "in_mapping (PGROUNDDOWN va) (unat ?d div 4096) x = page_in va sz x"
    unfolding in_mapping_def page_in_def d by (simp add: word_le_nat_alt)
  show "PGROUNDDOWN (va + sz - 1) = PGROUNDDOWN va + of_nat (4096 * (unat ?d div 4096))"
    unfolding d by simp
qed

lemma mappages_spec:
  assumes "kmem_ready s" and "free_pages s ps" and "pt_wf (mem s) pgdir ps"
    and "\<forall>x. page_in va sz x \<longrightarrow> translate (mem s) pgdir x = None"
  shows "\<exists>r t qs. mappages pgdir va sz pa perm s = Ret r t \<and> free_pages t qs \<and> pt_wf (mem t) pgdir qs \<and>
     (r = 0 \<or> r = -1 \<and> qs = []) \<and>
     (\<forall>x. \<not> page_in va sz x \<longrightarrow> translate (mem t) pgdir x = translate (mem s) pgdir x) \<and>
     (r = 0 \<longrightarrow> (\<forall>x. page_in va sz x \<longrightarrow>
        translate (mem t) pgdir x = Some ((pa + (PGROUNDDOWN x - PGROUNDDOWN va)) OR perm OR PTE_P)))"
proof -
  let ?n = "unat (PGROUNDDOWN (va + sz - 1) - PGROUNDDOWN va) div 4096"
  have "4096 * ?n < 2 ^ 32"
    using unat_u32_less [of "PGROUNDDOWN (va + sz - 1) - PGROUNDDOWN va"] by simp
  from mappages_from_spec [OF assms(1-3) page_aligned_PGROUNDDOWN this page_count_last, of pa perm]
  show ?thesis
    using assms(4) unfolding mappages_def Let_def page_in_mapping by blast
qed

text \<open>
  C9. mappages installs exactly the mapping it was asked for. On a well-formed page directory in
  which no page of the range is mapped it always returns. If it returns 0, every page of the range
  translates to the corresponding physical page with the given permissions, and every other
  address of the address space translates as before. It fails with -1 only when no free page is
  left, and then no address outside the range is affected either. The page directory stays
  well-formed and the pages it took are off the free list.
\<close>

theorem mappages_maps:
  assumes "kmem_ready s" and "free_pages s ps" and "pt_wf (mem s) pgdir ps"
    and "\<forall>x. page_in va sz x \<longrightarrow> translate (mem s) pgdir x = None"
  shows "\<exists>r t qs. mappages pgdir va sz pa perm s = Ret r t \<and> free_pages t qs \<and> pt_wf (mem t) pgdir qs \<and>
     (r = 0 \<or> r = -1 \<and> qs = []) \<and>
     (\<forall>x. \<not> page_in va sz x \<longrightarrow> translate (mem t) pgdir x = translate (mem s) pgdir x) \<and>
     (r = 0 \<longrightarrow> (\<forall>x. page_in va sz x \<longrightarrow>
        translate (mem t) pgdir x = Some ((pa + (PGROUNDDOWN x - PGROUNDDOWN va)) OR perm OR PTE_P)))"
  by (rule mappages_spec [OF assms])

text \<open>
  Mapping a page that is already mapped stops the kernel: mappages panics with remap when the
  first page of the range has a present entry.
\<close>

lemma mappages_remap:
  assumes "translate (mem s) pgdir va = Some e" and "pt_wf (mem s) pgdir ps"
  shows "mappages pgdir va sz pa perm s = Panic ''remap''"
proof -
  have "PDX (PGROUNDDOWN va) = PDX va" and "PTX (PGROUNDDOWN va) = PTX va"
    using page_index [of "PGROUNDDOWN va" va] by simp_all
  moreover have p: "present (pde_of (mem s) pgdir (PDX va))"
      "present (load32 (mem s) (table_of (mem s) pgdir (PDX va) + 4 * PTX va))"
    using assms(1) by (auto simp: translate_def Let_def split: if_splits)
  moreover have "table_of (mem s) pgdir (PDX va) + 4 * PTX va \<noteq> 0"
    using assms(2) p PDX_less [of va] by (intro entry_nonzero) (auto simp: pt_wf_def PTX_less)
  ultimately show ?thesis
    by (simp add: mappages_def Let_def mappages_from.simps kop walkpgdir_present ld32_def present_def)
qed

text \<open>A state with an empty page directory, and the same with its first page mapped.\<close>

lemma kmem0_page_zero:
  assumes "PGROUNDDOWN b \<noteq> 0x80400000" and "PGROUNDDOWN b \<noteq> 0x80401000"
  shows "mem (kmem0 x) b = 0"
proof -
  have "word_aligned (0x80400000 :: u32)" "word_aligned (0x80401000 :: u32)"
    by (simp_all add: word_aligned_def)
  with assms show ?thesis
    by (simp add: kmem0_def mach0_def store32_other_page PGROUNDDOWN_def)
qed

lemma kmem0_pgdir:
  "pde_of (mem (kmem0 x)) 0x80500000 i = 0" if "i < 1024"
proof -
  have "pde_of (mem (kmem0 x)) 0x80500000 i = pde_of (\<lambda>_. 0) 0x80500000 i"
    using that by (intro pde_of_cong) (auto simp: kmem0_page_zero page_aligned_def)
  then show ?thesis by (simp add: pde_of_def load32_def)
qed

lemma kmem0_pt_wf [simp]: "pt_wf (mem (kmem0 x)) 0x80500000 [0x80400000, 0x80401000]"
  by (simp add: pt_wf_def kmem0_pgdir present_def page_aligned_def)

lemma kmem0_translate [simp]: "translate (mem (kmem0 x)) 0x80500000 va = None"
  by (simp add: translate_def kmem0_pgdir present_def PDX_less)

theorem mappages_maps_witness:
  "\<exists>r t qs. mappages 0x80500000 0x1234 0x1000 0x600000 6 (kmem0 ()) = Ret r t \<and>
     (r = 0 \<or> r = -1 \<and> qs = []) \<and> (r = 0 \<longrightarrow> translate (mem t) 0x80500000 0x2000 = Some 0x601007)"
  using mappages_maps [of "kmem0 ()" "[0x80400000, 0x80401000]" "0x80500000" "0x1234" "0x1000" "0x600000" 6]
  by (fastforce simp: page_in_def PGROUNDDOWN_def)

definition mapped0 :: "'a \<Rightarrow> 'a kmem_st_scheme" where
  "mapped0 x = (kmem0 x)\<lparr>mem := store32 (new_table (mem (kmem0 x)) 0x80500000 0 0x80600000) 0x80600000 0x700007\<rparr>"

lemma mapped0_ok:
  "translate (mem (mapped0 x)) 0x80500000 0 = Some 0x700007" "pt_wf (mem (mapped0 x)) 0x80500000 []"
proof -
  let ?m = "new_table (mem (kmem0 x)) 0x80500000 0 0x80600000"
  have "pt_wf (mem (kmem0 x)) 0x80500000 [0x80600000]"
    by (simp add: pt_wf_def kmem0_pgdir present_def page_aligned_def)
  moreover have "\<not> present (pde_of (mem (kmem0 x)) 0x80500000 (PDX 0))"
    by (simp add: kmem0_pgdir present_def PDX_less)
  ultimately have m: "pt_wf ?m 0x80500000 []" "table_of ?m 0x80500000 (PDX 0) = 0x80600000"
      "present (pde_of ?m 0x80500000 (PDX 0))"
    using pt_wf_new_table [of "mem (kmem0 x)" "0x80500000" "0x80600000" "[]" 0]
    by (simp_all add: page_aligned_def)
  moreover have "PTX 0 = 0" by (simp add: PTX_def)
  ultimately show "translate (mem (mapped0 x)) 0x80500000 0 = Some 0x700007"
    using translate_store_entry [OF m(1,3), of "0x700007" 0]
    by (simp add: mapped0_def present_def)
  show "pt_wf (mem (mapped0 x)) 0x80500000 []"
    using pt_wf_store_entry [OF m(1,3) PDX_less, of 0] m(2) by (simp add: mapped0_def)
qed

lemma mappages_remap_example:
  "mappages 0x80500000 0x10 4096 0x600000 6 (mapped0 ()) = Panic ''remap''"
proof -
  have "PDX 0x10 = PDX 0" "PTX 0x10 = PTX 0" by (simp_all add: PDX_def PTX_def)
  then have "translate (mem (mapped0 ())) 0x80500000 0x10 = Some 0x700007"
    using mapped0_ok(1) [of "()"] by (simp only: translate_def)
  then show ?thesis by (rule mappages_remap) (rule mapped0_ok(2))
qed

end
