(* ===== verification/Proc.thy ===== *)
theory Proc
  imports Vm "HOL-Library.Product_Lexorder"
begin

section \<open>Processes and scheduling (proc.c)\<close>

text \<open>
  Extends the state with the process table, the pid counter, the tick counter and the kernel's
  entry points for new processes. A process pointer is an index into the table, \<open>None\<close> the null
  pointer. The trap frame and the saved context live in memory at the top of the kernel stack, as
  in the source, and \<open>p_tf\<close> and \<open>p_context\<close> are their addresses.

  \<open>swtch\<close> to the scheduler ends a routine with the outcome \<open>Block\<close> (from \<open>sleep\<close>) or
  \<open>Resched\<close>; what the routine does when it is switched to again is a definition of its own. The
  routines of proc.c that open and close files (\<open>fork\<close>, \<open>exit\<close>, \<open>userinit\<close>, \<open>forkret\<close>) are
  completed above the file system.
\<close>

subsection \<open>State\<close>

datatype procstate = UNUSED | EMBRYO | SLEEPING | RUNNABLE | RUNNING | ZOMBIE

record proc =
  p_sz :: u32
  p_pgdir :: u32
  p_kstack :: u32
  p_state :: procstate
  p_pid :: u32
  p_parent :: "nat option"
  p_ustack :: u32
  p_tf :: u32
  p_context :: u32
  p_chan :: "chan option"
  p_killed :: bool
  p_ofile :: "nat option list"
  p_cwd :: "nat option"
  p_name :: "u8 list"
  p_priority :: int
  p_end_time :: u32
  p_turnaround_time :: u32
  p_creation_time :: u32
  p_wait_time :: u32
  p_start_time :: u32
  p_ticks_runs :: u32

record proc_st = vm_st +
  procs :: "proc list"
  nextpid :: u32
  initproc :: "nat option"
  ticks :: u32
  sym_trapret :: u32
  sym_forkret :: u32

abbreviation (input) HIGH :: int where "HIGH \<equiv> 0"
abbreviation (input) MEDIUM :: int where "MEDIUM \<equiv> 1"
abbreviation (input) LOW :: int where "LOW \<equiv> 2"

definition set_proc :: "nat \<Rightarrow> (proc \<Rightarrow> proc) \<Rightarrow> (unit, 'a proc_st_scheme) kop" where
  "set_proc i f = upd (\<lambda>s. s\<lparr>procs := list_upd (procs s) i f\<rparr>)"

definition get_proc :: "nat \<Rightarrow> (proc, 'a proc_st_scheme) kop" where
  "get_proc i = gets (\<lambda>s. procs s ! i)"

text \<open>Reading a field through a null process pointer is a page fault in the kernel.\<close>

definition curproc :: "(nat, 'a mach_scheme) kop" where
  "curproc = bnd myproc (\<lambda>p. case p of None \<Rightarrow> kpanic ''trap'' | Some i \<Rightarrow> ret i)"

subsection \<open>Creating processes\<close>

definition pinit :: "(unit, 'a mach_scheme) kop" where
  "pinit = initlock LPtable ''ptable''"

text \<open>The trap frame takes 76 bytes and the context 20, with \<open>eip\<close> its last word.\<close>

definition setup_kstack :: "nat \<Rightarrow> u32 \<Rightarrow> (unit, 'a proc_st_scheme) kop" where
  "setup_kstack p kstack =
     (let sp = kstack + 4096 - 76; sp2 = sp - 4; sp3 = sp2 - 20 in
      thn (set_proc p (\<lambda>q. q\<lparr>p_tf := sp\<rparr>))
      (bnd (gets sym_trapret) (\<lambda>tr.
      thn (st32 sp2 tr)
      (thn (set_proc p (\<lambda>q. q\<lparr>p_context := sp3\<rparr>))
      (thn (upd (\<lambda>s. s\<lparr>mem := memset (mem s) sp3 0 20\<rparr>))
      (bnd (gets sym_forkret) (\<lambda>fr. st32 (sp3 + 16) fr)))))))"

definition allocproc :: "(nat option, 'a proc_st_scheme) kop" where
  "allocproc =
     thn (acquire LPtable)
     (bnd (gets (\<lambda>s. find_index (\<lambda>p. p_state p = UNUSED) (procs s))) (\<lambda>found.
     case found of
       None \<Rightarrow> thn (release LPtable) (ret None)
     | Some p \<Rightarrow>
         thn (set_proc p (\<lambda>q. q\<lparr>p_state := EMBRYO\<rparr>))
         (bnd (gets nextpid) (\<lambda>n.
         thn (set_proc p (\<lambda>q. q\<lparr>p_pid := n\<rparr>))
         (thn (upd (\<lambda>s. s\<lparr>nextpid := n + 1\<rparr>))
         (thn (release LPtable)
         (bnd kalloc (\<lambda>k.
         thn (set_proc p (\<lambda>q. q\<lparr>p_kstack := k\<rparr>))
         (if k = 0 then thn (set_proc p (\<lambda>q. q\<lparr>p_state := UNUSED\<rparr>)) (ret None)
          else
            thn (setup_kstack p k)
            (thn (acquire LTicks)
            (bnd (gets ticks) (\<lambda>tk.
            thn (set_proc p (\<lambda>q. q\<lparr>p_creation_time := tk\<rparr>))
            (thn (set_proc p (\<lambda>q. q\<lparr>p_wait_time := 0\<rparr>))
            (thn (release LTicks)
            (ret (Some p))))))))))))))))"

definition growproc :: "u32 \<Rightarrow> (int, 'a proc_st_scheme) kop" where
  "growproc n =
     bnd curproc (\<lambda>p.
     bnd (get_proc p) (\<lambda>q.
     bnd (if sint n > 0 then allocuvm (p_pgdir q) (p_sz q) (p_sz q + n)
          else if sint n < 0 then deallocuvm (p_pgdir q) (p_sz q) (p_sz q + n)
          else ret (p_sz q)) (\<lambda>sz.
     if n \<noteq> 0 \<and> sz = 0 then ret (-1) else
     thn (set_proc p (\<lambda>q. q\<lparr>p_sz := sz\<rparr>))
     (thn (switchuvm (Some (p_kstack q, p_pgdir q)))
     (ret 0)))))"

subsection \<open>The scheduler\<close>

text \<open>
  The endless loop of \<open>scheduler\<close> is cut at its \<open>swtch\<close>: choosing a process, switching to it, and
  what the scheduler does when the process switches back. \<open>default_pick i\<close> continues the scan of
  the table at slot \<open>i\<close>; the FIFO and PRIORITY builds choose by a scan of the whole table that
  keeps the best candidate so far in \<open>selected\<close>.
\<close>

definition default_pick :: "proc list \<Rightarrow> nat \<Rightarrow> nat option" where
  "default_pick ps i =
     map_option (\<lambda>j. j + i) (find_index (\<lambda>p. p_state p = RUNNABLE) (drop i ps))"

fun select_scan :: "(proc \<Rightarrow> proc \<Rightarrow> bool) \<Rightarrow> proc list \<Rightarrow> nat list \<Rightarrow> nat option \<Rightarrow> nat option" where
  "select_scan better ps [] selected = selected"
| "select_scan better ps (i # is) selected =
     (if p_state (ps ! i) \<noteq> RUNNABLE then select_scan better ps is selected
      else case selected of
             None \<Rightarrow> select_scan better ps is (Some i)
           | Some j \<Rightarrow> select_scan better ps is (if better (ps ! i) (ps ! j) then Some i else Some j))"

definition fifo_pick :: "proc list \<Rightarrow> nat option" where
  "fifo_pick ps =
     select_scan (\<lambda>p sel. p_creation_time p < p_creation_time sel) ps [0..<length ps] None"

definition priority_pick :: "proc list \<Rightarrow> nat option" where
  "priority_pick ps =
     select_scan (\<lambda>p sel. p_priority sel > p_priority p) ps [0..<length ps] None"

definition set_cproc :: "nat \<Rightarrow> nat option \<Rightarrow> (unit, 'a mach_scheme) kop" where
  "set_cproc c p = upd (set_cpu c (\<lambda>x. x\<lparr>cproc := p\<rparr>))"

definition dispatch :: "nat \<Rightarrow> nat \<Rightarrow> (unit, 'a proc_st_scheme) kop" where
  "dispatch c p =
     thn (set_cproc c (Some p))
     (bnd (get_proc p) (\<lambda>q.
     thn (switchuvm (Some (p_kstack q, p_pgdir q)))
     (set_proc p (\<lambda>q. q\<lparr>p_state := RUNNING\<rparr>))))"

definition priority_dispatch :: "nat \<Rightarrow> nat \<Rightarrow> (unit, 'a proc_st_scheme) kop" where
  "priority_dispatch c p =
     thn (set_cproc c (Some p))
     (bnd (get_proc p) (\<lambda>q.
     thn (switchuvm (Some (p_kstack q, p_pgdir q)))
     (thn (kwhen (p_start_time q = 0)
        (thn (acquire LTicks)
        (bnd (gets ticks) (\<lambda>tk.
        thn (set_proc p (\<lambda>q. q\<lparr>p_start_time := tk\<rparr>))
        (release LTicks)))))
     (set_proc p (\<lambda>q. q\<lparr>p_state := RUNNING\<rparr>)))))"

definition after_swtch :: "nat \<Rightarrow> nat \<Rightarrow> (unit, 'a proc_st_scheme) kop" where
  "after_swtch c p =
     thn (set_proc p (\<lambda>q. q\<lparr>p_ticks_runs := p_ticks_runs q + 1\<rparr>))
     (thn switchkvm
     (set_cproc c None))"

text \<open>Entering the scheduler on a processor, and the start and end of one round of its loop.\<close>

definition scheduler_enter :: "(nat, 'a mach_scheme) kop" where
  "scheduler_enter = bnd mycpu (\<lambda>c. thn (set_cproc c None) (ret c))"

definition scheduler_begin :: "(unit, 'a mach_scheme) kop" where
  "scheduler_begin = thn (upd sti) (acquire LPtable)"

definition scheduler_end :: "(unit, 'a mach_scheme) kop" where
  "scheduler_end = release LPtable"

subsection \<open>Giving up the processor\<close>

text \<open>
  \<open>sched\<close> up to its \<open>swtch\<close>. It ends with \<open>Block\<close> for a process that has marked itself
  sleeping and with \<open>Resched\<close> otherwise; \<open>sched_resume\<close> is the statement after \<open>swtch\<close>, with the
  saved value of \<open>intena\<close>.
\<close>

definition swtch_out :: "nat \<Rightarrow> ('b, 'a proc_st_scheme) kop" where
  "swtch_out p s =
     (if p_state (procs s ! p) = SLEEPING \<and> p_chan (procs s ! p) \<noteq> None
      then Block (the (p_chan (procs s ! p))) s else Resched s)"

definition sched :: "('b, 'a proc_st_scheme) kop" where
  "sched =
     bnd curproc (\<lambda>p.
     bnd (holding LPtable) (\<lambda>h.
     if \<not> h then kpanic ''sched ptable.lock'' else
     bnd mycpu (\<lambda>c.
     bnd (gets (\<lambda>s. ncli (cpus s ! c))) (\<lambda>n.
     if n \<noteq> 1 then kpanic ''sched locks'' else
     bnd (get_proc p) (\<lambda>q.
     if p_state q = RUNNING then kpanic ''sched running'' else
     bnd (gets readeflags_IF) (\<lambda>f.
     if f then kpanic ''sched interruptible'' else
     swtch_out p))))))"

definition sched_resume :: "bool \<Rightarrow> (unit, 'a mach_scheme) kop" where
  "sched_resume b = bnd mycpu (\<lambda>c. upd (set_cpu c (\<lambda>x. x\<lparr>intena := b\<rparr>)))"

definition yield :: "(unit, 'a proc_st_scheme) kop" where
  "yield =
     thn (acquire LPtable)
     (bnd curproc (\<lambda>p.
     thn (set_proc p (\<lambda>q. q\<lparr>p_state := RUNNABLE\<rparr>))
     sched))"

definition yield_resume :: "bool \<Rightarrow> (unit, 'a mach_scheme) kop" where
  "yield_resume b = thn (sched_resume b) (release LPtable)"

text \<open>The callers never pass a null lock, so the panic \<open>sleep without lk\<close> has no counterpart.\<close>

definition sleep :: "chan \<Rightarrow> lockname \<Rightarrow> ('b, 'a proc_st_scheme) kop" where
  "sleep ch lk =
     bnd myproc (\<lambda>mp.
     case mp of
       None \<Rightarrow> kpanic ''sleep''
     | Some p \<Rightarrow>
         thn (kwhen (lk \<noteq> LPtable) (thn (acquire LPtable) (release lk)))
         (thn (set_proc p (\<lambda>q. q\<lparr>p_chan := Some ch\<rparr>))
         (thn (set_proc p (\<lambda>q. q\<lparr>p_state := SLEEPING\<rparr>))
         sched)))"

definition sleep_resume :: "bool \<Rightarrow> nat \<Rightarrow> lockname \<Rightarrow> (unit, 'a proc_st_scheme) kop" where
  "sleep_resume b p lk =
     thn (sched_resume b)
     (thn (set_proc p (\<lambda>q. q\<lparr>p_chan := None\<rparr>))
     (kwhen (lk \<noteq> LPtable) (thn (release LPtable) (acquire lk))))"

definition wakeup1 :: "chan option \<Rightarrow> (unit, 'a proc_st_scheme) kop" where
  "wakeup1 ch =
     upd (\<lambda>s. s\<lparr>procs := map (\<lambda>p.
       if p_state p = SLEEPING \<and> p_chan p = ch then p\<lparr>p_state := RUNNABLE\<rparr> else p) (procs s)\<rparr>)"

definition wakeup :: "chan \<Rightarrow> (unit, 'a proc_st_scheme) kop" where
  "wakeup ch = thn (acquire LPtable) (thn (wakeup1 (Some ch)) (release LPtable))"

definition kill :: "u32 \<Rightarrow> (int, 'a proc_st_scheme) kop" where
  "kill pid =
     thn (acquire LPtable)
     (bnd (gets (\<lambda>s. find_index (\<lambda>p. p_pid p = pid) (procs s))) (\<lambda>found.
     case found of
       None \<Rightarrow> thn (release LPtable) (ret (-1))
     | Some p \<Rightarrow>
         thn (set_proc p (\<lambda>q. q\<lparr>p_killed := True\<rparr>))
         (bnd (get_proc p) (\<lambda>q.
         thn (kwhen (p_state q = SLEEPING) (set_proc p (\<lambda>q. q\<lparr>p_state := RUNNABLE\<rparr>)))
         (thn (release LPtable) (ret 0))))))"

subsection \<open>Scheduling queries\<close>

definition set_sched_priority :: "int \<Rightarrow> (int, 'a proc_st_scheme) kop" where
  "set_sched_priority pr =
     (if pr < 0 \<or> pr > 3 - 1 then ret (-1) else
      bnd curproc (\<lambda>p.
      thn (set_proc p (\<lambda>q. q\<lparr>p_priority := pr\<rparr>))
      (ret 0)))"

definition get_sched_priority :: "u32 \<Rightarrow> (int, 'a proc_st_scheme) kop" where
  "get_sched_priority pid =
     thn (acquire LPtable)
     (bnd (gets (\<lambda>s. find_index (\<lambda>p. p_pid p = pid \<and> (p_state p = RUNNABLE \<or> p_state p = RUNNING)) (procs s)))
       (\<lambda>found.
     thn (release LPtable)
     (case found of None \<Rightarrow> ret (-1) | Some p \<Rightarrow> gets (\<lambda>s. p_priority (procs s ! p)))))"

fun fifo_position_scan :: "proc list \<Rightarrow> u32 \<Rightarrow> int \<Rightarrow> int" where
  "fifo_position_scan [] pid position = -1"
| "fifo_position_scan (p # ps) pid position =
     (if p_state p = RUNNABLE \<or> p_state p = RUNNING \<or> p_state p = SLEEPING
      then if p_pid p = pid then position else fifo_position_scan ps pid (position + 1)
      else fifo_position_scan ps pid position)"

definition fifo_position :: "u32 \<Rightarrow> (int, 'a proc_st_scheme) kop" where
  "fifo_position pid =
     thn (acquire LPtable)
     (bnd (gets (\<lambda>s. fifo_position_scan (procs s) pid 0)) (\<lambda>r.
     thn (release LPtable) (ret r)))"

subsection \<open>wait and the end of exit\<close>

text \<open>\<open>wait_scan\<close> is the inner loop of \<open>wait\<close>: it reaps the first zombie child, or tells whether
  there are children.\<close>

fun wait_scan :: "nat \<Rightarrow> nat list \<Rightarrow> bool \<Rightarrow> (bool + u32, 'a proc_st_scheme) kop" where
  "wait_scan me_p [] havekids = ret (Inl havekids)"
| "wait_scan me_p (i # is) havekids =
     bnd (get_proc i) (\<lambda>p.
     if p_parent p \<noteq> Some me_p then wait_scan me_p is havekids
     else if p_state p = ZOMBIE then
       thn (kfree (p_kstack p))
       (thn (set_proc i (\<lambda>q. q\<lparr>p_kstack := 0\<rparr>))
       (thn (freevm (p_pgdir p))
       (thn (set_proc i (\<lambda>q. q\<lparr>p_pid := 0, p_parent := None, p_name := 0 # tl (p_name q),
          p_killed := False, p_state := UNUSED\<rparr>))
       (thn (release LPtable)
       (ret (Inr (p_pid p)))))))
     else wait_scan me_p is True)"

definition wait_loop :: "nat \<Rightarrow> (int, 'a proc_st_scheme) kop" where
  "wait_loop me_p =
     bnd (wait_scan me_p [0..<64] False) (\<lambda>r.
     case r of
       Inr pid \<Rightarrow> ret (sint pid)
     | Inl havekids \<Rightarrow>
         bnd (get_proc me_p) (\<lambda>q.
         if \<not> havekids \<or> p_killed q then thn (release LPtable) (ret (-1))
         else sleep (ChProc me_p) LPtable))"

definition wait :: "(int, 'a proc_st_scheme) kop" where
  "wait = bnd curproc (\<lambda>me_p. thn (acquire LPtable) (wait_loop me_p))"

definition wait_resume :: "bool \<Rightarrow> nat \<Rightarrow> (int, 'a proc_st_scheme) kop" where
  "wait_resume b me_p = thn (sleep_resume b me_p LPtable) (wait_loop me_p)"

text \<open>The part of \<open>exit\<close> under \<open>ptable.lock\<close>, after files and directory are closed.\<close>

fun exit_reparent :: "nat \<Rightarrow> nat list \<Rightarrow> (unit, 'a proc_st_scheme) kop" where
  "exit_reparent me_p [] = ret ()"
| "exit_reparent me_p (i # is) =
     bnd (get_proc i) (\<lambda>p.
     thn (kwhen (p_parent p = Some me_p)
       (bnd (gets initproc) (\<lambda>ini.
       thn (set_proc i (\<lambda>q. q\<lparr>p_parent := ini\<rparr>))
       (kwhen (p_state p = ZOMBIE) (wakeup1 (map_option ChProc ini))))))
     (exit_reparent me_p is))"

definition exit_ptable :: "nat \<Rightarrow> ('b, 'a proc_st_scheme) kop" where
  "exit_ptable me_p =
     thn (acquire LPtable)
     (bnd (get_proc me_p) (\<lambda>q.
     thn (wakeup1 (map_option ChProc (p_parent q)))
     (thn (exit_reparent me_p [0..<64])
     (thn (acquire LTicks)
     (thn (bnd (gets ticks) (\<lambda>tk. set_proc me_p (\<lambda>q. q\<lparr>p_end_time := tk\<rparr>)))
     (thn (release LTicks)
     (thn (set_proc me_p (\<lambda>q. q\<lparr>p_wait_time := p_start_time q - p_creation_time q\<rparr>))
     (thn (set_proc me_p (\<lambda>q. q\<lparr>p_turnaround_time := p_end_time q - p_creation_time q\<rparr>))
     (thn (set_proc me_p (\<lambda>q. q\<lparr>p_state := ZOMBIE\<rparr>))
     sched)))))))))"

subsection \<open>The layers below\<close>

lemma proc_over_mach [simp]:
  "procs (lock_on l s) = procs s" "procs (settle s) = procs s" "procs (cli_on s) = procs s"
  "nextpid (lock_on l s) = nextpid s" "nextpid (settle s) = nextpid s" "nextpid (cli_on s) = nextpid s"
  "ticks (lock_on l s) = ticks s" "ticks (settle s) = ticks s" "ticks (cli_on s) = ticks s"
  by (simp_all add: mach_on_defs)

lemma proc_me [simp]:
  "me (s\<lparr>procs := x0\<rparr>) = me s"
  "me (s\<lparr>nextpid := x1\<rparr>) = me s"
  "me (s\<lparr>ticks := x2\<rparr>) = me s"
  by (simp_all add: me_def cpu_ix_def lapicid_def)

lemma proc_mach [simp]:
  "mach_ok (s\<lparr>procs := x0\<rparr>) = mach_ok s" "lock_free l (s\<lparr>procs := x0\<rparr>) = lock_free l s"
  "mach_ok (s\<lparr>nextpid := x1\<rparr>) = mach_ok s" "lock_free l (s\<lparr>nextpid := x1\<rparr>) = lock_free l s"
  "mach_ok (s\<lparr>ticks := x2\<rparr>) = mach_ok s" "lock_free l (s\<lparr>ticks := x2\<rparr>) = lock_free l s"
  by (simp_all add: mach_ok_def lock_free_def cpu_ix_def lapicid_def readeflags_IF_def)

lemma proc_upd_on [simp]:
  "(lock_on l s)\<lparr>procs := x0\<rparr> = lock_on l (s\<lparr>procs := x0\<rparr>)"
  "(settle s)\<lparr>procs := x0\<rparr> = settle (s\<lparr>procs := x0\<rparr>)"
  "(lock_on l s)\<lparr>nextpid := x1\<rparr> = lock_on l (s\<lparr>nextpid := x1\<rparr>)"
  "(settle s)\<lparr>nextpid := x1\<rparr> = settle (s\<lparr>nextpid := x1\<rparr>)"
  "(lock_on l s)\<lparr>ticks := x2\<rparr> = lock_on l (s\<lparr>ticks := x2\<rparr>)"
  "(settle s)\<lparr>ticks := x2\<rparr> = settle (s\<lparr>ticks := x2\<rparr>)"
  by (simp_all add: lock_on_def settle_def cli_on_def set_cpu_def cli_def readeflags_IF_def cong: if_cong)

lemma proc_kmem [simp]:
  "kmem_ready (s\<lparr>procs := x\<rparr>) = kmem_ready s" "free_pages (s\<lparr>procs := x\<rparr>) = free_pages s"
  "kmem_ready (s\<lparr>nextpid := y\<rparr>) = kmem_ready s" "free_pages (s\<lparr>nextpid := y\<rparr>) = free_pages s"
  by (simp_all add: kmem_ready_def free_pages_def fun_eq_iff)

lemma curproc_ok:
  "mach_ok s \<Longrightarrow> cproc (cpus s ! me s) = Some p \<Longrightarrow> curproc s = Ret p (settle s)"
  by (simp add: curproc_def kop myproc_ok)

subsection \<open>Choosing the next process\<close>

text \<open>
  What the three schedulers share: a process is chosen if and only if some process is runnable,
  the choice is runnable, and no runnable process ranks before it.
\<close>

locale picker =
  fixes pick :: "proc list \<Rightarrow> nat option"
    and rank :: "proc \<Rightarrow> nat \<Rightarrow> 'r :: linorder"
  assumes pick_runnable: "pick ps = Some i \<Longrightarrow> i < length ps \<and> p_state (ps ! i) = RUNNABLE"
    and pick_none: "pick ps = None \<Longrightarrow> j < length ps \<Longrightarrow> p_state (ps ! j) \<noteq> RUNNABLE"
    and pick_best: "pick ps = Some i \<Longrightarrow> j < length ps \<Longrightarrow> p_state (ps ! j) = RUNNABLE \<Longrightarrow>
        rank (ps ! i) i \<le> rank (ps ! j) j"
begin

lemma pick_iff: "pick ps \<noteq> None \<longleftrightarrow> (\<exists>j < length ps. p_state (ps ! j) = RUNNABLE)"
  using pick_runnable pick_none by (cases "pick ps") blast+

lemma picks_minimal:
  assumes "j < length ps" and "p_state (ps ! j) = RUNNABLE"
  shows "\<exists>i. pick ps = Some i \<and> i < length ps \<and> p_state (ps ! i) = RUNNABLE \<and> rank (ps ! i) i \<le> rank (ps ! j) j"
proof -
  obtain i where "pick ps = Some i" using assms pick_iff by blast
  then show ?thesis using assms pick_runnable pick_best by blast
qed

end

text \<open>The scan of the FIFO and PRIORITY builds keeps the first of the best candidates.\<close>

lemma select_scan_spec:
  assumes "\<And>x y. better x y \<longleftrightarrow> key x < (key y :: 'r :: linorder)"
    and "case selected of None \<Rightarrow> \<forall>j < k. p_state (ps ! j) \<noteq> RUNNABLE
         | Some i \<Rightarrow> i < k \<and> p_state (ps ! i) = RUNNABLE \<and>
             (\<forall>j < k. p_state (ps ! j) = RUNNABLE \<longrightarrow> (key (ps ! i), i) \<le> (key (ps ! j), j))"
    and "k \<le> n"
  shows "case select_scan better ps [k..<n] selected of
           None \<Rightarrow> \<forall>j < n. p_state (ps ! j) \<noteq> RUNNABLE
         | Some i \<Rightarrow> i < n \<and> p_state (ps ! i) = RUNNABLE \<and>
             (\<forall>j < n. p_state (ps ! j) = RUNNABLE \<longrightarrow> (key (ps ! i), i) \<le> (key (ps ! j), j))"
  using assms(2,3)
proof (induction "n - k" arbitrary: k selected)
  case 0
  then have "k = n" by simp
  with 0 show ?case by (simp split: option.splits)
next
  case (Suc d)
  then have k: "k < n" by simp
  let ?new = "if p_state (ps ! k) \<noteq> RUNNABLE then selected else
      case selected of None \<Rightarrow> Some k | Some j \<Rightarrow> if better (ps ! k) (ps ! j) then Some k else Some j"
  have step: "select_scan better ps [k..<n] selected = select_scan better ps [Suc k..<n] ?new"
    using k by (simp add: upt_conv_Cons split: option.splits)
  have "case ?new of None \<Rightarrow> \<forall>j < Suc k. p_state (ps ! j) \<noteq> RUNNABLE
         | Some i \<Rightarrow> i < Suc k \<and> p_state (ps ! i) = RUNNABLE \<and>
             (\<forall>j < Suc k. p_state (ps ! j) = RUNNABLE \<longrightarrow> (key (ps ! i), i) \<le> (key (ps ! j), j))"
    using Suc.prems(1) by (auto simp: assms(1) less_Suc_eq split: option.splits if_splits)
  with Suc k show ?case unfolding step by (intro Suc.hyps(1)) auto
qed

lemma fifo_pick_spec:
  "case fifo_pick ps of
     None \<Rightarrow> \<forall>j < length ps. p_state (ps ! j) \<noteq> RUNNABLE
   | Some i \<Rightarrow> i < length ps \<and> p_state (ps ! i) = RUNNABLE \<and>
       (\<forall>j < length ps. p_state (ps ! j) = RUNNABLE \<longrightarrow>
          (p_creation_time (ps ! i), i) \<le> (p_creation_time (ps ! j), j))"
  unfolding fifo_pick_def by (rule select_scan_spec) auto

lemma priority_pick_spec:
  "case priority_pick ps of
     None \<Rightarrow> \<forall>j < length ps. p_state (ps ! j) \<noteq> RUNNABLE
   | Some i \<Rightarrow> i < length ps \<and> p_state (ps ! i) = RUNNABLE \<and>
       (\<forall>j < length ps. p_state (ps ! j) = RUNNABLE \<longrightarrow>
          (p_priority (ps ! i), i) \<le> (p_priority (ps ! j), j))"
  unfolding priority_pick_def by (rule select_scan_spec) auto

lemma picker_of_scan:
  assumes "\<And>ps. case pick ps of
     None \<Rightarrow> \<forall>j < length ps. p_state (ps ! j) \<noteq> RUNNABLE
   | Some i \<Rightarrow> i < length ps \<and> p_state (ps ! i) = RUNNABLE \<and>
       (\<forall>j < length ps. p_state (ps ! j) = RUNNABLE \<longrightarrow> rank (ps ! i) i \<le> rank (ps ! j) j)"
  shows "picker pick rank"
proof
  fix ps i j
  show "i < length ps \<and> p_state (ps ! i) = RUNNABLE" if "pick ps = Some i"
    using assms [of ps] that by simp
  show "p_state (ps ! j) \<noteq> RUNNABLE" if "pick ps = None" "j < length ps"
    using assms [of ps] that by simp
  show "rank (ps ! i) i \<le> rank (ps ! j) j" if "pick ps = Some i" "j < length ps" "p_state (ps ! j) = RUNNABLE"
    using assms [of ps] that by simp
qed

interpretation fifo: picker fifo_pick "\<lambda>p i. (p_creation_time p, i)"
  by (rule picker_of_scan) (rule fifo_pick_spec)

interpretation prio: picker priority_pick "\<lambda>p i. (p_priority p, i)"
  by (rule picker_of_scan) (rule priority_pick_spec)

interpretation rr: picker "\<lambda>ps. default_pick ps 0" "\<lambda>p i. i"
  by unfold_locales (auto simp: default_pick_def find_index_None_iff find_index_Some_iff not_less
      intro!: leI)

text \<open>
  C11. The FIFO scheduler runs the oldest runnable process: it picks a process exactly when one is
  runnable, and no runnable process has an earlier creation time; among processes created in the
  same tick the one in the lowest slot of the table runs.
\<close>

theorem fifo_runs_oldest:
  assumes "j < length ps" and "p_state (ps ! j) = RUNNABLE"
  shows "\<exists>i. fifo_pick ps = Some i \<and> i < length ps \<and> p_state (ps ! i) = RUNNABLE \<and>
     (p_creation_time (ps ! i) < p_creation_time (ps ! j) \<or>
      p_creation_time (ps ! i) = p_creation_time (ps ! j) \<and> i \<le> j)"
  using fifo.picks_minimal [OF assms] by (auto simp: less_eq_prod_def)

text \<open>
  C12. The priority scheduler never runs a process while a process of a better priority is
  runnable: the process it picks is runnable and its priority number is the least of all runnable
  processes; it picks none only if none is runnable.
\<close>

theorem priority_runs_best:
  assumes "j < length ps" and "p_state (ps ! j) = RUNNABLE"
  shows "\<exists>i. priority_pick ps = Some i \<and> p_state (ps ! i) = RUNNABLE \<and>
     (\<forall>k < length ps. p_state (ps ! k) = RUNNABLE \<longrightarrow> p_priority (ps ! i) \<le> p_priority (ps ! k))"
proof -
  obtain i where "priority_pick ps = Some i" using prio.picks_minimal [OF assms] by blast
  then show ?thesis using prio.pick_runnable prio.pick_best by (fastforce simp: less_eq_prod_def)
qed

subsection \<open>Sleep and wakeup\<close>

text \<open>What the kernel assumes of the running process: it is in the table and no spinlock is held.\<close>

definition proc_running :: "'a proc_st_scheme \<Rightarrow> nat \<Rightarrow> bool" where
  "proc_running s p \<longleftrightarrow> mach_ok s \<and> cproc (cpus s ! me s) = Some p \<and> p < length (procs s) \<and>
     ncli (cpus s ! me s) = 0 \<and> lock_free LPtable s"

lemma sched_ok:
  assumes "proc_running s p" and "p_state (procs s ! p) \<noteq> RUNNING"
  shows "sched (lock_on LPtable s) = swtch_out p (lock_on LPtable s)"
proof -
  have ok: "mach_ok s" using assms(1) by (simp add: proc_running_def)
  have "curproc (lock_on LPtable s) = Ret p (lock_on LPtable s)"
    using assms(1) ok by (simp add: curproc_ok proc_running_def mach_ok_lock_on)
  moreover have "mycpu (lock_on LPtable s) = Ret (me s) (lock_on LPtable s)"
    using ok by (simp add: mycpu_off mach_ok_ix)
  moreover have "holding LPtable (lock_on LPtable s) = Ret True (lock_on LPtable s)"
    using ok by (simp add: holding_ok mach_ok_lock_on)
  ultimately show ?thesis
    using assms ok by (simp add: sched_def kop get_proc_def ncli_lock_on proc_running_def)
qed

lemma sleep_ok:
  assumes "proc_running s p" and "lock_free lk s" and "lk \<noteq> LPtable"
  shows "sleep ch lk (lock_on lk s) = Block ch (lock_on LPtable
     (s\<lparr>procs := list_upd (procs s) p (\<lambda>q. q\<lparr>p_chan := Some ch, p_state := SLEEPING\<rparr>)\<rparr>))"
proof -
  let ?s = "s\<lparr>procs := list_upd (procs s) p (\<lambda>q. q\<lparr>p_chan := Some ch, p_state := SLEEPING\<rparr>)\<rparr>"
  have ok: "mach_ok s" "lock_free LPtable s" "p < length (procs s)" using assms(1) by (auto simp: proc_running_def)
  have "proc_running ?s p" using assms(1) by (simp add: proc_running_def)
  then have "sched (lock_on LPtable ?s) = swtch_out p (lock_on LPtable ?s)"
    using ok by (intro sched_ok) simp_all
  moreover have "myproc (lock_on lk s) = Ret (Some p) (lock_on lk s)"
    using assms(1) ok by (simp add: myproc_ok mach_ok_lock_on proc_running_def)
  moreover have "(p_state_update (\<lambda>_. SLEEPING) \<circ> p_chan_update (\<lambda>_. Some ch)) =
      (\<lambda>q. q\<lparr>p_chan := Some ch, p_state := SLEEPING\<rparr>)" by (simp add: comp_def)
  ultimately show ?thesis
    using ok assms(2,3)
    by (simp add: sleep_def kop acquire_ok mach_ok_lock_on release_under set_proc_def comp_def swtch_out_def)
qed


text \<open>
  Going to sleep with a second spinlock held stops the kernel: sleep panics with sched locks
  whenever the caller's processor holds more than the one lock that sleep will release.
\<close>

lemma sleep_with_lock_panics:
  assumes "mach_ok s" and "cproc (cpus s ! me s) = Some p" and "p < length (procs s)"
    and "0 < ncli (cpus s ! me s)" and "lock_free LPtable s" and "lock_free lk s" and "lk \<noteq> LPtable"
  shows "sleep ch lk (lock_on lk s) = Panic ''sched locks''"
proof -
  let ?s = "s\<lparr>procs := list_upd (procs s) p (\<lambda>q. q\<lparr>p_chan := Some ch, p_state := SLEEPING\<rparr>)\<rparr>"
  have "curproc (lock_on LPtable ?s) = Ret p (lock_on LPtable ?s)"
    using assms by (simp add: curproc_ok mach_ok_lock_on)
  moreover have "mycpu (lock_on LPtable ?s) = Ret (me s) (lock_on LPtable ?s)"
    using mach_ok_ix [of ?s] assms(1) by (simp add: mycpu_off)
  moreover have "holding LPtable (lock_on LPtable ?s) = Ret True (lock_on LPtable ?s)"
    using assms(1) by (simp add: holding_ok mach_ok_lock_on)
  moreover have "ncli (cpus (lock_on LPtable ?s) ! me s) \<noteq> 1"
    using ncli_lock_on [of ?s LPtable] assms by simp
  ultimately have "sched (lock_on LPtable ?s) = Panic ''sched locks''"
    by (simp add: sched_def kop)
  moreover have "myproc (lock_on lk s) = Ret (Some p) (lock_on lk s)"
    using assms by (simp add: myproc_ok mach_ok_lock_on)
  ultimately show ?thesis
    using assms
    by (simp add: sleep_def kop acquire_ok mach_ok_lock_on release_under set_proc_def comp_def)
qed

subsection \<open>allocproc and kill\<close>

lemma kdone_over [simp]:
  "procs (kdone s) = procs s" "nextpid (kdone s) = nextpid s" "ticks (kdone s) = ticks s"
  "sym_trapret (kdone s) = sym_trapret s" "sym_forkret (kdone s) = sym_forkret s"
  "lock_free l (kdone s) = lock_free l s" "mach_ok s \<Longrightarrow> mach_ok (kdone s)"
  by (simp_all add: kdone_def mach_ok_settle) (simp_all add: mach_on_defs)

lemma kdone_upd [simp]:
  "(kdone s)\<lparr>procs := x\<rparr> = kdone (s\<lparr>procs := x\<rparr>)" "(kdone s)\<lparr>mem := y\<rparr> = kdone (s\<lparr>mem := y\<rparr>)"
  by (simp_all add: kdone_def)

lemma sym_over_mach [simp]:
  "sym_trapret (lock_on l s) = sym_trapret s" "sym_trapret (settle s) = sym_trapret s"
  "sym_forkret (lock_on l s) = sym_forkret s" "sym_forkret (settle s) = sym_forkret s"
  by (simp_all add: mach_on_defs)

text \<open>The kernel stack of a new process, as \<open>setup_kstack\<close> leaves it in memory.\<close>

definition new_kstack :: "bytemem \<Rightarrow> u32 \<Rightarrow> u32 \<Rightarrow> u32 \<Rightarrow> bytemem" where
  "new_kstack m k tr fr =
     store32 (memset (store32 m (k + 4016) tr) (k + 3996) 0 20) (k + 4012) fr"

lemma new_kstack_words:
  assumes "page_aligned k"
  shows "load32 (new_kstack m k tr fr) (k + 4012) = fr" and "load32 (new_kstack m k tr fr) (k + 4016) = tr"
proof -
  have "k + 4012 = k + 4 * 1003" "k + 4016 = k + 4 * 1004" by simp_all
  then have al: "word_aligned (k + 4012)" "word_aligned (k + 4016)"
    using entry_word [OF assms, of 1003] entry_word [OF assms, of 1004] by simp_all
  show "load32 (new_kstack m k tr fr) (k + 4012) = fr" by (simp add: new_kstack_def)
  have "load32 (memset (store32 m (k + 4016) tr) (k + 3996) 0 20) (k + 4016) =
      load32 (store32 m (k + 4016) tr) (k + 4016)"
  proof (rule load32_cong)
    fix j :: u32 assume "j < 4"
    then have "\<not> (k + 4016 + j - (k + 3996) < 20)"
      by (simp add: word_less_nat_alt unat_word_ariths)
    then show "memset (store32 m (k + 4016) tr) (k + 3996) 0 20 (k + 4016 + j) =
        store32 m (k + 4016) tr (k + 4016 + j)" by (simp add: memset_apply)
  qed
  then show "load32 (new_kstack m k tr fr) (k + 4016) = tr"
    using al by (simp add: new_kstack_def load32_store32)
qed

lemma new_kstack_other:
  assumes "page_aligned k" and "PGROUNDDOWN b \<noteq> k"
  shows "new_kstack m k tr fr b = m b"
proof -
  have "k + 4012 = k + 4 * 1003" "k + 4016 = k + 4 * 1004" by simp_all
  then have w: "word_aligned (k + 4012)" "word_aligned (k + 4016)"
      "PGROUNDDOWN (k + 4012) = k" "PGROUNDDOWN (k + 4016) = k"
    using entry_word [OF assms(1), of 1003] entry_word [OF assms(1), of 1004]
      entry_page [OF assms(1), of 1003] entry_page [OF assms(1), of 1004] by simp_all
  have "\<not> b - (k + 3996) < 20"
  proof
    assume j: "b - (k + 3996) < 20"
    define j where "j = b - (k + 3996)"
    have "3996 + j < PGSIZE" using j by (simp add: j_def [symmetric] word_less_nat_alt unat_word_ariths)
    moreover have "b = k + (3996 + j)" by (simp add: j_def)
    ultimately have "PGROUNDDOWN b = k" using PGROUNDDOWN_add [OF assms(1)] by simp
    with assms(2) show False by simp
  qed
  with w assms show ?thesis by (simp add: new_kstack_def store32_other_page memset_apply)
qed

definition new_proc :: "'a proc_st_scheme \<Rightarrow> u32 \<Rightarrow> proc \<Rightarrow> proc" where
  "new_proc s k q = q\<lparr>p_state := EMBRYO, p_pid := nextpid s, p_kstack := k, p_tf := k + 4020,
     p_context := k + 3996, p_creation_time := ticks s, p_wait_time := 0\<rparr>"

lemma allocproc_ok:
  assumes "kmem_ready s" and "lock_free LPtable s" and "lock_free LTicks s"
    and "find_index (\<lambda>p. p_state p = UNUSED) (procs s) = Some p" and "freelist s = k" and "k \<noteq> 0"
  shows "\<exists>t. allocproc s = Ret (Some p) t \<and> procs t = list_upd (procs s) p (new_proc s k) \<and>
     nextpid t = nextpid s + 1 \<and> mem t = new_kstack (mem s) k (sym_trapret s) (sym_forkret s) \<and>
     freelist t = load32 (mem s) k \<and> kend t = kend s"
proof -
  have p: "p < length (procs s)" using assms(4) by (rule find_index_less)
  have ok: "mach_ok s" using assms(1) by (simp add: kmem_ready_def)
  show ?thesis
    using assms ok p
    by (simp add: allocproc_def kop acquire_ok release_on set_proc_def get_proc_def kalloc_ok
        setup_kstack_def st32_def Let_def mach_ok_settle comp_def new_kstack_def)
      (simp add: new_proc_def list_upd_def add.commute)
qed

lemma allocproc_full:
  assumes "mach_ok s" and "lock_free LPtable s" and "find_index (\<lambda>p. p_state p = UNUSED) (procs s) = None"
  shows "allocproc s = Ret None (settle s)"
  using assms by (simp add: allocproc_def kop acquire_ok release_on)

lemma allocproc_no_memory:
  assumes "kmem_ready s" and "lock_free LPtable s" and "freelist s = 0"
    and "find_index (\<lambda>p. p_state p = UNUSED) (procs s) = Some p"
  shows "\<exists>t. allocproc s = Ret None t \<and> nextpid t = nextpid s + 1 \<and> mem t = mem s \<and>
     procs t = list_upd (procs s) p (\<lambda>q. q\<lparr>p_pid := nextpid s, p_kstack := 0, p_state := UNUSED\<rparr>)"
proof -
  have "mach_ok s" and "p < length (procs s)"
    using assms(1) find_index_less [OF assms(4)] by (simp_all add: kmem_ready_def)
  then show ?thesis
    using assms
    by (simp add: allocproc_def kop acquire_ok release_on set_proc_def kalloc_ok comp_def)
qed

lemma kill_ok:
  assumes "mach_ok s" and "lock_free LPtable s" and "find_index (\<lambda>p. p_pid p = pid) (procs s) = Some p"
  shows "kill pid s = Ret 0 (settle (s\<lparr>procs := list_upd (procs s) p (\<lambda>q. q\<lparr>p_killed := True,
     p_state := if p_state q = SLEEPING then RUNNABLE else p_state q\<rparr>)\<rparr>))"
proof -
  have "p < length (procs s)" using assms(3) by (rule find_index_less)
  then show ?thesis
    using assms by (simp add: kill_def kop acquire_ok release_on set_proc_def get_proc_def comp_def)
      (simp add: list_upd_def)
qed

lemma kill_unknown:
  assumes "mach_ok s" and "lock_free LPtable s" and "\<forall>p \<in> set (procs s). p_pid p \<noteq> pid"
  shows "kill pid s = Ret (-1) (settle s)"
  using assms by (simp add: kill_def kop acquire_ok release_on find_index_None_iff [THEN iffD2])

text \<open>
  C13. allocproc takes the first UNUSED slot, gives it the next pid and a kernel stack from the
  allocator, and lays the stack out so that the first switch to the process runs forkret and then
  returns to trapret: eip of the saved context is forkret and the word above the context is
  trapret. No other slot of the table changes and the free list only loses the stack page.
\<close>

theorem allocproc_new_process:
  assumes "kmem_ready s" and "lock_free LPtable s" and "lock_free LTicks s" and "free_pages s (k # ks)"
    and "find_index (\<lambda>p. p_state p = UNUSED) (procs s) = Some p"
  shows "\<exists>t. allocproc s = Ret (Some p) t \<and> free_pages t ks \<and> nextpid t = nextpid s + 1 \<and>
     (\<forall>i. i \<noteq> p \<longrightarrow> procs t ! i = procs s ! i) \<and>
     p_state (procs t ! p) = EMBRYO \<and> p_pid (procs t ! p) = nextpid s \<and> p_kstack (procs t ! p) = k \<and>
     load32 (mem t) (p_context (procs t ! p) + 16) = sym_forkret s \<and>
     load32 (mem t) (p_context (procs t ! p) + 20) = sym_trapret s \<and>
     p_tf (procs t ! p) = p_context (procs t ! p) + 24"
proof -
  have k: "freelist s = k" "k \<noteq> 0" "page_aligned k" "k \<notin> set ks"
    using assms(4) by (auto simp: free_pages_def page_ok_def)
  have p: "p < length (procs s)" using assms(5) by (rule find_index_less)
  obtain t where t: "allocproc s = Ret (Some p) t" "procs t = list_upd (procs s) p (new_proc s k)"
      "nextpid t = nextpid s + 1" "mem t = new_kstack (mem s) k (sym_trapret s) (sym_forkret s)"
      "freelist t = load32 (mem s) k" "kend t = kend s"
    using allocproc_ok [OF assms(1-3,5) k(1,2)] by auto
  have "free_pages (s\<lparr>freelist := load32 (mem s) k\<rparr>) ks"
    using assms(4) by (auto simp: free_pages_def)
  then have "free_pages (s\<lparr>freelist := load32 (mem s) k, mem := mem t\<rparr>) ks"
    using k(3,4) by (intro free_pages_other_mem) (auto simp: t(4) intro!: new_kstack_other)
  then have "free_pages t ks" by (simp add: free_pages_def t(5,6))
  moreover have "procs t ! i = procs s ! i" if "i \<noteq> p" for i
    using that by (simp add: t(2) list_upd_def)
  moreover have "procs t ! p = new_proc s k (procs s ! p)" using p by (simp add: t(2))
  moreover have "k + 3996 + 16 = k + 4012" "k + 3996 + 20 = k + 4016" "k + 3996 + 24 = k + 4020" by simp_all
  ultimately show ?thesis
    using t(1,3,4) new_kstack_words [OF k(3)] by (simp add: new_proc_def add.commute)
qed

text \<open>
  C14. kill(0) poisons a free slot. A free slot carries pid 0, so killing pid 0 succeeds on it and
  sets killed; allocproc does not clear the flag, and the next process created in the slot starts
  out killed.
\<close>

theorem kill_zero_poisons_slot:
  assumes "kmem_ready s" and "lock_free LPtable s" and "lock_free LTicks s" and "freelist s \<noteq> 0"
    and "find_index (\<lambda>p. p_pid p = 0) (procs s) = Some p"
    and "find_index (\<lambda>p. p_state p = UNUSED) (procs s) = Some p"
  shows "\<exists>t u. kill 0 s = Ret 0 t \<and> allocproc t = Ret (Some p) u \<and> p_killed (procs u ! p)"
proof -
  have ok: "mach_ok s" and p: "p < length (procs s)" "p_state (procs s ! p) = UNUSED"
    using assms(1) find_index_SomeD [OF assms(6)] by (auto simp: kmem_ready_def)
  define t where "t = settle (s\<lparr>procs := list_upd (procs s) p (\<lambda>q. q\<lparr>p_killed := True,
     p_state := if p_state q = SLEEPING then RUNNABLE else p_state q\<rparr>)\<rparr>)"
  have kill: "kill 0 s = Ret 0 t" unfolding t_def using ok assms(2,5) by (rule kill_ok)
  have "find_index (\<lambda>p. p_state p = UNUSED) (procs t) = Some p"
    using assms(6) p by (auto simp: t_def find_index_Some_iff)
  moreover have "kmem_ready t" "lock_free LPtable t" "lock_free LTicks t" "freelist t \<noteq> 0"
    using assms(1-4) by (simp_all add: t_def)
  ultimately obtain u where "allocproc t = Ret (Some p) u"
      "procs u = list_upd (procs t) p (new_proc t (freelist t))"
    using allocproc_ok [of t p] by blast
  then show ?thesis using kill p by (auto simp: t_def new_proc_def)
qed

subsection \<open>wait\<close>

lemma wait_scan_no_zombie:
  assumes "\<forall>i \<in> set is. p_parent (procs s ! i) = Some p \<longrightarrow> p_state (procs s ! i) \<noteq> ZOMBIE"
  shows "wait_scan p is h s = Ret (Inl (h \<or> (\<exists>i \<in> set is. p_parent (procs s ! i) = Some p))) s"
  using assms by (induction "is" arbitrary: h) (auto simp: kop get_proc_def)

text \<open>
  wait, when no child has exited yet: it returns -1 at once if the process has no children or
  has been killed, and otherwise sleeps on its own process structure, holding the table lock until
  the switch, so that the exit of a child, which wakes that channel under the same lock, cannot
  slip in between the scan and the sleep.
\<close>

lemma wait_without_zombie:
  assumes "proc_running s p" and "length (procs s) = 64"
    and "\<forall>i < 64. p_parent (procs s ! i) = Some p \<longrightarrow> p_state (procs s ! i) \<noteq> ZOMBIE"
  shows "wait s =
     (if (\<forall>i < 64. p_parent (procs s ! i) \<noteq> Some p) \<or> p_killed (procs s ! p)
      then Ret (-1) (settle s)
      else Block (ChProc p) (lock_on LPtable (s\<lparr>procs := list_upd (procs s) p
             (\<lambda>q. q\<lparr>p_chan := Some (ChProc p), p_state := SLEEPING\<rparr>)\<rparr>)))"
proof -
  have ok: "mach_ok s" "lock_free LPtable s" "p < 64" "cproc (cpus s ! me s) = Some p"
    using assms(1,2) by (auto simp: proc_running_def)
  let ?s = "s\<lparr>procs := list_upd (procs s) p (\<lambda>q. q\<lparr>p_chan := Some (ChProc p), p_state := SLEEPING\<rparr>)\<rparr>"
  have "proc_running ?s p" using assms(1) by (simp add: proc_running_def)
  then have "sched (lock_on LPtable ?s) = swtch_out p (lock_on LPtable ?s)"
    using ok assms(2) by (intro sched_ok) simp_all
  then have sl: "sleep (ChProc p) LPtable (lock_on LPtable s) = Block (ChProc p) (lock_on LPtable ?s)"
    using ok assms(2)
    by (simp add: sleep_def kop myproc_ok mach_ok_lock_on set_proc_def comp_def swtch_out_def)
  have scan: "wait_scan p [0..<64] False (lock_on LPtable s) =
      Ret (Inl (\<exists>i < 64. p_parent (procs s ! i) = Some p)) (lock_on LPtable s)"
    using assms(3) by (subst wait_scan_no_zombie) auto
  show ?thesis
    using ok by (auto simp: wait_def wait_loop_def kop curproc_ok acquire_ok mach_ok_settle scan sl
        get_proc_def release_on)
qed

subsection \<open>A concrete process table\<close>

definition blank_proc :: proc where
  "blank_proc = \<lparr>p_sz = 0, p_pgdir = 0, p_kstack = 0, p_state = UNUSED, p_pid = 0, p_parent = None,
     p_ustack = 0, p_tf = 0, p_context = 0, p_chan = None, p_killed = False, p_ofile = replicate 16 None,
     p_cwd = None, p_name = replicate 16 0, p_priority = 0, p_end_time = 0, p_turnaround_time = 0,
     p_creation_time = 0, p_wait_time = 0, p_start_time = 0, p_ticks_runs = 0\<rparr>"

text \<open>Process 0 runs; process 1 is its child, runnable; the other slots are free.\<close>

definition table0 :: "proc list" where
  "table0 = blank_proc\<lparr>p_state := RUNNING, p_pid := 1\<rparr>
     # blank_proc\<lparr>p_state := RUNNABLE, p_pid := 2, p_parent := Some 0, p_creation_time := 7, p_priority := 2\<rparr>
     # blank_proc\<lparr>p_state := RUNNABLE, p_pid := 3, p_parent := Some 0, p_creation_time := 5, p_priority := 1\<rparr>
     # replicate 61 blank_proc"

definition proc0 :: "'a \<Rightarrow> 'a proc_st_scheme" where
  "proc0 x = kmem0 \<lparr>kpgdir = 0, kdata = 0x80108000, gdt = (\<lambda>_ _. SEG 0 0 0 0),
     ts = (\<lambda>_. \<lparr>ts_ss0 = 0, ts_esp0 = 0, ts_iomb = 0\<rparr>), ts_addr = (\<lambda>_. 0x80110000), r_gdt = (\<lambda>_. None),
     r_tr = (\<lambda>_. 0), procs = table0, nextpid = 4, initproc = Some 0, ticks = 100,
     sym_trapret = 0x80105000, sym_forkret = 0x80103000, \<dots> = x\<rparr>"

lemma proc0_mach [simp]: "mach_ok (proc0 x)" "lock_free l (proc0 x)" "me (proc0 x) = 0"
  by (simp_all add: proc0_def kmem0_def)

lemma proc0_fields [simp]:
  "procs (proc0 x) = table0" "nextpid (proc0 x) = 4" "ticks (proc0 x) = 100"
  "freelist (proc0 x) = 0x80400000" "cproc (cpus (proc0 x) ! 0) = Some 0" "ncli (cpus (proc0 x) ! 0) = 0"
  by (simp_all add: proc0_def kmem0_def mach0_def)

lemma proc0_kmem [simp]: "kmem_ready (proc0 x)" "free_pages (proc0 x) [0x80400000, 0x80401000]"
  by (simp_all add: proc0_def)

lemma table0_length [simp]: "length table0 = 64"
  by (simp add: table0_def)

lemma proc0_running [simp]: "proc_running (proc0 x) 0"
  by (simp add: proc_running_def)

lemma table0_unused: "find_index (\<lambda>p. p_state p = UNUSED) table0 = Some 3"
  "find_index (\<lambda>p. p_pid p = 0) table0 = Some 3"
proof -
  have "replicate 61 blank_proc = blank_proc # replicate 60 blank_proc"
    by (simp add: replicate_Suc [symmetric] del: replicate_Suc)
  then show "find_index (\<lambda>p. p_state p = UNUSED) table0 = Some 3"
      "find_index (\<lambda>p. p_pid p = 0) table0 = Some 3"
    by (simp_all add: table0_def blank_proc_def)
qed

theorem fifo_runs_oldest_witness: "\<exists>i. fifo_pick table0 = Some i \<and> p_state (table0 ! i) = RUNNABLE"
  using fifo_runs_oldest [of 1 table0] by (auto simp: table0_def)

theorem priority_runs_best_witness:
  "\<exists>i. priority_pick table0 = Some i \<and> p_priority (table0 ! i) \<le> 1"
proof -
  have two: "2 < length table0" "p_state (table0 ! 2) = RUNNABLE" "p_priority (table0 ! 2) = 1"
    by (simp_all add: table0_def)
  obtain i where i: "priority_pick table0 = Some i"
      "\<forall>k < length table0. p_state (table0 ! k) = RUNNABLE \<longrightarrow> p_priority (table0 ! i) \<le> p_priority (table0 ! k)"
    using priority_runs_best [OF two(1,2)] by blast
  show ?thesis using i(1) i(2) [rule_format, OF two(1,2)] two(3) by simp
qed


lemma sleep_with_lock_panics_example:
  "sleep ChTicks LTicks (lock_on LTicks (lock_on LCons (proc0 ()))) = Panic ''sched locks''"
  using sleep_with_lock_panics [of "lock_on LCons (proc0 ())" 0 LTicks ChTicks]
    ncli_lock_on [of "proc0 ()" LCons]
  by (simp add: mach_ok_lock_on)

theorem allocproc_new_process_witness:
  "\<exists>t. allocproc (proc0 ()) = Ret (Some 3) t \<and> p_pid (procs t ! 3) = 4"
  using allocproc_new_process [of "proc0 ()" "0x80400000" "[0x80401000]" 3] by (auto simp: table0_unused)

theorem kill_zero_poisons_slot_witness:
  "\<exists>t u. kill 0 (proc0 ()) = Ret 0 t \<and> allocproc t = Ret (Some 3) u \<and> p_killed (procs u ! 3)"
  using kill_zero_poisons_slot [of "proc0 ()" 3] by (simp add: table0_unused)

lemma wait_without_zombie_example:
  "\<exists>t. wait (proc0 ()) = Block (ChProc 0) t"
proof -
  have "p_state (table0 ! i) \<noteq> ZOMBIE" if "i < 64" for i
  proof -
    have "table0 ! i \<in> set table0" using that by simp
    then show ?thesis by (auto simp: table0_def blank_proc_def)
  qed
  moreover have "\<not> p_killed (table0 ! 0)" by (simp add: table0_def blank_proc_def)
  moreover have "\<exists>i < 64. p_parent (table0 ! i) = Some 0"
    by (rule exI [of _ 1]) (simp add: table0_def blank_proc_def)
  ultimately show ?thesis
    using wait_without_zombie [of "proc0 ()" 0] by auto
qed

end
