(* ===== verification/Sleeplock.thy ===== *)
theory Sleeplock
  imports Proc
begin

section \<open>Sleeping locks (sleeplock.c)\<close>

text \<open>
  Extends the state with the long-term locks of buffers and inodes. Each has a spinlock of its
  own, named \<open>LSleep l\<close>, and a process that finds it taken sleeps on the channel \<open>ChSleep l\<close>.
\<close>

record sleeplock =
  lk_locked :: bool
  lk_pid :: u32

record slock_st = proc_st +
  slocks :: "slname \<Rightarrow> sleeplock"

definition set_slock :: "slname \<Rightarrow> sleeplock \<Rightarrow> (unit, 'a slock_st_scheme) kop" where
  "set_slock l k = upd (\<lambda>s. s\<lparr>slocks := (slocks s)(l := k)\<rparr>)"

definition initsleeplock :: "slname \<Rightarrow> (unit, 'a slock_st_scheme) kop" where
  "initsleeplock l =
     thn (initlock (LSleep l) ''sleep lock'')
     (set_slock l \<lparr>lk_locked = False, lk_pid = 0\<rparr>)"

text \<open>The loop of \<open>acquiresleep\<close>, entered with the lock's spinlock held and again after a sleep.\<close>

definition acquiresleep_loop :: "slname \<Rightarrow> (unit, 'a slock_st_scheme) kop" where
  "acquiresleep_loop l =
     bnd (gets (\<lambda>s. lk_locked (slocks s l))) (\<lambda>b.
     if b then sleep (ChSleep l) (LSleep l) else
     thn (upd (\<lambda>s. s\<lparr>slocks := (slocks s)(l := (slocks s l)\<lparr>lk_locked := True\<rparr>)\<rparr>))
     (bnd curproc (\<lambda>p.
     bnd (get_proc p) (\<lambda>q.
     thn (upd (\<lambda>s. s\<lparr>slocks := (slocks s)(l := (slocks s l)\<lparr>lk_pid := p_pid q\<rparr>)\<rparr>))
     (release (LSleep l))))))"

definition acquiresleep :: "slname \<Rightarrow> (unit, 'a slock_st_scheme) kop" where
  "acquiresleep l = thn (acquire (LSleep l)) (acquiresleep_loop l)"

definition acquiresleep_resume :: "bool \<Rightarrow> nat \<Rightarrow> slname \<Rightarrow> (unit, 'a slock_st_scheme) kop" where
  "acquiresleep_resume b p l = thn (sleep_resume b p (LSleep l)) (acquiresleep_loop l)"

definition releasesleep :: "slname \<Rightarrow> (unit, 'a slock_st_scheme) kop" where
  "releasesleep l =
     thn (acquire (LSleep l))
     (thn (set_slock l \<lparr>lk_locked = False, lk_pid = 0\<rparr>)
     (thn (wakeup (ChSleep l))
     (release (LSleep l))))"

definition holdingsleep :: "slname \<Rightarrow> (bool, 'a slock_st_scheme) kop" where
  "holdingsleep l =
     thn (acquire (LSleep l))
     (bnd (gets (\<lambda>s. lk_locked (slocks s l))) (\<lambda>b.
     bnd (if b then bnd curproc (\<lambda>p. bnd (get_proc p) (\<lambda>q.
              gets (\<lambda>s. lk_pid (slocks s l) = p_pid q)))
          else ret False) (\<lambda>r.
     thn (release (LSleep l))
     (ret r))))"

subsection \<open>The layers below\<close>

lemma slock_over_mach [simp]:
  "slocks (lock_on l s) = slocks s" "slocks (settle s) = slocks s" "slocks (cli_on s) = slocks s"
  by (simp_all add: mach_on_defs)

lemma slock_me [simp]:
  "me (s\<lparr>slocks := x0\<rparr>) = me s"
  by (simp_all add: me_def cpu_ix_def lapicid_def)

lemma slock_mach [simp]:
  "mach_ok (s\<lparr>slocks := x0\<rparr>) = mach_ok s" "lock_free l (s\<lparr>slocks := x0\<rparr>) = lock_free l s"
  by (simp_all add: mach_ok_def lock_free_def cpu_ix_def lapicid_def readeflags_IF_def)

lemma slock_upd_on [simp]:
  "(lock_on l s)\<lparr>slocks := x0\<rparr> = lock_on l (s\<lparr>slocks := x0\<rparr>)"
  "(settle s)\<lparr>slocks := x0\<rparr> = settle (s\<lparr>slocks := x0\<rparr>)"
  by (simp_all add: lock_on_def settle_def cli_on_def set_cpu_def cli_def readeflags_IF_def cong: if_cong)

text \<open>
  \<open>quiet s p\<close>: process \<open>p\<close> runs in the kernel with no spinlock held by anyone. Routines that
  only take and return spinlocks keep it.
\<close>

definition quiet :: "'a proc_st_scheme \<Rightarrow> nat \<Rightarrow> bool" where
  "quiet s p \<longleftrightarrow> mach_ok s \<and> cproc (cpus s ! me s) = Some p \<and> p < length (procs s) \<and>
     ncli (cpus s ! me s) = 0 \<and> (\<forall>l. lock_free l s)"

lemma quietD:
  assumes "quiet s p"
  shows "mach_ok s" and "lock_free l s" and "p < length (procs s)" and "cproc (cpus s ! me s) = Some p"
    and "proc_running s p"
  using assms by (auto simp: quiet_def proc_running_def)

lemma ncli_settle [simp]: "mach_ok s \<Longrightarrow> ncli (cpus (settle s) ! j) = ncli (cpus s ! j)"
  using mach_ok_less [of s] by (cases "j = me s") (simp_all add: settle_def list_upd_def)

lemma quiet_settle [simp]: "quiet s p \<Longrightarrow> quiet (settle s) p"
  by (simp add: quiet_def mach_ok_settle)

lemma quiet_slocks [simp]: "quiet (s\<lparr>slocks := x\<rparr>) p = quiet s p"
  by (simp add: quiet_def)

lemma quiet_procs: "quiet s p \<Longrightarrow> length x = length (procs s) \<Longrightarrow> quiet (s\<lparr>procs := x\<rparr>) p"
  by (simp add: quiet_def)

lemma quiet_map [simp]: "quiet s p \<Longrightarrow> quiet (s\<lparr>procs := map f (procs s)\<rparr>) p"
  by (simp add: quiet_procs)

definition mypid :: "'a proc_st_scheme \<Rightarrow> nat \<Rightarrow> u32" where
  "mypid s p = p_pid (procs s ! p)"

definition woken :: "chan \<Rightarrow> proc list \<Rightarrow> proc list" where
  "woken ch = map (\<lambda>p. if p_state p = SLEEPING \<and> p_chan p = Some ch then p\<lparr>p_state := RUNNABLE\<rparr> else p)"

lemma length_woken [simp]: "length (woken ch ps) = length ps"
  by (simp add: woken_def)

lemma woken_pid [simp]: "i < length ps \<Longrightarrow> p_pid (woken ch ps ! i) = p_pid (ps ! i)"
  by (simp add: woken_def)

lemma wakeup_ok:
  assumes "mach_ok s" and "lock_free LPtable s"
  shows "wakeup ch s = Ret () (settle (s\<lparr>procs := woken ch (procs s)\<rparr>))"
  using assms by (simp add: wakeup_def wakeup1_def kop acquire_ok release_on woken_def)

subsection \<open>What the operations do\<close>

lemma sleeplock_both [simp]: "(k :: sleeplock)\<lparr>lk_locked := a, lk_pid := b\<rparr> = \<lparr>lk_locked = a, lk_pid = b\<rparr>"
  by (rule sleeplock.equality) simp_all

lemma acquiresleep_ok:
  assumes "quiet s p" and "\<not> lk_locked (slocks s l)"
  shows "acquiresleep l s =
     Ret () (settle (s\<lparr>slocks := (slocks s)(l := \<lparr>lk_locked = True, lk_pid = mypid s p\<rparr>)\<rparr>))"
proof -
  let ?s1 = "s\<lparr>slocks := (slocks s)(l := (slocks s l)\<lparr>lk_locked := True\<rparr>)\<rparr>"
  have "curproc (lock_on (LSleep l) ?s1) = Ret p (lock_on (LSleep l) ?s1)"
    using quietD [OF assms(1)] by (simp add: curproc_ok mach_ok_lock_on)
  then show ?thesis
    using assms quietD [OF assms(1)]
    by (simp add: acquiresleep_def acquiresleep_loop_def kop acquire_ok release_on get_proc_def mypid_def)
qed

lemma acquiresleep_blocks:
  assumes "quiet s p" and "lk_locked (slocks s l)"
  shows "acquiresleep l s = Block (ChSleep l) (lock_on LPtable (s\<lparr>procs := list_upd (procs s) p
     (\<lambda>q. q\<lparr>p_chan := Some (ChSleep l), p_state := SLEEPING\<rparr>)\<rparr>))"
  using assms quietD [OF assms(1)]
  by (simp add: acquiresleep_def acquiresleep_loop_def kop acquire_ok sleep_ok)

lemma releasesleep_ok:
  assumes "quiet s p"
  shows "releasesleep l s = Ret () (settle (s\<lparr>slocks := (slocks s)(l := \<lparr>lk_locked = False, lk_pid = 0\<rparr>),
     procs := woken (ChSleep l) (procs s)\<rparr>))"
  using assms quietD [OF assms(1)]
  by (simp add: releasesleep_def kop acquire_ok release_on set_slock_def wakeup_ok mach_ok_lock_on)

lemma holdingsleep_ok:
  assumes "quiet s p"
  shows "holdingsleep l s = Ret (lk_locked (slocks s l) \<and> lk_pid (slocks s l) = mypid s p) (settle s)"
proof -
  have "curproc (lock_on (LSleep l) s) = Ret p (lock_on (LSleep l) s)"
    using quietD [OF assms] by (simp add: curproc_ok mach_ok_lock_on)
  then show ?thesis
    using quietD [OF assms]
    by (simp add: holdingsleep_def kop acquire_ok release_on get_proc_def mypid_def)
qed


definition slock0 :: "'a \<Rightarrow> 'a slock_st_scheme" where
  "slock0 x = proc0 \<lparr>slocks = (\<lambda>_. \<lparr>lk_locked = False, lk_pid = 0\<rparr>), \<dots> = x\<rparr>"

lemma slock0_fields [simp]:
  "procs (slock0 x) = table0" "slocks (slock0 x) l = \<lparr>lk_locked = False, lk_pid = 0\<rparr>"
  "mypid (slock0 x) 0 = 1"
  by (simp_all add: slock0_def mypid_def) (simp_all add: proc0_def kmem0_def mach0_def table0_def)

lemma slock0_quiet [simp]: "quiet (slock0 x) 0"
  by (simp add: quiet_def slock0_def)


end
