(* ===== verification/Blockdata.thy ===== *)
theory Blockdata
  imports Mmu
begin

section \<open>Contents of disk blocks\<close>

text \<open>
  A disk block and a buffer's \<open>data\<close> are lists of \<open>BSIZE\<close> bytes. The C code reads and writes
  them through pointers to structures; here \<open>get32\<close>, \<open>get16\<close> and their \<open>put\<close> counterparts access
  the little-endian words at a byte offset, and \<open>blit\<close> is \<open>memmove\<close> into the middle of a block.
\<close>

abbreviation (input) BSIZE :: nat where "BSIZE \<equiv> 512"

type_synonym block = "u8 list"

definition blit :: "'a list \<Rightarrow> nat \<Rightarrow> 'a list \<Rightarrow> 'a list" where
  "blit xs off ys = take off xs @ ys @ drop (off + length ys) xs"

definition le32 :: "u32 \<Rightarrow> u8 list" where
  "le32 v = [ucast v, ucast (drop_bit 8 v), ucast (drop_bit 16 v), ucast (drop_bit 24 v)]"

definition get32 :: "block \<Rightarrow> nat \<Rightarrow> u32" where
  "get32 d i = ucast (d ! i) OR push_bit 8 (ucast (d ! (i + 1)))
     OR push_bit 16 (ucast (d ! (i + 2))) OR push_bit 24 (ucast (d ! (i + 3)))"

definition put32 :: "block \<Rightarrow> nat \<Rightarrow> u32 \<Rightarrow> block" where
  "put32 d i v = blit d i (le32 v)"

definition le16 :: "u16 \<Rightarrow> u8 list" where
  "le16 v = [ucast v, ucast (drop_bit 8 v)]"

definition get16 :: "block \<Rightarrow> nat \<Rightarrow> u16" where
  "get16 d i = ucast (d ! i) OR push_bit 8 (ucast (d ! (i + 1)))"

definition put16 :: "block \<Rightarrow> nat \<Rightarrow> u16 \<Rightarrow> block" where
  "put16 d i v = blit d i (le16 v)"

definition zero_block :: block where
  "zero_block = replicate BSIZE 0"

subsection \<open>Laws\<close>

lemma length_zero_block [simp]: "length zero_block = 512"
  by (simp add: zero_block_def)

lemma length_blit [simp]: "off + length ys \<le> length xs \<Longrightarrow> length (blit xs off ys) = length xs"
  by (simp add: blit_def)

lemma nth_blit:
  assumes "off + length ys \<le> length xs"
  shows "blit xs off ys ! i = (if off \<le> i \<and> i < off + length ys then ys ! (i - off) else xs ! i)"
proof -
  consider "i < off" | "off \<le> i \<and> i < off + length ys" | "off + length ys \<le> i" by linarith
  then show ?thesis
  proof cases
    case 3
    then have "i - off - length ys + (off + length ys) = i" by simp
    with 3 assms show ?thesis
      by (auto simp: blit_def nth_append nth_drop add.commute)
  qed (use assms in \<open>auto simp: blit_def nth_append\<close>)
qed

lemma take_drop_blit [simp]:
  "off + length ys \<le> length xs \<Longrightarrow> take (length ys) (drop off (blit xs off ys)) = ys"
  by (simp add: blit_def)

lemma blit_whole [simp]: "length ys = length xs \<Longrightarrow> blit xs 0 ys = ys"
  by (simp add: blit_def)

lemma length_le [simp]: "length (le32 v) = 4" "length (le16 w) = 2"
  by (simp_all add: le32_def le16_def)

lemma length_put [simp]:
  "i + 4 \<le> length d \<Longrightarrow> length (put32 d i v) = length d"
  "i + 2 \<le> length d \<Longrightarrow> length (put16 d i w) = length d"
  by (simp_all add: put32_def put16_def)

lemma get32_cong:
  assumes "\<And>k. k < 4 \<Longrightarrow> d ! (i + k) = e ! (i + k)"
  shows "get32 d i = get32 e i"
  using assms [of 0] assms [of 1] assms [of 2] assms [of 3] by (simp add: get32_def)

lemma get32_put32 [simp]: "i + 4 \<le> length d \<Longrightarrow> get32 (put32 d i v) i = v"
  by (simp add: get32_def put32_def nth_blit le32_def word_of_bytes)

lemma get32_put32_other:
  assumes "i + 4 \<le> length d" and "j + 4 \<le> i \<or> i + 4 \<le> j"
  shows "get32 (put32 d i v) j = get32 d j"
  using assms by (intro get32_cong) (auto simp: put32_def nth_blit)

lemma u16_of_bytes:
  "(ucast (ucast v :: u8) :: u16) OR push_bit 8 (ucast (ucast (drop_bit 8 v) :: u8)) = v"
proof (rule bit_word_eqI)
  fix n :: nat
  assume "n < LENGTH(16)"
  then consider "n < 8" | "8 \<le> n \<and> n < 16" by force
  then show "bit ((ucast (ucast v :: u8) :: u16) OR push_bit 8 (ucast (ucast (drop_bit 8 v) :: u8))) n = bit v n"
    by cases (auto simp: bit_simps)
qed

lemma get16_put16 [simp]: "i + 2 \<le> length d \<Longrightarrow> get16 (put16 d i v) i = v"
  by (simp add: get16_def put16_def nth_blit le16_def u16_of_bytes)

lemma get16_put16_other:
  "i + 2 \<le> length d \<Longrightarrow> j + 2 \<le> i \<or> i + 2 \<le> j \<Longrightarrow> get16 (put16 d i v) j = get16 d j"
  by (auto simp: get16_def put16_def nth_blit)

end
