(* ===== verification/Bio.thy ===== *)
theory Bio
  imports Sleeplock Blockdata
begin

section \<open>The buffer cache and the memory disk (bio.c, buf.h, memide.c)\<close>

text \<open>
  Extends the state with the buffer cache and a disk. Buffers are indices into \<open>bufs\<close>; the
  doubly linked list through \<open>prev\<close> and \<open>next\<close> is the list \<open>lru\<close> of buffers from \<open>head.next\<close> (most
  recently used) to \<open>head.prev\<close> (theory Lru shows that the pointer operations of bio.c maintain
  it). The flags \<open>B_VALID\<close> and \<open>B_DIRTY\<close> are two booleans.

  The disk driver is memide.c, the driver of the kernel's memory-disk build; the queueing driver
  ide.c is modelled in theory Ide. \<open>dtrace\<close> is not part of the program: it records the blocks
  written to the disk in order, so that crashes between two writes can be described.
\<close>

subsection \<open>State\<close>

record buf =
  b_valid :: bool
  b_dirty :: bool
  b_dev :: u32
  b_blockno :: u32
  b_refcnt :: u32
  b_data :: block

record bio_st = slock_st +
  bufs :: "buf list"
  lru :: "nat list"
  disk :: "nat \<Rightarrow> block"
  disksize :: u32
  dtrace :: "(nat \<times> block) list"

abbreviation (input) NBUF :: nat where "NBUF \<equiv> 30"

definition set_buf :: "nat \<Rightarrow> (buf \<Rightarrow> buf) \<Rightarrow> (unit, 'a bio_st_scheme) kop" where
  "set_buf b f = upd (\<lambda>s. s\<lparr>bufs := list_upd (bufs s) b f\<rparr>)"

definition get_buf :: "nat \<Rightarrow> (buf, 'a bio_st_scheme) kop" where
  "get_buf b = gets (\<lambda>s. bufs s ! b)"

definition disk_write :: "nat \<Rightarrow> block \<Rightarrow> (unit, 'a bio_st_scheme) kop" where
  "disk_write n d = upd (\<lambda>s. s\<lparr>disk := (disk s)(n := d), dtrace := dtrace s @ [(n, d)]\<rparr>)"

subsection \<open>memide.c\<close>

definition iderw :: "nat \<Rightarrow> (unit, 'a bio_st_scheme) kop" where
  "iderw b =
     bnd (holdingsleep (SLBuf b)) (\<lambda>h.
     if \<not> h then kpanic ''iderw: buf not locked'' else
     bnd (get_buf b) (\<lambda>x.
     if b_valid x \<and> \<not> b_dirty x then kpanic ''iderw: nothing to do''
     else if b_dev x \<noteq> 1 then kpanic ''iderw: request not for disk 1'' else
     bnd (gets disksize) (\<lambda>n.
     if b_blockno x \<ge> n then kpanic ''iderw: block out of range'' else
     thn (if b_dirty x
          then thn (set_buf b (\<lambda>x. x\<lparr>b_dirty := False\<rparr>)) (disk_write (unat (b_blockno x)) (b_data x))
          else bnd (gets (\<lambda>s. disk s (unat (b_blockno x)))) (\<lambda>d. set_buf b (\<lambda>x. x\<lparr>b_data := d\<rparr>)))
     (set_buf b (\<lambda>x. x\<lparr>b_valid := True\<rparr>)))))"

text \<open>
  \<open>_binary_fs_img_start\<close> and \<open>_binary_fs_img_size\<close> are supplied by the linker: the bytes from
  the start of the image on and its length.
\<close>

definition ideinit :: "(nat \<Rightarrow> u8) \<Rightarrow> u32 \<Rightarrow> (unit, 'a bio_st_scheme) kop" where
  "ideinit img sz = upd (\<lambda>s. s\<lparr>disk := (\<lambda>n. map (\<lambda>i. img (n * 512 + i)) [0..<512]), disksize := sz div 512\<rparr>)"

subsection \<open>bio.c\<close>

definition binit :: "(unit, 'a bio_st_scheme) kop" where
  "binit =
     thn (initlock LBcache ''bcache'')
     (thn (upd (\<lambda>s. s\<lparr>lru := []\<rparr>))
     (kfor [0..<NBUF] (\<lambda>b.
        thn (initsleeplock (SLBuf b))
        (upd (\<lambda>s. s\<lparr>lru := b # lru s\<rparr>)))))"

definition bget :: "u32 \<Rightarrow> u32 \<Rightarrow> (nat, 'a bio_st_scheme) kop" where
  "bget dev blockno =
     thn (acquire LBcache)
     (bnd (gets (\<lambda>s. find (\<lambda>b. b_dev (bufs s ! b) = dev \<and> b_blockno (bufs s ! b) = blockno) (lru s))) (\<lambda>cached.
     case cached of
       Some b \<Rightarrow>
         thn (set_buf b (\<lambda>x. x\<lparr>b_refcnt := b_refcnt x + 1\<rparr>))
         (thn (release LBcache)
         (thn (acquiresleep (SLBuf b))
         (ret b)))
     | None \<Rightarrow>
         bnd (gets (\<lambda>s. find (\<lambda>b. b_refcnt (bufs s ! b) = 0 \<and> \<not> b_dirty (bufs s ! b)) (rev (lru s)))) (\<lambda>unused.
         case unused of
           Some b \<Rightarrow>
             thn (set_buf b (\<lambda>x. x\<lparr>b_dev := dev, b_blockno := blockno, b_valid := False,
                b_dirty := False, b_refcnt := 1\<rparr>))
             (thn (release LBcache)
             (thn (acquiresleep (SLBuf b))
             (ret b)))
         | None \<Rightarrow> kpanic ''bget: no buffers'')))"

definition bread :: "u32 \<Rightarrow> u32 \<Rightarrow> (nat, 'a bio_st_scheme) kop" where
  "bread dev blockno =
     bnd (bget dev blockno) (\<lambda>b.
     bnd (get_buf b) (\<lambda>x.
     thn (kwhen (\<not> b_valid x) (iderw b))
     (ret b)))"

definition bwrite :: "nat \<Rightarrow> (unit, 'a bio_st_scheme) kop" where
  "bwrite b =
     bnd (holdingsleep (SLBuf b)) (\<lambda>h.
     if \<not> h then kpanic ''bwrite'' else
     thn (set_buf b (\<lambda>x. x\<lparr>b_dirty := True\<rparr>))
     (iderw b))"

definition brelse :: "nat \<Rightarrow> (unit, 'a bio_st_scheme) kop" where
  "brelse b =
     bnd (holdingsleep (SLBuf b)) (\<lambda>h.
     if \<not> h then kpanic ''brelse'' else
     thn (releasesleep (SLBuf b))
     (thn (acquire LBcache)
     (thn (set_buf b (\<lambda>x. x\<lparr>b_refcnt := b_refcnt x - 1\<rparr>))
     (bnd (get_buf b) (\<lambda>x.
     thn (kwhen (b_refcnt x = 0) (upd (\<lambda>s. s\<lparr>lru := b # remove1 b (lru s)\<rparr>)))
     (release LBcache))))))"

subsection \<open>The layers below\<close>

lemma bio_over_mach [simp]:
  "bufs (lock_on l s) = bufs s" "bufs (settle s) = bufs s" "bufs (cli_on s) = bufs s"
  "lru (lock_on l s) = lru s" "lru (settle s) = lru s" "lru (cli_on s) = lru s"
  "disk (lock_on l s) = disk s" "disk (settle s) = disk s" "disk (cli_on s) = disk s"
  "dtrace (lock_on l s) = dtrace s" "dtrace (settle s) = dtrace s" "dtrace (cli_on s) = dtrace s"
  by (simp_all add: mach_on_defs)

lemma bio_me [simp]:
  "me (s\<lparr>bufs := x0\<rparr>) = me s"
  "me (s\<lparr>lru := x1\<rparr>) = me s"
  "me (s\<lparr>disk := x2\<rparr>) = me s"
  "me (s\<lparr>dtrace := x3\<rparr>) = me s"
  by (simp_all add: me_def cpu_ix_def lapicid_def)

lemma bio_mach [simp]:
  "mach_ok (s\<lparr>bufs := x0\<rparr>) = mach_ok s" "lock_free l (s\<lparr>bufs := x0\<rparr>) = lock_free l s"
  "mach_ok (s\<lparr>lru := x1\<rparr>) = mach_ok s" "lock_free l (s\<lparr>lru := x1\<rparr>) = lock_free l s"
  "mach_ok (s\<lparr>disk := x2\<rparr>) = mach_ok s" "lock_free l (s\<lparr>disk := x2\<rparr>) = lock_free l s"
  "mach_ok (s\<lparr>dtrace := x3\<rparr>) = mach_ok s" "lock_free l (s\<lparr>dtrace := x3\<rparr>) = lock_free l s"
  by (simp_all add: mach_ok_def lock_free_def cpu_ix_def lapicid_def readeflags_IF_def)

lemma bio_upd_on [simp]:
  "(lock_on l s)\<lparr>bufs := x0\<rparr> = lock_on l (s\<lparr>bufs := x0\<rparr>)"
  "(settle s)\<lparr>bufs := x0\<rparr> = settle (s\<lparr>bufs := x0\<rparr>)"
  "(lock_on l s)\<lparr>lru := x1\<rparr> = lock_on l (s\<lparr>lru := x1\<rparr>)"
  "(settle s)\<lparr>lru := x1\<rparr> = settle (s\<lparr>lru := x1\<rparr>)"
  "(lock_on l s)\<lparr>disk := x2\<rparr> = lock_on l (s\<lparr>disk := x2\<rparr>)"
  "(settle s)\<lparr>disk := x2\<rparr> = settle (s\<lparr>disk := x2\<rparr>)"
  "(lock_on l s)\<lparr>dtrace := x3\<rparr> = lock_on l (s\<lparr>dtrace := x3\<rparr>)"
  "(settle s)\<lparr>dtrace := x3\<rparr> = settle (s\<lparr>dtrace := x3\<rparr>)"
  by (simp_all add: lock_on_def settle_def cli_on_def set_cpu_def cli_def readeflags_IF_def cong: if_cong)

lemma bio_const [simp]: "disksize (lock_on l s) = disksize s" "disksize (settle s) = disksize s"
  "bio_st.more (lock_on l s) = bio_st.more s" "bio_st.more (settle s) = bio_st.more s"
  by (simp_all add: mach_on_defs)

lemma quiet_bio [simp]:
  "quiet (s\<lparr>bufs := x\<rparr>) p = quiet s p" "quiet (s\<lparr>lru := y\<rparr>) p = quiet s p"
  "quiet (s\<lparr>disk := z\<rparr>) p = quiet s p" "quiet (s\<lparr>dtrace := w\<rparr>) p = quiet s p"
  by (simp_all add: quiet_def)

lemma mypid_upd [simp]:
  "mypid (settle s) p = mypid s p" "mypid (s\<lparr>slocks := a\<rparr>) p = mypid s p"
  "mypid (s\<lparr>bufs := x\<rparr>) p = mypid s p" "mypid (s\<lparr>lru := y\<rparr>) p = mypid s p"
  "mypid (s\<lparr>disk := z\<rparr>) p = mypid s p" "mypid (s\<lparr>dtrace := w\<rparr>) p = mypid s p"
  by (simp_all add: mypid_def)

subsection \<open>Each operation on a quiet machine\<close>

lemma bget_hit:
  assumes "quiet s p"
    and "find (\<lambda>b. b_dev (bufs s ! b) = dev \<and> b_blockno (bufs s ! b) = n) (lru s) = Some b"
    and "\<not> lk_locked (slocks s (SLBuf b))"
  shows "bget dev n s = Ret b (settle (s\<lparr>bufs := list_upd (bufs s) b (\<lambda>x. x\<lparr>b_refcnt := b_refcnt x + 1\<rparr>),
     slocks := (slocks s)(SLBuf b := \<lparr>lk_locked = True, lk_pid = mypid s p\<rparr>)\<rparr>))"
  using assms quietD [OF assms(1)]
  by (simp add: bget_def kop acquire_ok release_on set_buf_def acquiresleep_ok [where p = p])

lemma bget_miss:
  assumes "quiet s p"
    and "find (\<lambda>b. b_dev (bufs s ! b) = dev \<and> b_blockno (bufs s ! b) = n) (lru s) = None"
    and "find (\<lambda>b. b_refcnt (bufs s ! b) = 0 \<and> \<not> b_dirty (bufs s ! b)) (rev (lru s)) = Some b"
    and "\<not> lk_locked (slocks s (SLBuf b))"
  shows "bget dev n s = Ret b (settle (s\<lparr>bufs := list_upd (bufs s) b (\<lambda>x. x\<lparr>b_dev := dev, b_blockno := n,
       b_valid := False, b_dirty := False, b_refcnt := 1\<rparr>),
     slocks := (slocks s)(SLBuf b := \<lparr>lk_locked = True, lk_pid = mypid s p\<rparr>)\<rparr>))"
  using assms quietD [OF assms(1)]
  by (simp add: bget_def kop acquire_ok release_on set_buf_def acquiresleep_ok [where p = p])

lemma iderw_reads:
  assumes "quiet s p" and "slocks s (SLBuf b) = \<lparr>lk_locked = True, lk_pid = mypid s p\<rparr>"
    and "b < length (bufs s)" and "\<not> b_valid (bufs s ! b)" and "\<not> b_dirty (bufs s ! b)"
    and "b_dev (bufs s ! b) = 1" and "b_blockno (bufs s ! b) < disksize s"
  shows "iderw b s = Ret () (settle (s\<lparr>bufs := list_upd (bufs s) b
     (\<lambda>x. x\<lparr>b_data := disk s (unat (b_blockno x)), b_valid := True\<rparr>)\<rparr>))"
  using assms quietD [OF assms(1)]
  by (simp add: iderw_def kop holdingsleep_ok [OF assms(1)] get_buf_def set_buf_def comp_def list_upd_def not_le)

lemma iderw_writes:
  assumes "quiet s p" and "slocks s (SLBuf b) = \<lparr>lk_locked = True, lk_pid = mypid s p\<rparr>"
    and "b < length (bufs s)" and "b_dirty (bufs s ! b)"
    and "b_dev (bufs s ! b) = 1" and "b_blockno (bufs s ! b) < disksize s"
  shows "iderw b s = Ret () (settle (s\<lparr>disk := (disk s)(unat (b_blockno (bufs s ! b)) := b_data (bufs s ! b)),
     dtrace := dtrace s @ [(unat (b_blockno (bufs s ! b)), b_data (bufs s ! b))],
     bufs := list_upd (bufs s) b (\<lambda>x. x\<lparr>b_dirty := False, b_valid := True\<rparr>)\<rparr>))"
  using assms quietD [OF assms(1)]
  by (simp add: iderw_def kop holdingsleep_ok [OF assms(1)] get_buf_def set_buf_def disk_write_def
      comp_def list_upd_def not_le)

subsection \<open>The invariant of the cache\<close>

text \<open>
  \<open>bio_ok s p H\<close>: process \<open>p\<close> is the only user of the cache and holds exactly the buffers in \<open>H\<close>.
  Every buffer is on the list once; two buffers never hold the same block; a buffer that is
  neither held nor dirty agrees with the disk.
\<close>

definition buf_ok :: "bool \<Rightarrow> u32 \<Rightarrow> sleeplock \<Rightarrow> (nat \<Rightarrow> block) \<Rightarrow> buf \<Rightarrow> bool" where
  "buf_ok hld pid lk dk x \<longleftrightarrow>
     length (b_data x) = 512 \<and> b_refcnt x = (if hld then 1 else 0) \<and> lk_locked lk = hld \<and>
     (hld \<longrightarrow> lk_pid lk = pid \<and> b_dev x = 1 \<and> b_valid x) \<and>
     (b_dirty x \<longrightarrow> b_dev x = 1 \<and> b_valid x) \<and>
     (\<not> hld \<and> b_dev x = 1 \<longrightarrow> b_valid x) \<and>
     (b_dev x = 1 \<and> \<not> b_dirty x \<and> \<not> hld \<longrightarrow> b_data x = dk (unat (b_blockno x)))"

definition bio_ok :: "'a bio_st_scheme \<Rightarrow> nat \<Rightarrow> nat set \<Rightarrow> bool" where
  "bio_ok s p H \<longleftrightarrow>
     quiet s p \<and> length (bufs s) = 30 \<and> distinct (lru s) \<and> set (lru s) = {0..<30} \<and> H \<subseteq> {0..<30} \<and>
     (\<forall>n. length (disk s n) = 512) \<and>
     (\<forall>b < 30. buf_ok (b \<in> H) (mypid s p) (slocks s (SLBuf b)) (disk s) (bufs s ! b)) \<and>
     (\<forall>b < 30. \<forall>c < 30. b_dev (bufs s ! b) = 1 \<and> b_dev (bufs s ! c) = 1 \<and>
        b_blockno (bufs s ! b) = b_blockno (bufs s ! c) \<longrightarrow> b = c)"

text \<open>The buffer of a block, and the content of a block as the kernel sees it through the cache.\<close>

definition cached :: "'a bio_st_scheme \<Rightarrow> u32 \<Rightarrow> nat option" where
  "cached s n = find_index (\<lambda>x. b_dev x = 1 \<and> b_blockno x = n) (bufs s)"

definition blk :: "'a bio_st_scheme \<Rightarrow> u32 \<Rightarrow> block" where
  "blk s n = (case cached s n of Some b \<Rightarrow> b_data (bufs s ! b) | None \<Rightarrow> disk s (unat n))"

definition dirty_blocks :: "'a bio_st_scheme \<Rightarrow> u32 set" where
  "dirty_blocks s = {b_blockno x |x. x \<in> set (bufs s) \<and> b_dirty x}"

lemma bio_okD:
  assumes "bio_ok s p H"
  shows "quiet s p" and "length (bufs s) = 30" and "b < 30 \<Longrightarrow> b \<in> set (lru s)" and "H \<subseteq> {0..<30}"
    and "length (disk s n) = 512" and "b \<in> set (lru s) \<Longrightarrow> b < 30" and "distinct (lru s)"
    and "b < 30 \<Longrightarrow> buf_ok (b \<in> H) (mypid s p) (slocks s (SLBuf b)) (disk s) (bufs s ! b)"
    and "b < 30 \<Longrightarrow> c < 30 \<Longrightarrow> b_dev (bufs s ! b) = 1 \<Longrightarrow> b_dev (bufs s ! c) = 1 \<Longrightarrow>
        b_blockno (bufs s ! b) = b_blockno (bufs s ! c) \<Longrightarrow> b = c"
  using assms by (auto simp: bio_ok_def)

lemma cachedD:
  assumes "cached s n = Some b"
  shows "b < length (bufs s)" and "b_dev (bufs s ! b) = 1" and "b_blockno (bufs s ! b) = n"
  using assms by (auto simp: cached_def find_index_Some_iff)

lemma cached_NoneD: "cached s n = None \<Longrightarrow> b < length (bufs s) \<Longrightarrow> b_dev (bufs s ! b) = 1 \<Longrightarrow> b_blockno (bufs s ! b) \<noteq> n"
  by (auto simp: cached_def find_index_None_iff dest: nth_mem)

lemma cachedI:
  assumes "bio_ok s p H" and "b < 30" and "b_dev (bufs s ! b) = 1"
  shows "cached s (b_blockno (bufs s ! b)) = Some b"
proof (cases "cached s (b_blockno (bufs s ! b))")
  case None
  then show ?thesis using cached_NoneD [OF None, of b] assms bio_okD(2) [OF assms(1)] by simp
next
  case (Some c)
  then show ?thesis using cachedD [OF Some] assms bio_okD(2,9) [OF assms(1)] by auto
qed

lemma find_cached:
  assumes "bio_ok s p H"
  shows "find (\<lambda>b. b_dev (bufs s ! b) = 1 \<and> b_blockno (bufs s ! b) = n) (lru s) = cached s n"
proof (cases "cached s n")
  case None
  then show ?thesis
    using cached_NoneD [OF None] bio_okD(2,6) [OF assms] by (auto simp: find_None_iff)
next
  case (Some b)
  have b: "b < 30" "b_dev (bufs s ! b) = 1" "b_blockno (bufs s ! b) = n"
    using cachedD [OF Some] bio_okD(2) [OF assms] by auto
  then have "find (\<lambda>b. b_dev (bufs s ! b) = 1 \<and> b_blockno (bufs s ! b) = n) (lru s) \<noteq> None"
    using bio_okD(3) [OF assms] by (auto simp: find_None_iff)
  then obtain c where c: "find (\<lambda>b. b_dev (bufs s ! b) = 1 \<and> b_blockno (bufs s ! b) = n) (lru s) = Some c"
    by auto
  then have "c < 30 \<and> b_dev (bufs s ! c) = 1 \<and> b_blockno (bufs s ! c) = n"
    using bio_okD(6) [OF assms] by (auto simp: find_Some_iff)
  then show ?thesis using c b Some bio_okD(9) [OF assms, of b c] by simp
qed

lemma blk_cached: "bio_ok s p H \<Longrightarrow> b < 30 \<Longrightarrow> b_dev (bufs s ! b) = 1 \<Longrightarrow>
    blk s (b_blockno (bufs s ! b)) = b_data (bufs s ! b)"
  by (simp add: blk_def cachedI)

lemma blk_uncached:
  "length (bufs s) = 30 \<Longrightarrow> (\<And>b. b < 30 \<Longrightarrow> b_dev (bufs s ! b) = 1 \<Longrightarrow> b_blockno (bufs s ! b) \<noteq> m) \<Longrightarrow>
    blk s m = disk s (unat m)"
  using cachedD [of s m] by (auto simp: blk_def split: option.splits)

lemma dirty_blocks_nth:
  "length (bufs s) = 30 \<Longrightarrow> dirty_blocks s = {b_blockno (bufs s ! b) |b. b < 30 \<and> b_dirty (bufs s ! b)}"
  unfolding dirty_blocks_def by (fastforce simp: in_set_conv_nth)

lemma dirty_blocks_cong:
  assumes "length (bufs s) = 30" and "length (bufs t) = 30"
    and "\<And>c. c < 30 \<Longrightarrow> b_dirty (bufs t ! c) = b_dirty (bufs s ! c)"
    and "\<And>c. c < 30 \<Longrightarrow> b_dirty (bufs s ! c) \<Longrightarrow> b_blockno (bufs t ! c) = b_blockno (bufs s ! c)"
  shows "dirty_blocks t = dirty_blocks s"
  unfolding dirty_blocks_nth [OF assms(1)] dirty_blocks_nth [OF assms(2)]
  using assms(3,4) by (intro Collect_cong ex_cong1) auto

text \<open>What \<open>bread\<close>, \<open>bwrite\<close> and \<open>brelse\<close> keep of the rest of the state.\<close>

definition bio_frame :: "'a bio_st_scheme \<Rightarrow> 'a bio_st_scheme \<Rightarrow> bool" where
  "bio_frame s t \<longleftrightarrow> disksize t = disksize s \<and> bio_st.more t = bio_st.more s"

lemma bio_frame_refl [simp]: "bio_frame s s"
  by (simp add: bio_frame_def)

lemma bio_frame_trans: "bio_frame s t \<Longrightarrow> bio_frame t u \<Longrightarrow> bio_frame s u"
  by (simp add: bio_frame_def)

definition bread_post :: "'a bio_st_scheme \<Rightarrow> nat \<Rightarrow> nat set \<Rightarrow> u32 \<Rightarrow> nat \<Rightarrow> 'a bio_st_scheme \<Rightarrow> bool" where
  "bread_post s p H n b t \<longleftrightarrow> bio_ok t p (insert b H) \<and> b \<notin> H \<and> b < 30 \<and> b_blockno (bufs t ! b) = n \<and>
     b_data (bufs t ! b) = blk s n \<and> disk t = disk s \<and> dtrace t = dtrace s \<and> bio_frame s t \<and>
     blk t = blk s \<and> dirty_blocks t = dirty_blocks s \<and> (\<forall>c. c \<noteq> b \<longrightarrow> bufs t ! c = bufs s ! c)"

lemma bread_hit:
  assumes ok: "bio_ok s p H" and c: "cached s n = Some b" and "b \<notin> H"
  shows "\<exists>t. bread 1 n s = Ret b t \<and> bread_post s p H n b t"
proof -
  define t where "t = settle (s\<lparr>bufs := list_upd (bufs s) b (\<lambda>x. x\<lparr>b_refcnt := b_refcnt x + 1\<rparr>),
     slocks := (slocks s)(SLBuf b := \<lparr>lk_locked = True, lk_pid = mypid s p\<rparr>)\<rparr>)"
  have b: "b < 30" "b_dev (bufs s ! b) = 1" "b_blockno (bufs s ! b) = n" "length (bufs s) = 30"
    using cachedD [OF c] bio_okD(2) [OF ok] by auto
  have bo: "buf_ok False (mypid s p) (slocks s (SLBuf b)) (disk s) (bufs s ! b)"
    using bio_okD(8) [OF ok, of b] b assms(3) by simp
  then have "bget 1 n s = Ret b t"
    unfolding t_def using bio_okD(1) [OF ok] c find_cached [OF ok]
    by (intro bget_hit) (auto simp: buf_ok_def)
  moreover have "b_valid (bufs t ! b)" using bo b by (simp add: t_def buf_ok_def)
  ultimately have run: "bread 1 n s = Ret b t" by (simp add: bread_def kop get_buf_def)
  have same: "b_dev (bufs t ! c) = b_dev (bufs s ! c) \<and> b_blockno (bufs t ! c) = b_blockno (bufs s ! c) \<and>
      b_data (bufs t ! c) = b_data (bufs s ! c) \<and> b_dirty (bufs t ! c) = b_dirty (bufs s ! c)" if "c < 30" for c
    using that b(4) by (simp add: t_def)
  have bt: "buf_ok (c \<in> insert b H) (mypid t p) (slocks t (SLBuf c)) (disk t) (bufs t ! c)" if "c < 30" for c
    using that bio_okD(8) [OF ok that] bo b by (auto simp: t_def buf_ok_def)
  have okt: "bio_ok t p (insert b H)"
    unfolding bio_ok_def using bt same b ok
    by (auto simp: bio_ok_def t_def)
  have "blk t m = blk s m" for m
  proof -
    have "cached t m = cached s m"
      unfolding cached_def using b(1,4) by (auto simp: t_def list_upd_def find_index_update)
    then show ?thesis
      using cachedD(1) [of s m] same b(4) by (auto simp: blk_def t_def split: option.splits)
  qed
  then have "blk t = blk s" by auto
  moreover have "dirty_blocks t = dirty_blocks s"
    using same b(4) by (intro dirty_blocks_cong) (auto simp: t_def)
  ultimately show ?thesis
    using run okt assms(3) b blk_cached [OF ok b(1,2)]
    by (auto simp: bread_post_def t_def bio_frame_def list_upd_def)
qed

lemma bread_miss:
  assumes ok: "bio_ok s p H" and c: "cached s n = None" and n: "n < disksize s"
    and room: "\<exists>b < 30. b \<notin> H \<and> \<not> b_dirty (bufs s ! b)"
  shows "\<exists>b t. bread 1 n s = Ret b t \<and> bread_post s p H n b t"
proof -
  have len: "length (bufs s) = 30" using bio_okD(2) [OF ok] .
  obtain b0 where b0: "b0 < 30" "b0 \<notin> H" "\<not> b_dirty (bufs s ! b0)" using room by auto
  have "b_refcnt (bufs s ! b0) = 0" and "b0 \<in> set (lru s)"
    using bio_okD(8) [OF ok b0(1)] bio_okD(3) [OF ok b0(1)] b0 by (simp_all add: buf_ok_def)
  with b0(3) have "find (\<lambda>b. b_refcnt (bufs s ! b) = 0 \<and> \<not> b_dirty (bufs s ! b)) (rev (lru s)) \<noteq> None"
    by (auto simp: find_None_iff)
  then obtain b where f: "find (\<lambda>b. b_refcnt (bufs s ! b) = 0 \<and> \<not> b_dirty (bufs s ! b)) (rev (lru s)) = Some b"
    by auto
  then have f': "b \<in> set (lru s)" "b_refcnt (bufs s ! b) = 0" "\<not> b_dirty (bufs s ! b)"
    using find_SomeD [OF f] by simp_all
  then have b1: "b < 30" using bio_okD(6) [OF ok] by simp
  then have b: "b < 30" "b \<notin> H" "\<not> b_dirty (bufs s ! b)"
    using f' bio_okD(8) [OF ok b1] by (auto simp: buf_ok_def split: if_splits)
  define u where "u = settle (s\<lparr>bufs := list_upd (bufs s) b (\<lambda>x. x\<lparr>b_dev := 1, b_blockno := n,
       b_valid := False, b_dirty := False, b_refcnt := 1\<rparr>),
     slocks := (slocks s)(SLBuf b := \<lparr>lk_locked = True, lk_pid = mypid s p\<rparr>)\<rparr>)"
  define t where "t = settle (u\<lparr>bufs := list_upd (bufs u) b
       (\<lambda>x. x\<lparr>b_data := disk u (unat (b_blockno x)), b_valid := True\<rparr>)\<rparr>)"
  have bo: "buf_ok False (mypid s p) (slocks s (SLBuf b)) (disk s) (bufs s ! b)"
    using bio_okD(8) [OF ok, of b] b by simp
  have "bget 1 n s = Ret b u"
    unfolding u_def using bio_okD(1) [OF ok] c find_cached [OF ok] f bo
    by (intro bget_miss) (auto simp: buf_ok_def)
  moreover have q: "quiet u p" using bio_okD(1) [OF ok] by (simp add: u_def)
  have "iderw b u = Ret () t"
    unfolding t_def by (rule iderw_reads [OF q]) (use b len n in \<open>simp_all add: u_def\<close>)
  ultimately have run: "bread 1 n s = Ret b t"
    using b len by (simp add: bread_def kop get_buf_def u_def)
  have other: "bufs t ! c = bufs s ! c" if "c \<noteq> b" for c
    using that by (simp add: t_def u_def list_upd_def)
  have bb: "bufs t ! b = (bufs s ! b)\<lparr>b_dev := 1, b_blockno := n, b_valid := True, b_dirty := False,
      b_refcnt := 1, b_data := disk s (unat n)\<rparr>"
    using b(1) len by (simp add: t_def u_def)
  have rest: "length (bufs t) = 30" "disk t = disk s" "lru t = lru s" "mypid t p = mypid s p" "quiet t p"
      "slocks t = (slocks s)(SLBuf b := \<lparr>lk_locked = True, lk_pid = mypid s p\<rparr>)" "dtrace t = dtrace s"
      "bio_frame s t"
    using bio_okD(1) [OF ok] len by (simp_all add: t_def u_def bio_frame_def)
  have uncached: "b_blockno (bufs s ! d) \<noteq> n" if "d < 30" "b_dev (bufs s ! d) = 1" for d
    using cached_NoneD [OF c, of d] that len by simp
  have okt: "bio_ok t p (insert b H)"
    unfolding bio_ok_def
  proof (intro conjI allI impI)
    fix d :: nat assume d: "d < 30"
    show "buf_ok (d \<in> insert b H) (mypid t p) (slocks t (SLBuf d)) (disk t) (bufs t ! d)"
      using bio_okD(8) [OF ok d] bio_okD(5) [OF ok] bo
      by (cases "d = b") (auto simp: other bb rest buf_ok_def)
  next
    fix d e :: nat
    assume "d < 30" "e < 30" "b_dev (bufs t ! d) = 1 \<and> b_dev (bufs t ! e) = 1 \<and>
        b_blockno (bufs t ! d) = b_blockno (bufs t ! e)"
    then show "d = e"
      using bio_okD(9) [OF ok] uncached by (cases "d = b"; cases "e = b") (auto simp: other bb)
  qed (use ok b in \<open>auto simp: rest bio_ok_def\<close>)
  have "blk t m = blk s m" for m
  proof (cases "\<exists>d < 30. d \<noteq> b \<and> b_dev (bufs s ! d) = 1 \<and> b_blockno (bufs s ! d) = m")
    case True
    then obtain d where d: "d < 30" "d \<noteq> b" "b_dev (bufs s ! d) = 1" "b_blockno (bufs s ! d) = m" by auto
    then show ?thesis using blk_cached [OF okt, of d] blk_cached [OF ok, of d] by (simp add: other)
  next
    case False
    show ?thesis
    proof (cases "m = n")
      case True
      then show ?thesis
        using blk_cached [OF okt b(1)] blk_uncached [OF len] uncached by (simp add: bb)
    next
      case mn: False
      have "b_blockno (bufs t ! d) \<noteq> m" if "d < 30" "b_dev (bufs t ! d) = 1" for d
        using that False mn by (cases "d = b") (auto simp: other bb)
      then have "blk t m = disk s (unat m)"
        using blk_uncached [OF rest(1), of m] rest(2) by auto
      moreover have "blk s m = disk s (unat m)"
      proof (cases "b_dev (bufs s ! b) = 1 \<and> b_blockno (bufs s ! b) = m")
        case True
        then show ?thesis using blk_cached [OF ok b(1)] bo b(3) by (auto simp: buf_ok_def)
      next
        case b': False
        then have "b_blockno (bufs s ! d) \<noteq> m" if "d < 30" "b_dev (bufs s ! d) = 1" for d
          using that False by (cases "d = b") auto
        then show ?thesis by (rule blk_uncached [OF len])
      qed
      ultimately show ?thesis by simp
    qed
  qed
  moreover have "dirty_blocks t = dirty_blocks s"
  proof (rule dirty_blocks_cong [OF len rest(1)])
    fix d :: nat
    show "b_dirty (bufs t ! d) = b_dirty (bufs s ! d)" using b(3) by (cases "d = b") (auto simp: other bb)
    show "b_dirty (bufs s ! d) \<Longrightarrow> b_blockno (bufs t ! d) = b_blockno (bufs s ! d)"
      using b(3) by (cases "d = b") (auto simp: other)
  qed
  ultimately show ?thesis
    using run okt b rest other bb blk_uncached [OF len, of n] uncached
    by (intro exI [of _ b] exI [of _ t]) (auto simp: bread_post_def)
qed

lemma bread_ok:
  assumes "bio_ok s p H" and "n < disksize s" and "\<And>b. b \<in> H \<Longrightarrow> b_blockno (bufs s ! b) \<noteq> n"
    and "cached s n \<noteq> None \<or> (\<exists>b < 30. b \<notin> H \<and> \<not> b_dirty (bufs s ! b))"
  shows "\<exists>b t. bread 1 n s = Ret b t \<and> bread_post s p H n b t"
proof (cases "cached s n")
  case None
  then show ?thesis using bread_miss [OF assms(1) None assms(2)] assms(4) by simp
next
  case (Some b)
  then have "b \<notin> H" using cachedD(3) [OF Some] assms(3) by auto
  then show ?thesis using bread_hit [OF assms(1) Some] by auto
qed

lemma blk_cong:
  assumes "bio_ok s p H" and "bio_ok t q K"
    and "\<And>c. c < 30 \<Longrightarrow> b_dev (bufs t ! c) = b_dev (bufs s ! c) \<and> b_blockno (bufs t ! c) = b_blockno (bufs s ! c)"
  shows "blk t m = (case cached s m of Some b \<Rightarrow> b_data (bufs t ! b) | None \<Rightarrow> disk t (unat m))"
proof (cases "cached s m")
  case None
  then have "b_blockno (bufs t ! c) \<noteq> m" if "c < 30" "b_dev (bufs t ! c) = 1" for c
    using that assms(3) [of c] cached_NoneD [OF None, of c] bio_okD(2) [OF assms(1)] by auto
  then show ?thesis using None blk_uncached bio_okD(2) [OF assms(2)] by auto
next
  case (Some b)
  then have "b < 30" "b_dev (bufs s ! b) = 1" "b_blockno (bufs s ! b) = m"
    using cachedD [OF Some] bio_okD(2) [OF assms(1)] by auto
  then show ?thesis using Some blk_cached [OF assms(2), of b] assms(3) [of b] by auto
qed

lemma bwrite_ok:
  assumes ok: "bio_ok s p H" and bH: "b \<in> H" and n: "b_blockno (bufs s ! b) < disksize s"
  shows "\<exists>t. bwrite b s = Ret () t \<and> bio_ok t p H \<and> bio_frame s t \<and>
     disk t = (disk s)(unat (b_blockno (bufs s ! b)) := b_data (bufs s ! b)) \<and>
     dtrace t = dtrace s @ [(unat (b_blockno (bufs s ! b)), b_data (bufs s ! b))] \<and>
     bufs t = (bufs s)[b := (bufs s ! b)\<lparr>b_dirty := False\<rparr>] \<and> blk t = blk s \<and>
     dirty_blocks t = dirty_blocks s - {b_blockno (bufs s ! b)}"
proof -
  have len: "length (bufs s) = 30" and b: "b < 30" using bio_okD(2,4) [OF ok] bH by auto
  have bo: "buf_ok True (mypid s p) (slocks s (SLBuf b)) (disk s) (bufs s ! b)"
    using bio_okD(8) [OF ok b] bH by simp
  define u where "u = settle (s\<lparr>bufs := list_upd (bufs s) b (\<lambda>x. x\<lparr>b_dirty := True\<rparr>)\<rparr>)"
  define t where "t = settle (u\<lparr>disk := (disk u)(unat (b_blockno (bufs u ! b)) := b_data (bufs u ! b)),
     dtrace := dtrace u @ [(unat (b_blockno (bufs u ! b)), b_data (bufs u ! b))],
     bufs := list_upd (bufs u) b (\<lambda>x. x\<lparr>b_dirty := False, b_valid := True\<rparr>)\<rparr>)"
  have held: "slocks s (SLBuf b) = \<lparr>lk_locked = True, lk_pid = mypid s p\<rparr>"
    using bo by (intro sleeplock.equality) (auto simp: buf_ok_def)
  have q: "quiet u p" using bio_okD(1) [OF ok] by (simp add: u_def)
  have "iderw b u = Ret () t"
    unfolding t_def by (rule iderw_writes [OF q]) (use b len n bo held in \<open>simp_all add: u_def buf_ok_def\<close>)
  then have run: "bwrite b s = Ret () t"
    using held quietD [OF bio_okD(1) [OF ok]]
    by (simp add: bwrite_def kop holdingsleep_ok [OF bio_okD(1) [OF ok]] set_buf_def u_def)
  have bb: "bufs t = (bufs s)[b := (bufs s ! b)\<lparr>b_dirty := False\<rparr>]"
  proof -
    have "(bufs s ! b)\<lparr>b_dirty := False, b_valid := True\<rparr> = (bufs s ! b)\<lparr>b_dirty := False\<rparr>"
      using bo by (intro buf.equality) (simp_all add: buf_ok_def)
    then show ?thesis using b len by (simp add: t_def u_def list_upd_def)
  qed
  have at: "bufs t ! b = (bufs s ! b)\<lparr>b_dirty := False\<rparr>" and other: "\<And>c. c \<noteq> b \<Longrightarrow> bufs t ! c = bufs s ! c"
    using b len by (simp_all add: bb)
  have rest: "disk t = (disk s)(unat (b_blockno (bufs s ! b)) := b_data (bufs s ! b))" "lru t = lru s"
      "mypid t p = mypid s p" "quiet t p" "slocks t = slocks s" "bio_frame s t"
      "dtrace t = dtrace s @ [(unat (b_blockno (bufs s ! b)), b_data (bufs s ! b))]"
    using bio_okD(1) [OF ok] b len by (simp_all add: t_def u_def bio_frame_def)
  have okt: "bio_ok t p H"
    unfolding bio_ok_def
  proof (intro conjI allI impI)
    fix c :: nat assume c: "c < 30"
    have "b_dev (bufs s ! c) = 1 \<Longrightarrow> c \<noteq> b \<Longrightarrow> unat (b_blockno (bufs s ! c)) \<noteq> unat (b_blockno (bufs s ! b))"
      using bio_okD(9) [OF ok c b] bo by (auto simp: buf_ok_def word_unat_eq_iff)
    then show "buf_ok (c \<in> H) (mypid t p) (slocks t (SLBuf c)) (disk t) (bufs t ! c)"
      using bio_okD(8) [OF ok c] bo bH by (cases "c = b") (auto simp: at other rest buf_ok_def)
  next
    fix c d :: nat
    assume "c < 30" "d < 30" "b_dev (bufs t ! c) = 1 \<and> b_dev (bufs t ! d) = 1 \<and>
        b_blockno (bufs t ! c) = b_blockno (bufs t ! d)"
    then show "c = d"
      using bio_okD(9) [OF ok] by (cases "c = b"; cases "d = b") (auto simp: at other)
  qed (use ok bo in \<open>auto simp: rest bb bio_ok_def buf_ok_def\<close>)
  have "blk t m = blk s m" for m
  proof -
    have "blk t m = (case cached s m of Some c \<Rightarrow> b_data (bufs t ! c) | None \<Rightarrow> disk t (unat m))"
      by (rule blk_cong [OF ok okt]) (metis at other buf.ext_inject buf.surjective buf.update_convs(2))
    moreover have "unat m \<noteq> unat (b_blockno (bufs s ! b))" if "cached s m = None"
    proof -
      have "cached s (b_blockno (bufs s ! b)) = Some b"
        using cachedI [OF ok b] bo by (simp add: buf_ok_def)
      with that have "m \<noteq> b_blockno (bufs s ! b)" by auto
      then show ?thesis by (simp add: word_unat_eq_iff)
    qed
    moreover have "b_data (bufs t ! c) = b_data (bufs s ! c)" for c
      by (cases "c = b") (simp_all add: at other)
    ultimately show ?thesis
      by (auto simp: blk_def rest split: option.splits)
  qed
  then have "blk t = blk s" by auto
  moreover have "dirty_blocks t = dirty_blocks s - {b_blockno (bufs s ! b)}"
  proof -
    have ne: "b_blockno (bufs s ! c) \<noteq> b_blockno (bufs s ! b)" if "c < 30" "b_dirty (bufs s ! c)" "c \<noteq> b" for c
      using that bio_okD(8,9) [OF ok that(1)] b bo by (auto simp: buf_ok_def)
    have nth: "b_dirty (bufs t ! c) \<longleftrightarrow> c \<noteq> b \<and> b_dirty (bufs s ! c)"
        "b_blockno (bufs t ! c) = b_blockno (bufs s ! c)" for c
      by (cases "c = b"; simp add: at other)+
    show ?thesis
      unfolding dirty_blocks_nth [OF len] dirty_blocks_nth [OF bio_okD(2) [OF okt]] nth
    proof (intro set_eqI iffI)
      fix x assume "x \<in> {b_blockno (bufs s ! c) |c. c < 30 \<and> c \<noteq> b \<and> b_dirty (bufs s ! c)}"
      then obtain c where "x = b_blockno (bufs s ! c)" "c < 30" "c \<noteq> b" "b_dirty (bufs s ! c)" by blast
      with ne [of c] show "x \<in> {b_blockno (bufs s ! b) |b. b < 30 \<and> b_dirty (bufs s ! b)} - {b_blockno (bufs s ! b)}"
        by auto
    next
      fix x assume "x \<in> {b_blockno (bufs s ! b) |b. b < 30 \<and> b_dirty (bufs s ! b)} - {b_blockno (bufs s ! b)}"
      then obtain c where "x = b_blockno (bufs s ! c)" "c < 30" "b_dirty (bufs s ! c)" "x \<noteq> b_blockno (bufs s ! b)"
        by blast
      moreover from this have "c \<noteq> b" by auto
      ultimately show "x \<in> {b_blockno (bufs s ! c) |c. c < 30 \<and> c \<noteq> b \<and> b_dirty (bufs s ! c)}" by auto
    qed
  qed
  ultimately show ?thesis using run okt bb rest by auto
qed

lemma brelse_ok:
  assumes ok: "bio_ok s p H" and bH: "b \<in> H"
    and clean: "b_dirty (bufs s ! b) \<or> b_data (bufs s ! b) = disk s (unat (b_blockno (bufs s ! b)))"
  shows "\<exists>t. brelse b s = Ret () t \<and> bio_ok t p (H - {b}) \<and> bio_frame s t \<and> disk t = disk s \<and>
     dtrace t = dtrace s \<and> bufs t = (bufs s)[b := (bufs s ! b)\<lparr>b_refcnt := 0\<rparr>] \<and> blk t = blk s \<and>
     dirty_blocks t = dirty_blocks s"
proof -
  have len: "length (bufs s) = 30" and b: "b < 30" using bio_okD(2,4) [OF ok] bH by auto
  have bo: "buf_ok True (mypid s p) (slocks s (SLBuf b)) (disk s) (bufs s ! b)"
    using bio_okD(8) [OF ok b] bH by simp
  note q = bio_okD(1) [OF ok]
  define u where "u = s\<lparr>slocks := (slocks s)(SLBuf b := \<lparr>lk_locked = False, lk_pid = 0\<rparr>),
     procs := woken (ChSleep (SLBuf b)) (procs s)\<rparr>"
  define t where "t = settle (u\<lparr>bufs := list_upd (bufs s) b (\<lambda>x. x\<lparr>b_refcnt := b_refcnt x - 1\<rparr>),
     lru := b # remove1 b (lru s)\<rparr>)"
  have qu: "quiet u p" using q by (simp add: u_def quiet_procs)
  have same: "bufs u = bufs s" "lru u = lru s" by (simp_all add: u_def)
  have "holdingsleep (SLBuf b) s = Ret True (settle s)"
    using bo by (simp add: holdingsleep_ok [OF q] buf_ok_def)
  moreover have "releasesleep (SLBuf b) (settle s) = Ret () (settle u)"
    using releasesleep_ok [OF quiet_settle [OF q]] quietD(1) [OF q] by (simp add: u_def)
  ultimately have run: "brelse b s = Ret () t"
    using quietD [OF qu] quietD(1) [OF quiet_settle [OF qu]] bo b len
    by (simp add: brelse_def kop acquire_ok release_on set_buf_def get_buf_def t_def same buf_ok_def)
  have at: "bufs t = (bufs s)[b := (bufs s ! b)\<lparr>b_refcnt := 0\<rparr>]"
    using bo by (simp add: t_def list_upd_def buf_ok_def)
  have nth: "b_dev (bufs t ! c) = b_dev (bufs s ! c) \<and> b_blockno (bufs t ! c) = b_blockno (bufs s ! c) \<and>
      b_data (bufs t ! c) = b_data (bufs s ! c) \<and> b_dirty (bufs t ! c) = b_dirty (bufs s ! c) \<and>
      b_valid (bufs t ! c) = b_valid (bufs s ! c) \<and>
      b_refcnt (bufs t ! c) = (if c = b then 0 else b_refcnt (bufs s ! c))" for c
    using b len by (cases "c = b") (simp_all add: at)
  have rest: "disk t = disk s" "mypid t p = mypid s p" "quiet t p" "bio_frame s t" "dtrace t = dtrace s"
      "slocks t = (slocks s)(SLBuf b := \<lparr>lk_locked = False, lk_pid = 0\<rparr>)" "lru t = b # remove1 b (lru s)"
    using qu q quietD(3) [OF q] by (simp_all add: t_def u_def bio_frame_def mypid_def)
  have okt: "bio_ok t p (H - {b})"
    unfolding bio_ok_def
  proof (intro conjI allI impI)
    fix c :: nat assume c: "c < 30"
    then show "buf_ok (c \<in> H - {b}) (mypid t p) (slocks t (SLBuf c)) (disk t) (bufs t ! c)"
      using bio_okD(8) [OF ok c] bo bH clean by (cases "c = b") (auto simp: nth rest buf_ok_def)
  next
    fix c d :: nat
    assume "c < 30" "d < 30" "b_dev (bufs t ! c) = 1 \<and> b_dev (bufs t ! d) = 1 \<and>
        b_blockno (bufs t ! c) = b_blockno (bufs t ! d)"
    then show "c = d" using bio_okD(9) [OF ok] by (simp add: nth)
  qed (use ok b len in \<open>auto simp: rest at bio_ok_def\<close>)
  have "blk t m = blk s m" for m
    using blk_cong [OF ok okt, of m] nth by (simp add: blk_def rest split: option.splits)
  moreover have "dirty_blocks t = dirty_blocks s"
    using len bio_okD(2) [OF okt] nth by (intro dirty_blocks_cong) auto
  ultimately show ?thesis using run okt rest at by auto
qed

text \<open>Storing new data into a held buffer.\<close>

lemma put_data_ok:
  assumes ok: "bio_ok s p H" and bH: "b \<in> H" and d: "length d = 512"
    and t: "t = s\<lparr>bufs := list_upd (bufs s) b (\<lambda>x. x\<lparr>b_data := d\<rparr>)\<rparr>"
  shows "bio_ok t p H \<and> bio_frame s t \<and> blk t = (blk s)(b_blockno (bufs s ! b) := d) \<and>
     dirty_blocks t = dirty_blocks s"
proof -
  have len: "length (bufs s) = 30" and b: "b < 30" using bio_okD(2,4) [OF ok] bH by auto
  have bo: "buf_ok True (mypid s p) (slocks s (SLBuf b)) (disk s) (bufs s ! b)"
    using bio_okD(8) [OF ok b] bH by simp
  have nth: "b_dev (bufs t ! c) = b_dev (bufs s ! c) \<and> b_blockno (bufs t ! c) = b_blockno (bufs s ! c) \<and>
      b_data (bufs t ! c) = (if c = b then d else b_data (bufs s ! c)) \<and> b_dirty (bufs t ! c) = b_dirty (bufs s ! c) \<and>
      b_valid (bufs t ! c) = b_valid (bufs s ! c) \<and> b_refcnt (bufs t ! c) = b_refcnt (bufs s ! c)" for c
    using b len by (cases "c = b") (simp_all add: t list_upd_def)
  have rest: "disk t = disk s" "slocks t = slocks s" "mypid t p = mypid s p" by (simp_all add: t)
  have okt: "bio_ok t p H"
    unfolding bio_ok_def
  proof (intro conjI allI impI)
    fix c :: nat assume c: "c < 30"
    then show "buf_ok (c \<in> H) (mypid t p) (slocks t (SLBuf c)) (disk t) (bufs t ! c)"
      using bio_okD(8) [OF ok c] bH d by (cases "c = b") (auto simp: nth rest buf_ok_def)
  next
    fix c e :: nat
    assume "c < 30" "e < 30" "b_dev (bufs t ! c) = 1 \<and> b_dev (bufs t ! e) = 1 \<and>
        b_blockno (bufs t ! c) = b_blockno (bufs t ! e)"
    then show "c = e" using bio_okD(9) [OF ok] by (simp add: nth)
  qed (use ok b len in \<open>auto simp: t bio_ok_def\<close>)
  have "blk t m = ((blk s)(b_blockno (bufs s ! b) := d)) m" for m
  proof -
    have cb: "cached s (b_blockno (bufs s ! b)) = Some b" using cachedI [OF ok b] bo by (simp add: buf_ok_def)
    have bt: "blk t m = (case cached s m of Some b \<Rightarrow> b_data (bufs t ! b) | None \<Rightarrow> disk t (unat m))"
      by (rule blk_cong [OF ok okt]) (simp add: nth)
    show ?thesis
    proof (cases "cached s m")
      case None
      then have "m \<noteq> b_blockno (bufs s ! b)" using cb by (metis option.distinct(1))
      then show ?thesis using bt unfolding None by (simp add: blk_def rest None)
    next
      case (Some c)
      have "m = b_blockno (bufs s ! b)" if "c = b" using cachedD(3) [OF Some] that by simp
      moreover have "c = b" if "m = b_blockno (bufs s ! b)"
      proof -
        have "Some c = Some b" using Some cb unfolding that by (rule trans [OF sym])
        then show ?thesis by simp
      qed
      ultimately have iff: "c = b \<longleftrightarrow> m = b_blockno (bufs s ! b)" by blast
      have "blk t m = (if c = b then d else b_data (bufs s ! c))" unfolding bt Some by (simp add: nth)
      moreover have "blk s m = b_data (bufs s ! c)" by (simp add: blk_def Some)
      ultimately show ?thesis unfolding fun_upd_def iff by (simp only:)
    qed
  qed
  then have "blk t = (blk s)(b_blockno (bufs s ! b) := d)" by (rule ext)
  moreover have "dirty_blocks t = dirty_blocks s"
    using len bio_okD(2) [OF okt] nth by (intro dirty_blocks_cong) auto
  moreover have "bio_frame s t" by (simp add: t bio_frame_def)
  ultimately show ?thesis using okt by simp
qed

subsection \<open>The contract of the cache\<close>

text \<open>
  C16. The cache is a faithful window on the disk. Reading block \<open>n\<close> returns the content that
  the cache and the disk give the block and keeps the invariant that every block has one
  buffer at most. Storing other data in the buffer, writing it and releasing it changes block
  \<open>n\<close>, in the cache and on the disk, and no other block, and leaves the caller with the buffers
  it held before.
\<close>

theorem bread_bwrite_brelse:
  assumes "bio_ok s p H" and "n < disksize s" and "\<forall>b \<in> H. b_blockno (bufs s ! b) \<noteq> n"
    and "cached s n \<noteq> None \<or> (\<exists>b < 30. b \<notin> H \<and> \<not> b_dirty (bufs s ! b))" and "length d = 512"
  shows "\<exists>b t u v. bread 1 n s = Ret b t \<and> b_data (bufs t ! b) = blk s n \<and> bio_ok t p (insert b H) \<and>
     bwrite b (t\<lparr>bufs := list_upd (bufs t) b (\<lambda>x. x\<lparr>b_data := d\<rparr>)\<rparr>) = Ret () u \<and>
     brelse b u = Ret () v \<and> bio_ok v p H \<and> blk v = (blk s)(n := d) \<and> disk v = (disk s)(unat n := d)"
proof -
  obtain b t where t: "bread 1 n s = Ret b t" "bread_post s p H n b t"
    using bread_ok [OF assms(1,2)] assms(3,4) by blast
  define t' where "t' = t\<lparr>bufs := list_upd (bufs t) b (\<lambda>x. x\<lparr>b_data := d\<rparr>)\<rparr>"
  have tp: "bio_ok t p (insert b H)" "b \<notin> H" "b_blockno (bufs t ! b) = n" "b_data (bufs t ! b) = blk s n"
      "disk t = disk s" "bio_frame s t" "blk t = blk s" "b < 30"
    using t(2) by (simp_all add: bread_post_def)
  have len: "length (bufs t) = 30" using bio_okD(2) [OF tp(1)] .
  have t': "bio_ok t' p (insert b H)" "bio_frame t t'" "blk t' = (blk s)(n := d)"
    using put_data_ok [OF tp(1) insertI1 assms(5) t'_def] tp by simp_all
  have bt': "b_blockno (bufs t' ! b) = n" "b_data (bufs t' ! b) = d" "disk t' = disk s" "length (bufs t') = 30"
    using tp len by (simp_all add: t'_def)
  have "n < disksize t'" using assms(2) t'(2) tp(6) by (simp add: bio_frame_def)
  then obtain u where u: "bwrite b t' = Ret () u" "bio_ok u p (insert b H)"
      "disk u = (disk s)(unat n := d)" "bufs u = (bufs t')[b := (bufs t' ! b)\<lparr>b_dirty := False\<rparr>]" "blk u = blk t'"
    using bwrite_ok [OF t'(1) insertI1] bt' by auto
  have "b_data (bufs u ! b) = d" "b_blockno (bufs u ! b) = n"
    using u(4) bt' tp(8) by simp_all
  then obtain v where v: "brelse b u = Ret () v" "bio_ok v p (insert b H - {b})" "disk v = disk u" "blk v = blk u"
    using brelse_ok [OF u(2) insertI1] u(3) by auto
  have "insert b H - {b} = H" using tp(2) by auto
  then show ?thesis
    using t(1) tp(1,4) u(1,3,5) v t'(3) by (intro exI [of _ b] exI [of _ t] exI [of _ u] exI [of _ v])
      (simp add: t'_def)
qed

subsection \<open>A concrete cache\<close>

definition buf0 :: buf where
  "buf0 = \<lparr>b_valid = False, b_dirty = False, b_dev = 0, b_blockno = 0, b_refcnt = 0, b_data = zero_block\<rparr>"

definition bio0 :: "(nat \<Rightarrow> block) \<Rightarrow> 'a \<Rightarrow> 'a bio_st_scheme" where
  "bio0 d x = slock0 \<lparr>bufs = replicate 30 buf0, lru = rev [0..<30], disk = d, disksize = 1000,
     dtrace = [], \<dots> = x\<rparr>"

lemma bio0_fields [simp]:
  "bufs (bio0 d x) = replicate 30 buf0" "lru (bio0 d x) = rev [0..<30]" "disk (bio0 d x) = d"
  "disksize (bio0 d x) = 1000" "dtrace (bio0 d x) = []"
  "slocks (bio0 d x) l = \<lparr>lk_locked = False, lk_pid = 0\<rparr>" "quiet (bio0 d x) 0" "mypid (bio0 d x) 0 = 1"
  by (simp_all add: bio0_def) (simp_all add: slock0_def proc0_def kmem0_def mach0_def)

lemma bio0_ok [simp]: "(\<And>n. length (d n) = 512) \<Longrightarrow> bio_ok (bio0 d x) 0 {}"
  by (auto simp: bio_ok_def buf_ok_def buf0_def)

lemma bio0_room: "\<exists>b < 30. b \<notin> {} \<and> \<not> b_dirty (bufs (bio0 d x) ! b)"
  by (rule exI [of _ 0]) (simp add: buf0_def)

theorem bread_bwrite_brelse_witness:
  "\<exists>b t. bread 1 7 (bio0 (\<lambda>_. zero_block) ()) = Ret b t \<and> b_data (bufs t ! b) = zero_block"
proof -
  let ?s = "bio0 (\<lambda>_. zero_block) ()"
  have "blk ?s 7 = zero_block"
    using blk_uncached [of ?s 7] by (simp add: buf0_def)
  then show ?thesis
    using bread_bwrite_brelse [of ?s 0 "{}" 7 zero_block] bio0_room by auto
qed

end
