(* ===== verification/Lru.thy ===== *)
theory Lru
  imports Bio
begin

section \<open>The doubly linked list of buffers (bio.c)\<close>

text \<open>
  bio.c links the buffers through \<open>prev\<close> and \<open>next\<close> around the dummy node \<open>bcache.head\<close>. Here the
  links are two functions on nodes and each assignment of the source is one update of them;
  \<open>ring\<close> relates them to the list of buffers that theory Bio works on. The operations keep the
  ring and act on the list as Bio says: \<open>binit\<close> builds it, the two scans of \<open>bget\<close> traverse
  it forwards and backwards, \<open>brelse\<close> moves a buffer to the front.
\<close>

datatype node = Head | Node nat

record links =
  nxt :: "node \<Rightarrow> node"
  prv :: "node \<Rightarrow> node"

subsection \<open>The pointer operations\<close>

definition links_init :: links where
  "links_init = \<lparr>nxt = (\<lambda>_. Head), prv = (\<lambda>_. Head)\<rparr>"

definition set_nxt :: "node \<Rightarrow> node \<Rightarrow> links \<Rightarrow> links" where
  "set_nxt a b l = l\<lparr>nxt := (nxt l)(a := b)\<rparr>"

definition set_prv :: "node \<Rightarrow> node \<Rightarrow> links \<Rightarrow> links" where
  "set_prv a b l = l\<lparr>prv := (prv l)(a := b)\<rparr>"

definition link_front :: "node \<Rightarrow> links \<Rightarrow> links" where
  "link_front b l0 =
     (let l1 = set_nxt b (nxt l0 Head) l0;
          l2 = set_prv b Head l1;
          l3 = set_prv (nxt l2 Head) b l2
      in set_nxt Head b l3)"

definition unlink :: "node \<Rightarrow> links \<Rightarrow> links" where
  "unlink b l0 =
     (let l1 = set_prv (nxt l0 b) (prv l0 b) l0
      in set_nxt (prv l1 b) (nxt l1 b) l1)"

definition binit_links :: links where
  "binit_links = fold (\<lambda>b. link_front (Node b)) [0..<30] links_init"

definition brelse_links :: "nat \<Rightarrow> links \<Rightarrow> links" where
  "brelse_links b l = link_front (Node b) (unlink (Node b) l)"

text \<open>
  The scans of \<open>bget\<close>: follow \<open>next\<close> from \<open>head.next\<close>, or \<open>prev\<close> from \<open>head.prev\<close>, until the test
  holds or the head is reached. The counter bounds the walk; on a ring of \<open>n\<close> buffers \<open>n + 1\<close>
  steps are enough.
\<close>

fun walk :: "nat \<Rightarrow> (node \<Rightarrow> node) \<Rightarrow> (nat \<Rightarrow> bool) \<Rightarrow> node \<Rightarrow> nat option option" where
  "walk 0 f P x = None"
| "walk (Suc k) f P Head = Some None"
| "walk (Suc k) f P (Node b) = (if P b then Some (Some b) else walk k f P (f (Node b)))"

definition scan_forward :: "nat \<Rightarrow> (nat \<Rightarrow> bool) \<Rightarrow> links \<Rightarrow> nat option option" where
  "scan_forward k P l = walk k (nxt l) P (nxt l Head)"

definition scan_backward :: "nat \<Rightarrow> (nat \<Rightarrow> bool) \<Rightarrow> links \<Rightarrow> nat option option" where
  "scan_backward k P l = walk k (prv l) P (prv l Head)"

subsection \<open>Rings\<close>

text \<open>\<open>adj l ns\<close>: consecutive nodes of \<open>ns\<close> are linked to each other in both directions.\<close>

fun adj :: "links \<Rightarrow> node list \<Rightarrow> bool" where
  "adj l (x # y # ns) = (nxt l x = y \<and> prv l y = x \<and> adj l (y # ns))"
| "adj l _ = True"

definition ring :: "links \<Rightarrow> nat list \<Rightarrow> bool" where
  "ring l bs \<longleftrightarrow> distinct bs \<and> adj l (Head # map Node bs @ [Head])"

lemma links_sel [simp]:
  "nxt (set_nxt a b l) = (nxt l)(a := b)" "prv (set_nxt a b l) = prv l"
  "prv (set_prv a b l) = (prv l)(a := b)" "nxt (set_prv a b l) = nxt l"
  by (simp_all add: set_nxt_def set_prv_def)

lemma adj_append: "adj l (as @ x # bs) \<longleftrightarrow> adj l (as @ [x]) \<and> adj l (x # bs)"
proof (induction as)
  case (Cons a as)
  then show ?case by (cases as) auto
qed simp

lemma adj_set_nxt: "a \<notin> set (butlast ns) \<Longrightarrow> adj (set_nxt a b l) ns = adj l ns"
  by (induction l ns rule: adj.induct) auto

lemma adj_set_prv: "a \<notin> set (tl ns) \<Longrightarrow> adj (set_prv a b l) ns = adj l ns"
  by (induction l ns rule: adj.induct) auto

lemma ring_init [simp]: "ring links_init []"
  by (simp add: ring_def links_init_def)

lemma ring_link_front:
  assumes "ring l bs" and "b \<notin> set bs"
  shows "ring (link_front (Node b) l) (b # bs)"
proof (cases bs)
  case Nil
  then show ?thesis using assms by (simp add: ring_def link_front_def Let_def)
next
  case (Cons c cs)
  have l: "nxt l Head = Node c" "adj l (Node c # map Node cs @ [Head])" "c \<notin> set cs" "distinct cs"
    using assms(1) by (simp_all add: ring_def Cons)
  let ?l = "link_front (Node b) l"
  have "adj ?l (Node c # map Node cs @ [Head])"
  proof -
    have "Head \<notin> set (butlast (Node c # map Node cs @ [Head]))" "Node c \<notin> set (tl (Node c # map Node cs @ [Head]))"
        "Node b \<notin> set (Node c # map Node cs @ [Head])"
      using l assms(2) by (auto simp: Cons)
    then show ?thesis
      using l(1,2) unfolding link_front_def Let_def
      by (simp add: adj_set_prv adj_set_nxt in_set_butlastD del: adj.simps)
  qed
  then show ?thesis
    using assms by (auto simp: ring_def Cons l(1) link_front_def Let_def)
qed

lemma ring_unlink:
  assumes "ring l (as @ b # bs)"
  shows "ring (unlink (Node b) l) (as @ bs)"
proof -
  obtain xs x where xs: "Head # map Node as = xs @ [x]" by (metis list.simps(3) rev_exhaust)
  obtain y ys where ys: "map Node bs @ [Head] = y # ys" by (cases "map Node bs @ [Head]") auto
  have d: "distinct as" "distinct bs" "b \<notin> set as" "b \<notin> set bs" "set as \<inter> set bs = {}"
    using assms by (auto simp: ring_def)
  have "distinct (Head # map Node as)" using d by (auto simp: distinct_map inj_on_def)
  then have x: "x \<notin> set xs" unfolding xs by simp
  have "distinct (map Node bs @ [Head])" using d by (auto simp: distinct_map inj_on_def)
  then have y: "y \<notin> set ys" unfolding ys by simp
  have sx: "set xs \<union> {x} = insert Head (Node ` set as)" using arg_cong [OF xs, of set] by auto
  have sy: "insert y (set ys) = insert Head (Node ` set bs)" using arg_cong [OF ys, of set] by auto
  have bl: "butlast (y # ys) = map Node bs" unfolding ys [symmetric] by simp
  have tl: "tl (xs @ [x]) = map Node as" unfolding xs [symmetric] by simp
  have split: "Head # map Node (as @ b # bs) @ [Head] = xs @ x # Node b # y # ys"
    using xs ys by (metis append.assoc append_Cons append_Nil list.simps(9) map_append)
  have "adj l (xs @ [x]) \<and> adj l (x # Node b # y # ys)"
    using assms adj_append [of l xs x] unfolding ring_def split by blast
  then have l: "adj l (xs @ [x])" "prv l (Node b) = x" "nxt l (Node b) = y" "adj l (y # ys)" by auto
  have yb: "y \<noteq> Node b" using sy d(4) by auto
  have eq: "unlink (Node b) l = set_nxt x y (set_prv y x l)"
    using l yb by (simp add: unlink_def Let_def)
  have "y \<notin> Node ` set as" using sy d(5) by auto
  then have "adj (unlink (Node b) l) (xs @ [x])"
    using l(1) x tl unfolding eq by (subst adj_set_nxt; simp add: adj_set_prv)
  moreover have "x \<notin> Node ` set bs" using sx d(5) by auto
  then have "adj (unlink (Node b) l) (y # ys)"
    using l(4) y bl unfolding eq by (subst adj_set_nxt; simp add: adj_set_prv)
  ultimately have "adj (unlink (Node b) l) (xs @ x # y # ys)"
    by (subst adj_append) (simp add: eq)
  moreover have "Head # map Node (as @ bs) @ [Head] = xs @ x # y # ys"
    using xs ys by (metis append.assoc append_Cons append_Nil map_append)
  ultimately show ?thesis using d by (simp add: ring_def)
qed

subsection \<open>Scans\<close>

lemma walk_chain:
  "adj l (x # map Node bs @ [Head]) \<Longrightarrow> length bs < k \<Longrightarrow> walk k (nxt l) P (nxt l x) = Some (find P bs)"
proof (induction bs arbitrary: x k)
  case Nil
  then show ?case by (cases k) auto
next
  case (Cons b bs)
  then show ?case by (cases k) auto
qed

definition flip :: "links \<Rightarrow> links" where
  "flip l = \<lparr>nxt = prv l, prv = nxt l\<rparr>"

lemma adj_flip: "adj (flip l) (rev ns) = adj l ns"
proof (induction l ns rule: adj.induct)
  case (1 l x y ns)
  then show ?case
    by (simp add: adj_append [of _ "rev ns" y "[x]"]) (auto simp: flip_def)
qed simp_all

text \<open>
  C17. The pointers of the buffer cache implement the list of buffers. \<open>binit\<close> links all thirty
  buffers, on a ring the forward scan of \<open>bget\<close> finds the first buffer of the list that passes
  its test and the backward scan the last one, both within one turn of the ring, and the
  relinking in \<open>brelse\<close> yields the ring of the list with the buffer moved to the front.
\<close>

theorem links_implement_lru:
  "ring binit_links (rev [0..<30]) \<and>
   (\<forall>l bs P k. ring l bs \<and> length bs < k \<longrightarrow>
      scan_forward k P l = Some (find P bs) \<and> scan_backward k P l = Some (find P (rev bs)) \<and>
      (\<forall>b \<in> set bs. ring (brelse_links b l) (b # remove1 b bs)))"
proof (intro conjI allI impI ballI)
  have "ring (fold (\<lambda>b. link_front (Node b)) [0..<n] links_init) (rev [0..<n])" for n
    by (induction n) (simp_all add: ring_link_front)
  then show "ring binit_links (rev [0..<30])" by (simp only: binit_links_def)
next
  fix l :: links and bs :: "nat list" and P and k :: nat
  assume a: "ring l bs \<and> length bs < k"
  then show "scan_forward k P l = Some (find P bs)"
    by (simp add: scan_forward_def ring_def walk_chain)
  have "adj (flip l) (Head # map Node (rev bs) @ [Head])"
    using a adj_flip [of l "Head # map Node bs @ [Head]"] by (simp add: ring_def rev_map)
  then show "scan_backward k P l = Some (find P (rev bs))"
    using a walk_chain [of "flip l" Head "rev bs" k P] by (simp add: scan_backward_def flip_def)
next
  fix l :: links and bs :: "nat list" and P :: "nat \<Rightarrow> bool" and k b :: nat
  assume a: "ring l bs \<and> length bs < k" and "b \<in> set bs"
  then obtain as cs where bs: "bs = as @ b # cs" "b \<notin> set as" by (meson split_list_first)
  then have "remove1 b bs = as @ cs" "b \<notin> set (as @ cs)"
    using a by (auto simp: ring_def remove1_append)
  then show "ring (brelse_links b l) (b # remove1 b bs)"
    using a ring_unlink [of l as b cs] by (simp add: bs brelse_links_def ring_link_front)
qed

theorem links_implement_lru_witness:
  "scan_forward 31 (\<lambda>b. b < 7) binit_links = Some (Some 6) \<and>
   scan_backward 31 (\<lambda>b. 7 < b) binit_links = Some (Some 8)"
proof -
  have "ring binit_links (rev [0..<30])" "length (rev [0..<30]) < 31" using links_implement_lru by simp_all
  then have "scan_forward 31 (\<lambda>b. b < 7) binit_links = Some (find (\<lambda>b. b < 7) (rev [0..<30]))"
      "scan_backward 31 (\<lambda>b. 7 < b) binit_links = Some (find (\<lambda>b. 7 < b) (rev (rev [0..<30])))"
    using links_implement_lru by blast+
  then show ?thesis by (simp add: upt_rec)
qed

end
