(* ===== verification/Log.thy ===== *)
theory Log
  imports Bio
begin

section \<open>The write-ahead log (log.c, and readsb of fs.c)\<close>

text \<open>
  Extends the state with \<open>struct log\<close>. A file-system operation runs between \<open>begin_op\<close> and
  \<open>end_op\<close> and writes blocks with \<open>log_write\<close>, which pins them in the cache; the last
  \<open>end_op\<close> commits all of them. The lemmas follow the blocks written to the disk, one by one,
  so that the state of the disk at a crash between two writes is a prefix of that trace.

  A write beyond \<open>lh.block[LOGSIZE]\<close> is undefined in C; the model ends such a run with the
  outcome \<open>Panic ''undefined''\<close>.
\<close>

subsection \<open>State\<close>

abbreviation (input) LOGSIZE :: nat where "LOGSIZE \<equiv> 30"
abbreviation (input) MAXOPBLOCKS :: int where "MAXOPBLOCKS \<equiv> 10"

record superblock =
  sb_size :: u32
  sb_nblocks :: u32
  sb_ninodes :: u32
  sb_nlog :: u32
  sb_logstart :: u32
  sb_inodestart :: u32
  sb_bmapstart :: u32

record log =
  lg_start :: u32
  lg_size :: int
  lg_outstanding :: int
  lg_committing :: bool
  lg_dev :: u32
  lh_n :: int
  lh_block :: "u32 list"

record log_st = bio_st +
  lg :: log

definition set_lg :: "(log \<Rightarrow> log) \<Rightarrow> (unit, 'a log_st_scheme) kop" where
  "set_lg f = upd (\<lambda>s. s\<lparr>lg := f (lg s)\<rparr>)"

definition get_lg :: "(log, 'a log_st_scheme) kop" where
  "get_lg = gets lg"

definition set_data :: "nat \<Rightarrow> (block \<Rightarrow> block) \<Rightarrow> (unit, 'a bio_st_scheme) kop" where
  "set_data b f = set_buf b (\<lambda>x. x\<lparr>b_data := f (b_data x)\<rparr>)"

definition get_data :: "nat \<Rightarrow> (block, 'a bio_st_scheme) kop" where
  "get_data b = gets (\<lambda>s. b_data (bufs s ! b))"

subsection \<open>Operations\<close>

definition sb_of_block :: "block \<Rightarrow> superblock" where
  "sb_of_block d = \<lparr>sb_size = get32 d 0, sb_nblocks = get32 d 4, sb_ninodes = get32 d 8, sb_nlog = get32 d 12,
     sb_logstart = get32 d 16, sb_inodestart = get32 d 20, sb_bmapstart = get32 d 24\<rparr>"

definition readsb :: "u32 \<Rightarrow> (superblock, 'a bio_st_scheme) kop" where
  "readsb dev =
     bnd (bread dev 1) (\<lambda>bp.
     bnd (get_data bp) (\<lambda>d.
     thn (brelse bp)
     (ret (sb_of_block d))))"

definition install_trans :: "(unit, 'a log_st_scheme) kop" where
  "install_trans =
     bnd get_lg (\<lambda>l.
     kfor [0..<nat (lh_n l)] (\<lambda>tail.
       bnd (bread (lg_dev l) (lg_start l + of_nat tail + 1)) (\<lambda>lbuf.
       bnd (bread (lg_dev l) (lh_block l ! tail)) (\<lambda>dbuf.
       bnd (get_data lbuf) (\<lambda>d.
       thn (set_data dbuf (\<lambda>_. d))
       (thn (bwrite dbuf)
       (thn (brelse lbuf)
       (brelse dbuf))))))))"

definition read_head :: "(unit, 'a log_st_scheme) kop" where
  "read_head =
     bnd get_lg (\<lambda>l.
     bnd (bread (lg_dev l) (lg_start l)) (\<lambda>b.
     bnd (get_data b) (\<lambda>d.
     thn (set_lg (\<lambda>l. l\<lparr>lh_n := sint (get32 d 0)\<rparr>))
     (if nat (sint (get32 d 0)) > LOGSIZE then kpanic ''undefined'' else
     thn (kfor [0..<nat (sint (get32 d 0))] (\<lambda>i.
        set_lg (\<lambda>l. l\<lparr>lh_block := (lh_block l)[i := get32 d (4 + 4 * i)]\<rparr>)))
     (brelse b)))))"

definition head_block :: "int \<Rightarrow> u32 list \<Rightarrow> block \<Rightarrow> block" where
  "head_block n bs d = fold (\<lambda>i d. put32 d (4 + 4 * i) (bs ! i)) [0..<nat n] (put32 d 0 (of_int n))"

definition write_head :: "(unit, 'a log_st_scheme) kop" where
  "write_head =
     bnd get_lg (\<lambda>l.
     bnd (bread (lg_dev l) (lg_start l)) (\<lambda>b.
     thn (set_data b (head_block (lh_n l) (lh_block l)))
     (thn (bwrite b)
     (brelse b))))"

definition recover_from_log :: "(unit, 'a log_st_scheme) kop" where
  "recover_from_log =
     thn read_head
     (thn install_trans
     (thn (set_lg (\<lambda>l. l\<lparr>lh_n := 0\<rparr>))
     write_head))"

definition initlog :: "u32 \<Rightarrow> (unit, 'a log_st_scheme) kop" where
  "initlog dev =
     (if 4 + 4 * LOGSIZE \<ge> BSIZE then kpanic ''initlog: too big logheader'' else
     thn (initlock LLog ''log'')
     (bnd (readsb dev) (\<lambda>sb.
     thn (set_lg (\<lambda>l. l\<lparr>lg_start := sb_logstart sb, lg_size := sint (sb_nlog sb), lg_dev := dev\<rparr>))
     recover_from_log)))"

definition begin_op_loop :: "(unit, 'a log_st_scheme) kop" where
  "begin_op_loop =
     bnd get_lg (\<lambda>l.
     if lg_committing l then sleep ChLog LLog
     else if lh_n l + (lg_outstanding l + 1) * MAXOPBLOCKS > int LOGSIZE then sleep ChLog LLog
     else thn (set_lg (\<lambda>l. l\<lparr>lg_outstanding := lg_outstanding l + 1\<rparr>))
          (release LLog))"

definition begin_op :: "(unit, 'a log_st_scheme) kop" where
  "begin_op = thn (acquire LLog) begin_op_loop"

definition begin_op_resume :: "bool \<Rightarrow> nat \<Rightarrow> (unit, 'a log_st_scheme) kop" where
  "begin_op_resume b p = thn (sleep_resume b p LLog) begin_op_loop"

definition write_log :: "(unit, 'a log_st_scheme) kop" where
  "write_log =
     bnd get_lg (\<lambda>l.
     kfor [0..<nat (lh_n l)] (\<lambda>tail.
       bnd (bread (lg_dev l) (lg_start l + of_nat tail + 1)) (\<lambda>to.
       bnd (bread (lg_dev l) (lh_block l ! tail)) (\<lambda>from.
       bnd (get_data from) (\<lambda>d.
       thn (set_data to (\<lambda>_. d))
       (thn (bwrite to)
       (thn (brelse from)
       (brelse to))))))))"

definition commit :: "(unit, 'a log_st_scheme) kop" where
  "commit =
     bnd get_lg (\<lambda>l.
     kwhen (lh_n l > 0)
       (thn write_log
       (thn write_head
       (thn install_trans
       (thn (set_lg (\<lambda>l. l\<lparr>lh_n := 0\<rparr>))
       write_head)))))"

definition end_op :: "(unit, 'a log_st_scheme) kop" where
  "end_op =
     thn (acquire LLog)
     (thn (set_lg (\<lambda>l. l\<lparr>lg_outstanding := lg_outstanding l - 1\<rparr>))
     (bnd get_lg (\<lambda>l.
     if lg_committing l then kpanic ''log.committing'' else
     let do_commit = (lg_outstanding l = 0) in
     thn (if do_commit then set_lg (\<lambda>l. l\<lparr>lg_committing := True\<rparr>) else wakeup ChLog)
     (thn (release LLog)
     (kwhen do_commit
       (thn commit
       (thn (acquire LLog)
       (thn (set_lg (\<lambda>l. l\<lparr>lg_committing := False\<rparr>))
       (thn (wakeup ChLog)
       (release LLog))))))))))"

text \<open>The scan of \<open>log_write\<close> for a block that is in the log already: its index, or \<open>lh.n\<close>.\<close>

definition absorb_index :: "log \<Rightarrow> u32 \<Rightarrow> nat" where
  "absorb_index l n =
     (case find_index (\<lambda>m. m = n) (take (nat (lh_n l)) (lh_block l)) of Some i \<Rightarrow> i | None \<Rightarrow> nat (lh_n l))"

definition log_write :: "nat \<Rightarrow> (unit, 'a log_st_scheme) kop" where
  "log_write b =
     bnd get_lg (\<lambda>l.
     if lh_n l \<ge> int LOGSIZE \<or> lh_n l \<ge> lg_size l - 1 then kpanic ''too big a transaction''
     else if lg_outstanding l < 1 then kpanic ''log_write outside of trans'' else
     thn (acquire LLog)
     (bnd get_lg (\<lambda>l.
     bnd (get_buf b) (\<lambda>x.
     let i = absorb_index l (b_blockno x) in
     thn (set_lg (\<lambda>l. l\<lparr>lh_block := (lh_block l)[i := b_blockno x]\<rparr>))
     (thn (kwhen (int i = lh_n l) (set_lg (\<lambda>l. l\<lparr>lh_n := lh_n l + 1\<rparr>)))
     (thn (set_buf b (\<lambda>x. x\<lparr>b_dirty := True\<rparr>))
     (release LLog)))))))"

subsection \<open>The layers below\<close>

lemma log_over_mach [simp]:
  "lg (lock_on l s) = lg s" "lg (settle s) = lg s" "lg (cli_on s) = lg s"
  by (simp_all add: mach_on_defs)

lemma log_me [simp]:
  "me (s\<lparr>lg := x0\<rparr>) = me s"
  by (simp_all add: me_def cpu_ix_def lapicid_def)

lemma log_mach [simp]:
  "mach_ok (s\<lparr>lg := x0\<rparr>) = mach_ok s" "lock_free l (s\<lparr>lg := x0\<rparr>) = lock_free l s"
  by (simp_all add: mach_ok_def lock_free_def cpu_ix_def lapicid_def readeflags_IF_def)

lemma log_upd_on [simp]:
  "(lock_on l s)\<lparr>lg := x0\<rparr> = lock_on l (s\<lparr>lg := x0\<rparr>)"
  "(settle s)\<lparr>lg := x0\<rparr> = settle (s\<lparr>lg := x0\<rparr>)"
  by (simp_all add: lock_on_def settle_def cli_on_def set_cpu_def cli_def readeflags_IF_def cong: if_cong)

lemma log_more [simp]: "log_st.more (lock_on l s) = log_st.more s" "log_st.more (settle s) = log_st.more s"
  by (simp_all add: mach_on_defs)

lemma quiet_lg [simp]: "quiet (s\<lparr>lg := x\<rparr>) p = quiet s p" "mypid (s\<lparr>lg := x\<rparr>) p = mypid s p"
  by (simp_all add: quiet_def mypid_def)

lemma bio_ok_lg [simp]: "bio_ok (s\<lparr>lg := x\<rparr>) p H = bio_ok s p H"
  by (simp add: bio_ok_def)

lemma bio_ok_settle: "bio_ok s p H \<Longrightarrow> bio_ok (settle s) p H"
  by (simp add: bio_ok_def)

lemma blk_lg [simp]: "blk (s\<lparr>lg := x\<rparr>) = blk s" "cached (s\<lparr>lg := x\<rparr>) = cached s"
    "dirty_blocks (s\<lparr>lg := x\<rparr>) = dirty_blocks s"
    "blk (settle s) = blk s" "cached (settle s) = cached s" "dirty_blocks (settle s) = dirty_blocks s"
  by (simp_all add: blk_def cached_def dirty_blocks_def fun_eq_iff split: option.splits)

lemma bio_frame_lg: "bio_frame s t \<Longrightarrow> lg t = lg s"
  by (cases s, cases t) (simp add: bio_frame_def bio_st.defs)

lemma bio_frame_size: "bio_frame s t \<Longrightarrow> disksize t = disksize s"
  by (simp add: bio_frame_def)

subsection \<open>Room in the cache\<close>

lemma finite_dirty [simp]: "finite (dirty_blocks s)"
proof -
  have "dirty_blocks s \<subseteq> b_blockno ` set (bufs s)" by (auto simp: dirty_blocks_def)
  then show ?thesis by (rule finite_subset) simp
qed

lemma dirty_cached:
  assumes "bio_ok s p H" and "n \<in> dirty_blocks s"
  shows "cached s n \<noteq> None"
proof -
  obtain b where b: "b < 30" "n = b_blockno (bufs s ! b)" "b_dirty (bufs s ! b)"
    using assms dirty_blocks_nth [OF bio_okD(2)] by blast
  then have "b_dev (bufs s ! b) = 1" using bio_okD(8) [OF assms(1) b(1)] by (simp add: buf_ok_def)
  then show ?thesis using cachedI [OF assms(1) b(1)] b(2) by simp
qed

text \<open>As every dirty buffer holds a block of its own, counting dirty blocks bounds the used buffers.\<close>

lemma buffer_room:
  assumes ok: "bio_ok s p H" and "card (dirty_blocks s) + card H < 30"
  shows "\<exists>b < 30. b \<notin> H \<and> \<not> b_dirty (bufs s ! b)"
proof (rule ccontr)
  assume *: "\<not> (\<exists>b < 30. b \<notin> H \<and> \<not> b_dirty (bufs s ! b))"
  let ?F = "{0..<30} - H"
  have d: "b_dirty (bufs s ! b)" if "b \<in> ?F" for b using that * by auto
  have v: "b_dev (bufs s ! b) = 1" if "b \<in> ?F" for b
    using d [OF that] bio_okD(8) [OF ok, of b] that by (simp add: buf_ok_def)
  have "inj_on (\<lambda>b. b_blockno (bufs s ! b)) ?F"
    using bio_okD(9) [OF ok] v by (auto intro!: inj_onI)
  moreover have "(\<lambda>b. b_blockno (bufs s ! b)) ` ?F \<subseteq> dirty_blocks s"
    using d dirty_blocks_nth [OF bio_okD(2) [OF ok]] by auto
  ultimately have "card ?F \<le> card (dirty_blocks s)" by (metis card_inj_on_le finite_dirty)
  moreover have "card ?F = 30 - card H"
    using bio_okD(4) [OF ok] finite_subset [OF bio_okD(4) [OF ok]] by (simp add: card_Diff_subset)
  ultimately show False using assms(2) by simp
qed

lemma blk_clean:
  assumes ok: "bio_ok s p H" and n: "n \<notin> dirty_blocks s" and h: "\<And>b. b \<in> H \<Longrightarrow> b_blockno (bufs s ! b) \<noteq> n"
  shows "blk s n = disk s (unat n)"
proof (cases "cached s n")
  case None
  then show ?thesis by (simp add: blk_def)
next
  case (Some b)
  have b: "b < 30" "b_dev (bufs s ! b) = 1" "b_blockno (bufs s ! b) = n"
    using cachedD [OF Some] bio_okD(2) [OF ok] by simp_all
  have "\<not> b_dirty (bufs s ! b)"
    using n b dirty_blocks_nth [OF bio_okD(2) [OF ok]] by blast
  moreover have "b \<notin> H" using h b(3) by auto
  ultimately show ?thesis
    using Some b bio_okD(8) [OF ok b(1)] by (simp add: blk_def buf_ok_def)
qed

subsection \<open>Copying a block\<close>

lemma set_data_ok:
  assumes "bio_ok s p H" and "b \<in> H" and "length (f (b_data (bufs s ! b))) = 512"
  shows "\<exists>t. set_data b f s = Ret () t \<and> bio_ok t p H \<and> bio_frame s t \<and> disk t = disk s \<and> dtrace t = dtrace s \<and>
     blk t = (blk s)(b_blockno (bufs s ! b) := f (b_data (bufs s ! b))) \<and> dirty_blocks t = dirty_blocks s \<and>
     bufs t = (bufs s)[b := (bufs s ! b)\<lparr>b_data := f (b_data (bufs s ! b))\<rparr>]"
proof -
  define t where "t = s\<lparr>bufs := list_upd (bufs s) b (\<lambda>x. x\<lparr>b_data := f (b_data (bufs s ! b))\<rparr>)\<rparr>"
  have "set_data b f s = Ret () t"
    by (simp add: set_data_def set_buf_def kop t_def list_upd_def)
  moreover have "bufs t = (bufs s)[b := (bufs s ! b)\<lparr>b_data := f (b_data (bufs s ! b))\<rparr>]"
      "disk t = disk s" "dtrace t = dtrace s"
    by (simp_all add: t_def list_upd_def)
  ultimately show ?thesis using put_data_ok [OF assms t_def] by auto
qed

text \<open>
  \<open>wrote s p H n d t\<close>: in going from \<open>s\<close> to \<open>t\<close> block \<open>n\<close> was written to the disk with content \<open>d\<close>,
  and nothing else changed for the users of the cache; \<open>p\<close> holds the buffers \<open>H\<close> in \<open>t\<close>.
\<close>

definition wrote :: "'a bio_st_scheme \<Rightarrow> nat \<Rightarrow> nat set \<Rightarrow> u32 \<Rightarrow> block \<Rightarrow> 'a bio_st_scheme \<Rightarrow> bool" where
  "wrote s p H n d t \<longleftrightarrow> bio_ok t p H \<and> bio_frame s t \<and> disk t = (disk s)(unat n := d) \<and>
     dtrace t = dtrace s @ [(unat n, d)] \<and> blk t = (blk s)(n := d) \<and> dirty_blocks t = dirty_blocks s - {n}"

lemma modify_write_ok:
  assumes ok: "bio_ok s p H" and b: "b \<in> H" and n: "b_blockno (bufs s ! b) = n" "n < disksize s"
    and d: "f (b_data (bufs s ! b)) = d" "length d = 512"
  shows "\<exists>t. thn (set_data b f) (bwrite b) s = Ret () t \<and> wrote s p H n d t \<and>
     bufs t = (bufs s)[b := (bufs s ! b)\<lparr>b_data := d, b_dirty := False\<rparr>]"
proof -
  have len: "length (bufs s) = 30" and b30: "b < 30" using bio_okD(2,4) [OF ok] b by auto
  obtain u where u: "set_data b f s = Ret () u" "bio_ok u p H" "bio_frame s u" "disk u = disk s" "dtrace u = dtrace s"
      "blk u = (blk s)(n := d)" "dirty_blocks u = dirty_blocks s" "bufs u = (bufs s)[b := (bufs s ! b)\<lparr>b_data := d\<rparr>]"
    using set_data_ok [OF ok b, of f] d n by auto
  have bu: "bufs u ! b = (bufs s ! b)\<lparr>b_data := d\<rparr>" using u(8) b30 len by simp
  have "b_blockno (bufs u ! b) < disksize u" using bu n u(3) by (simp add: bio_frame_def)
  then obtain t where t: "bwrite b u = Ret () t" "bio_ok t p H" "bio_frame u t" "disk t = (disk u)(unat n := d)"
      "dtrace t = dtrace u @ [(unat n, d)]" "bufs t = (bufs u)[b := (bufs u ! b)\<lparr>b_dirty := False\<rparr>]" "blk t = blk u"
      "dirty_blocks t = dirty_blocks u - {n}"
    using bwrite_ok [OF u(2) b] bu n(1) by auto
  have "bufs t = (bufs s)[b := (bufs s ! b)\<lparr>b_data := d, b_dirty := False\<rparr>]"
    unfolding t(6) bu unfolding u(8) by simp
  then show ?thesis
    using u t bio_frame_trans [OF u(3) t(3)] by (simp add: kop wrote_def)
qed

lemma brelse_clean:
  assumes "bio_ok s p H" and "b \<in> H"
    and "b_dirty (bufs s ! b) \<or> b_data (bufs s ! b) = disk s (unat (b_blockno (bufs s ! b)))"
  obtains t where "brelse b s = Ret () t" "bio_ok t p (H - {b})" "bio_frame s t" "disk t = disk s"
    "dtrace t = dtrace s" "bufs t = (bufs s)[b := (bufs s ! b)\<lparr>b_refcnt := 0\<rparr>]" "blk t = blk s"
    "dirty_blocks t = dirty_blocks s"
  using brelse_ok [OF assms] by auto

text \<open>Copy the buffer \<open>src\<close> into \<open>dst\<close>, write \<open>dst\<close> and release both.\<close>

lemma copy_out_ok:
  assumes ok: "bio_ok s p {dst, src}" and ne: "dst \<noteq> src" and n: "b_blockno (bufs s ! dst) = n" "n < disksize s"
    and d: "b_data (bufs s ! src) = d"
    and src: "b_dirty (bufs s ! src) \<or> d = disk s (unat (b_blockno (bufs s ! src)))"
  shows "\<exists>t. thn (set_data dst (\<lambda>_. d)) (thn (bwrite dst) (thn (brelse src) (brelse dst))) s = Ret () t \<and>
     wrote s p {} n d t"
proof -
  have b: "dst < 30" "src < 30" and len: "length (bufs s) = 30" using bio_okD(2,4) [OF ok] by auto
  have bo: "buf_ok True (mypid s p) (slocks s (SLBuf dst)) (disk s) (bufs s ! dst)"
      "buf_ok True (mypid s p) (slocks s (SLBuf src)) (disk s) (bufs s ! src)"
    using bio_okD(8) [OF ok b(1)] bio_okD(8) [OF ok b(2)] by simp_all
  have l: "length d = 512" using bo(2) d by (simp add: buf_ok_def)
  have neq: "b_blockno (bufs s ! src) \<noteq> n"
    using bio_okD(9) [OF ok b] bo ne n(1) by (auto simp: buf_ok_def)
  obtain t where t: "thn (set_data dst (\<lambda>_. d)) (bwrite dst) s = Ret () t" "wrote s p {dst, src} n d t"
      "bufs t = (bufs s)[dst := (bufs s ! dst)\<lparr>b_data := d, b_dirty := False\<rparr>]"
    using modify_write_ok [OF ok insertI1 n, of "\<lambda>_. d"] l by auto
  have bt: "bufs t ! src = bufs s ! src" "b_data (bufs t ! dst) = d" "b_blockno (bufs t ! dst) = n"
    using t(3) ne b len n by simp_all
  have dt: "disk t = (disk s)(unat n := d)" and okt: "bio_ok t p {dst, src}" using t(2) by (simp_all add: wrote_def)
  have "unat (b_blockno (bufs s ! src)) \<noteq> unat n" using neq by (simp add: word_unat_eq_iff)
  then have "b_dirty (bufs t ! src) \<or> b_data (bufs t ! src) = disk t (unat (b_blockno (bufs t ! src)))"
    using src bt d dt by simp
  then obtain u where u: "brelse src t = Ret () u" "bio_ok u p ({dst, src} - {src})" "bio_frame t u" "disk u = disk t"
      "dtrace u = dtrace t" "bufs u = (bufs t)[src := (bufs t ! src)\<lparr>b_refcnt := 0\<rparr>]" "blk u = blk t"
      "dirty_blocks u = dirty_blocks t"
    using brelse_clean [OF okt, of src] by blast
  have H: "{dst, src} - {src} = {dst}" using ne by auto
  have okd: "bio_ok u p {dst}" using u(2) unfolding H .
  have "b_data (bufs u ! dst) = disk u (unat (b_blockno (bufs u ! dst)))"
    using u(4,6) dt bt ne by simp
  then obtain v where v: "brelse dst u = Ret () v" "bio_ok v p ({dst} - {dst})" "bio_frame u v" "disk v = disk u"
      "dtrace v = dtrace u" "blk v = blk u" "dirty_blocks v = dirty_blocks u"
    using brelse_clean [OF okd insertI1] by blast
  have "bio_frame s t" using t(2) by (simp add: wrote_def)
  from bio_frame_trans [OF bio_frame_trans [OF this u(3)] v(3)]
  have "wrote s p {} n d v" using t(2) u(4,5,7,8) v(2,4-7) by (simp add: wrote_def)
  then show ?thesis using t(1) u(1) v(1) unfolding thn_eq_Ret by blast
qed

lemma held_dirty:
  assumes ok: "bio_ok s p H" and b: "b \<in> H"
  shows "b_blockno (bufs s ! b) \<in> dirty_blocks s \<longleftrightarrow> b_dirty (bufs s ! b)"
proof
  have b30: "b < 30" using bio_okD(4) [OF ok] b by auto
  have dev: "b_dev (bufs s ! b) = 1" using bio_okD(8) [OF ok b30] b by (simp add: buf_ok_def)
  show "b_dirty (bufs s ! b) \<Longrightarrow> b_blockno (bufs s ! b) \<in> dirty_blocks s"
    using b30 unfolding dirty_blocks_nth [OF bio_okD(2) [OF ok]] by blast
  assume "b_blockno (bufs s ! b) \<in> dirty_blocks s"
  then obtain c where c: "c < 30" "b_blockno (bufs s ! b) = b_blockno (bufs s ! c)" "b_dirty (bufs s ! c)"
    unfolding dirty_blocks_nth [OF bio_okD(2) [OF ok]] by blast
  then have "b_dev (bufs s ! c) = 1" using bio_okD(8) [OF ok c(1)] by (simp add: buf_ok_def)
  then have "b = c" using bio_okD(9) [OF ok b30 c(1) dev] c(2) by simp
  then show "b_dirty (bufs s ! b)" using c(3) by simp
qed

lemma held_clean:
  assumes ok: "bio_ok s p {}" and t: "bio_ok t p H" "b \<in> H" "b_data (bufs t ! b) = blk s (b_blockno (bufs t ! b))"
    and "disk t = disk s" "dirty_blocks t = dirty_blocks s"
  shows "b_dirty (bufs t ! b) \<or> b_data (bufs t ! b) = disk t (unat (b_blockno (bufs t ! b)))"
proof (cases "b_dirty (bufs t ! b)")
  case False
  then have "b_blockno (bufs t ! b) \<notin> dirty_blocks s" using held_dirty [OF t(1,2)] assms(6) by simp
  then show ?thesis using blk_clean [OF ok] t(3) assms(5) by simp
qed simp

lemma bread_two_ok:
  assumes ok: "bio_ok s p {}" and ab: "a \<noteq> b" "a < disksize s" "b < disksize s"
    and room: "card (dirty_blocks s) < 30" "b \<in> dirty_blocks s \<or> card (dirty_blocks s) < 29"
  shows "\<exists>x u y t. bread 1 a s = Ret x u \<and> bread 1 b u = Ret y t \<and> bio_ok t p {x, y} \<and> x \<noteq> y \<and>
     b_blockno (bufs t ! x) = a \<and> b_blockno (bufs t ! y) = b \<and> b_data (bufs t ! x) = blk s a \<and>
     b_data (bufs t ! y) = blk s b \<and> disk t = disk s \<and> dtrace t = dtrace s \<and> bio_frame s t \<and>
     blk t = blk s \<and> dirty_blocks t = dirty_blocks s"
proof -
  have "\<exists>c < 30. c \<notin> {} \<and> \<not> b_dirty (bufs s ! c)"
    by (rule buffer_room [OF ok]) (use room(1) in simp)
  then obtain x u where u: "bread 1 a s = Ret x u" "bread_post s p {} a x u"
    using bread_ok [OF ok ab(2)] by blast
  have up: "bio_ok u p {x}" "b_blockno (bufs u ! x) = a" "b_data (bufs u ! x) = blk s a" "disk u = disk s"
      "dtrace u = dtrace s" "bio_frame s u" "blk u = blk s" "dirty_blocks u = dirty_blocks s"
    using u(2) by (simp_all add: bread_post_def)
  have "cached u b \<noteq> None \<or> (\<exists>c < 30. c \<notin> {x} \<and> \<not> b_dirty (bufs u ! c))"
  proof (cases "b \<in> dirty_blocks s")
    case True
    then show ?thesis using dirty_cached [OF up(1)] up(8) by simp
  next
    case False
    then have "card (dirty_blocks u) + card {x} < 30" using room up(8) by simp
    then show ?thesis using buffer_room [OF up(1)] by blast
  qed
  moreover have "b < disksize u" using ab(3) up(6) by (simp add: bio_frame_def)
  moreover have "b_blockno (bufs u ! c) \<noteq> b" if "c \<in> {x}" for c using that up(2) ab(1) by simp
  ultimately obtain y t where t: "bread 1 b u = Ret y t" "bread_post u p {x} b y t"
    using bread_ok [OF up(1)] by blast
  have tp: "bio_ok t p {x, y}" "x \<noteq> y" "b_blockno (bufs t ! y) = b" "b_data (bufs t ! y) = blk s b" "disk t = disk s"
      "dtrace t = dtrace s" "bio_frame u t" "blk t = blk s" "dirty_blocks t = dirty_blocks s" "bufs t ! x = bufs u ! x"
    using t(2) up by (auto simp: bread_post_def insert_commute)
  then show ?thesis
    using u(1) t(1) up bio_frame_trans [OF up(6) tp(7)]
    by (intro exI [of _ x] exI [of _ u] exI [of _ y] exI [of _ t]) simp
qed

text \<open>The bodies of the loops of \<open>write_log\<close> and \<open>install_trans\<close>.\<close>

lemma write_log_step:
  assumes "bio_ok s p {}" and "a \<noteq> b" "a < disksize s" "b < disksize s"
    and "card (dirty_blocks s) < 30" "b \<in> dirty_blocks s \<or> card (dirty_blocks s) < 29"
  shows "\<exists>t. bnd (bread 1 a) (\<lambda>to. bnd (bread 1 b) (\<lambda>from. bnd (get_data from) (\<lambda>d.
     thn (set_data to (\<lambda>_. d)) (thn (bwrite to) (thn (brelse from) (brelse to)))))) s = Ret () t \<and>
     wrote s p {} a (blk s b) t"
proof -
  obtain x u y v where *: "bread 1 a s = Ret x u" "bread 1 b u = Ret y v" "bio_ok v p {x, y}" "x \<noteq> y"
     "b_blockno (bufs v ! x) = a" "b_blockno (bufs v ! y) = b" "b_data (bufs v ! x) = blk s a"
     "b_data (bufs v ! y) = blk s b" "disk v = disk s" "dtrace v = dtrace s" "bio_frame s v"
     "blk v = blk s" "dirty_blocks v = dirty_blocks s"
    using bread_two_ok [OF assms] by blast
  have "b_dirty (bufs v ! y) \<or> b_data (bufs v ! y) = disk v (unat (b_blockno (bufs v ! y)))"
    by (rule held_clean [OF assms(1) *(3)]) (use * in simp_all)
  moreover have "a < disksize v" using assms(3) *(11) by (simp add: bio_frame_def)
  ultimately obtain t where t: "thn (set_data x (\<lambda>_. blk s b)) (thn (bwrite x) (thn (brelse y) (brelse x))) v = Ret () t"
      "wrote v p {} a (blk s b) t"
    using copy_out_ok [OF *(3,4,5)] *(8) by auto
  have "wrote s p {} a (blk s b) t" using t(2) *(9-13) by (simp add: wrote_def bio_frame_def)
  then show ?thesis using t(1) *(1,2,8) by (simp add: bnd_eq_Ret get_data_def gets_def)
qed

lemma install_step:
  assumes "bio_ok s p {}" and "a \<noteq> b" "a < disksize s" "b < disksize s"
    and "card (dirty_blocks s) < 30" "b \<in> dirty_blocks s \<or> card (dirty_blocks s) < 29"
  shows "\<exists>t. bnd (bread 1 a) (\<lambda>lbuf. bnd (bread 1 b) (\<lambda>dbuf. bnd (get_data lbuf) (\<lambda>d.
     thn (set_data dbuf (\<lambda>_. d)) (thn (bwrite dbuf) (thn (brelse lbuf) (brelse dbuf)))))) s = Ret () t \<and>
     wrote s p {} b (blk s a) t"
proof -
  obtain x u y v where *: "bread 1 a s = Ret x u" "bread 1 b u = Ret y v" "bio_ok v p {x, y}" "x \<noteq> y"
     "b_blockno (bufs v ! x) = a" "b_blockno (bufs v ! y) = b" "b_data (bufs v ! x) = blk s a"
     "b_data (bufs v ! y) = blk s b" "disk v = disk s" "dtrace v = dtrace s" "bio_frame s v"
     "blk v = blk s" "dirty_blocks v = dirty_blocks s"
    using bread_two_ok [OF assms] by blast
  have ok: "bio_ok v p {y, x}" and ne: "y \<noteq> x" using *(3,4) by (simp_all add: insert_commute)
  have "b_dirty (bufs v ! x) \<or> b_data (bufs v ! x) = disk v (unat (b_blockno (bufs v ! x)))"
    by (rule held_clean [OF assms(1) *(3)]) (use * in simp_all)
  moreover have "b < disksize v" using assms(4) *(11) by (simp add: bio_frame_def)
  ultimately obtain t where t: "thn (set_data y (\<lambda>_. blk s a)) (thn (bwrite y) (thn (brelse x) (brelse y))) v = Ret () t"
      "wrote v p {} b (blk s a) t"
    using copy_out_ok [OF ok ne *(6)] *(7) by auto
  have "wrote s p {} b (blk s a) t" using t(2) *(9-13) by (simp add: wrote_def bio_frame_def)
  then show ?thesis using t(1) *(1,2,7) by (simp add: bnd_eq_Ret get_data_def gets_def)
qed

subsection \<open>Sequences of block writes\<close>

definition store_all :: "('k \<times> 'v) list \<Rightarrow> ('k \<Rightarrow> 'v) \<Rightarrow> 'k \<Rightarrow> 'v" where
  "store_all ws f = fold (\<lambda>(n, d) f. f(n := d)) ws f"

lemma store_all_simps [simp]:
  "store_all [] f = f" "store_all ((n, d) # ws) f = store_all ws (f(n := d))"
  "store_all (vs @ ws) f = store_all ws (store_all vs f)"
  by (simp_all add: store_all_def)

lemma store_all_other: "x \<notin> fst ` set ws \<Longrightarrow> store_all ws f x = f x"
  by (induction ws arbitrary: f) auto

lemma store_all_at:
  "inj_on A (set xs) \<Longrightarrow> i \<in> set xs \<Longrightarrow> store_all (map (\<lambda>i. (A i, V i)) xs) f (A i) = V i"
proof (induction xs arbitrary: f)
  case (Cons x xs)
  show ?case
  proof (cases "i \<in> set xs")
    case True
    then show ?thesis using Cons by simp
  next
    case False
    then have "A i \<notin> A ` set xs" using Cons.prems by (auto simp: inj_on_def)
    then have "A i \<notin> fst ` set (map (\<lambda>i. (A i, V i)) xs)" by (auto simp: image_iff)
    then show ?thesis using False Cons.prems(2) by (simp add: store_all_other)
  qed
qed simp

abbreviation on_disk :: "(u32 \<times> block) list \<Rightarrow> (nat \<times> block) list" where
  "on_disk ws \<equiv> map (\<lambda>(n, d). (unat n, d)) ws"

lemma store_on_disk: "store_all (on_disk ws) f (unat m) = store_all ws (\<lambda>m. f (unat m)) m"
proof (induction ws arbitrary: f)
  case (Cons w ws)
  obtain n d where w: "w = (n, d)" by force
  have "(\<lambda>m. (f(unat n := d)) (unat m)) = (\<lambda>m. f (unat m))(n := d)"
    by (auto simp: fun_eq_iff word_unat_eq_iff)
  then show ?case using Cons by (simp add: w)
qed simp

definition wrote_all :: "'a bio_st_scheme \<Rightarrow> nat \<Rightarrow> (u32 \<times> block) list \<Rightarrow> 'a bio_st_scheme \<Rightarrow> bool" where
  "wrote_all s p ws t \<longleftrightarrow> bio_ok t p {} \<and> disksize t = disksize s \<and> disk t = store_all (on_disk ws) (disk s) \<and>
     dtrace t = dtrace s @ on_disk ws \<and> blk t = store_all ws (blk s) \<and>
     dirty_blocks t = dirty_blocks s - fst ` set ws"

lemma wrote_all_Nil: "bio_ok s p {} \<Longrightarrow> wrote_all s p [] s"
  by (simp add: wrote_all_def)

lemma wrote_all_one: "wrote s p {} n d t \<Longrightarrow> wrote_all s p [(n, d)] t"
  by (simp add: wrote_def wrote_all_def bio_frame_def)

lemma wrote_all_trans: "wrote_all s p vs t \<Longrightarrow> wrote_all t p ws u \<Longrightarrow> wrote_all s p (vs @ ws) u"
  by (auto simp: wrote_all_def image_Un)

lemma wrote_all_lg: "wrote_all s p ws t \<Longrightarrow> wrote_all (s\<lparr>lg := x\<rparr>) p ws (t\<lparr>lg := y\<rparr>)"
  by (simp add: wrote_all_def)

lemma write_log_loop:
  assumes "bio_ok s p {}" "card (dirty_blocks s) < 30"
    and "\<forall>i \<in> set xs. A i < disksize s \<and> B i < disksize s \<and> A i \<notin> dirty_blocks s \<and>
       (B i \<in> dirty_blocks s \<or> card (dirty_blocks s) < 29)"
    and "\<forall>i \<in> set xs. \<forall>j \<in> set xs. A i \<noteq> B j"
  shows "\<exists>t. kfor xs (\<lambda>i. bnd (bread 1 (A i)) (\<lambda>to. bnd (bread 1 (B i)) (\<lambda>from. bnd (get_data from) (\<lambda>d.
     thn (set_data to (\<lambda>_. d)) (thn (bwrite to) (thn (brelse from) (brelse to))))))) s = Ret () t \<and>
     wrote_all s p (map (\<lambda>i. (A i, blk s (B i))) xs) t \<and> bio_frame s t"
  using assms
proof (induction xs arbitrary: s)
  case Nil
  then show ?case by (simp add: kop wrote_all_Nil)
next
  case (Cons x xs)
  obtain u where u: "bnd (bread 1 (A x)) (\<lambda>to. bnd (bread 1 (B x)) (\<lambda>from. bnd (get_data from) (\<lambda>d.
     thn (set_data to (\<lambda>_. d)) (thn (bwrite to) (thn (brelse from) (brelse to)))))) s = Ret () u"
     "wrote s p {} (A x) (blk s (B x)) u"
    using write_log_step [of s p "A x" "B x"] Cons.prems by auto
  have up: "bio_ok u p {}" "dirty_blocks u = dirty_blocks s" "disksize u = disksize s" "bio_frame s u"
      "\<And>m. m \<noteq> A x \<Longrightarrow> blk u m = blk s m"
    using u(2) Cons.prems(3) by (auto simp: wrote_def bio_frame_def)
  obtain t where t: "kfor xs (\<lambda>i. bnd (bread 1 (A i)) (\<lambda>to. bnd (bread 1 (B i)) (\<lambda>from. bnd (get_data from) (\<lambda>d.
     thn (set_data to (\<lambda>_. d)) (thn (bwrite to) (thn (brelse from) (brelse to))))))) u = Ret () t"
     "wrote_all u p (map (\<lambda>i. (A i, blk u (B i))) xs) t" "bio_frame u t"
    using Cons.IH [OF up(1)] up(2,3) Cons.prems by auto
  have eq: "map (\<lambda>i. (A i, blk u (B i))) xs = map (\<lambda>i. (A i, blk s (B i))) xs"
    using up(5) Cons.prems(4) by (auto intro!: map_cong)
  have "wrote_all s p (map (\<lambda>i. (A i, blk s (B i))) (x # xs)) t"
    using wrote_all_trans [OF wrote_all_one [OF u(2)] t(2) [unfolded eq]] by simp
  then show ?case using u(1) t(1) bio_frame_trans [OF up(4) t(3)] by (auto simp: thn_eq_Ret)
qed

lemma install_loop:
  assumes "bio_ok s p {}" "card (dirty_blocks s) < 30"
    and "\<forall>i \<in> set xs. A i < disksize s \<and> B i < disksize s \<and> (B i \<in> dirty_blocks s \<or> card (dirty_blocks s) < 29)"
    and "\<forall>i \<in> set xs. \<forall>j \<in> set xs. A i \<noteq> B j"
  shows "\<exists>t. kfor xs (\<lambda>i. bnd (bread 1 (A i)) (\<lambda>lbuf. bnd (bread 1 (B i)) (\<lambda>dbuf. bnd (get_data lbuf) (\<lambda>d.
     thn (set_data dbuf (\<lambda>_. d)) (thn (bwrite dbuf) (thn (brelse lbuf) (brelse dbuf))))))) s = Ret () t \<and>
     wrote_all s p (map (\<lambda>i. (B i, blk s (A i))) xs) t \<and> bio_frame s t"
  using assms
proof (induction xs arbitrary: s)
  case Nil
  then show ?case by (simp add: kop wrote_all_Nil)
next
  case (Cons x xs)
  obtain u where u: "bnd (bread 1 (A x)) (\<lambda>lbuf. bnd (bread 1 (B x)) (\<lambda>dbuf. bnd (get_data lbuf) (\<lambda>d.
     thn (set_data dbuf (\<lambda>_. d)) (thn (bwrite dbuf) (thn (brelse lbuf) (brelse dbuf)))))) s = Ret () u"
     "wrote s p {} (B x) (blk s (A x)) u"
    using install_step [of s p "A x" "B x"] Cons.prems by auto
  have up: "bio_ok u p {}" "dirty_blocks u = dirty_blocks s - {B x}" "disksize u = disksize s" "bio_frame s u"
      "\<And>m. m \<noteq> B x \<Longrightarrow> blk u m = blk s m"
    using u(2) by (auto simp: wrote_def bio_frame_def)
  have le: "card (dirty_blocks u) \<le> card (dirty_blocks s)" unfolding up(2) by (simp add: card_mono)
  have "card (dirty_blocks u) < 29"
  proof (cases "B x \<in> dirty_blocks s")
    case True
    then show ?thesis unfolding up(2) using Cons.prems(2) by (simp add: card_Diff_singleton)
  next
    case False
    then show ?thesis using Cons.prems(3) le by auto
  qed
  then obtain t where t: "kfor xs (\<lambda>i. bnd (bread 1 (A i)) (\<lambda>lbuf. bnd (bread 1 (B i)) (\<lambda>dbuf. bnd (get_data lbuf) (\<lambda>d.
     thn (set_data dbuf (\<lambda>_. d)) (thn (bwrite dbuf) (thn (brelse lbuf) (brelse dbuf))))))) u = Ret () t"
     "wrote_all u p (map (\<lambda>i. (B i, blk u (A i))) xs) t" "bio_frame u t"
    using Cons.IH [OF up(1)] up(3) Cons.prems(3,4) by auto
  have eq: "map (\<lambda>i. (B i, blk u (A i))) xs = map (\<lambda>i. (B i, blk s (A i))) xs"
    using up(5) Cons.prems(4) by (auto intro!: map_cong)
  have "wrote_all s p (map (\<lambda>i. (B i, blk s (A i))) (x # xs)) t"
    using wrote_all_trans [OF wrote_all_one [OF u(2)] t(2) [unfolded eq]] by simp
  then show ?case using u(1) t(1) bio_frame_trans [OF up(4) t(3)] by (auto simp: thn_eq_Ret)
qed

subsection \<open>The header block\<close>

lemma head_fold:
  assumes "length d = 512" and "n \<le> 30"
  shows "length (fold (\<lambda>i d. put32 d (4 + 4 * i) (bs ! i)) [0..<n] d) = 512 \<and>
     get32 (fold (\<lambda>i d. put32 d (4 + 4 * i) (bs ! i)) [0..<n] d) 0 = get32 d 0 \<and>
     (\<forall>i < n. get32 (fold (\<lambda>i d. put32 d (4 + 4 * i) (bs ! i)) [0..<n] d) (4 + 4 * i) = bs ! i)"
  using assms(2)
proof (induction n)
  case 0
  then show ?case using assms(1) by simp
next
  case (Suc n)
  then show ?case by (auto simp: get32_put32_other less_Suc_eq)
qed

lemma head_block_facts:
  assumes "length d = 512" and "n \<le> 30"
  shows "length (head_block n bs d) = 512" and "get32 (head_block n bs d) 0 = of_int n"
    and "i < nat n \<Longrightarrow> get32 (head_block n bs d) (4 + 4 * i) = bs ! i"
  using head_fold [of "put32 d 0 (of_int n)" "nat n" bs] assms by (simp_all add: head_block_def)

lemma modify_block_ok:
  assumes ok: "bio_ok s p {}" and n: "n < disksize s" and room: "card (dirty_blocks s) < 30"
    and len: "length (f (blk s n)) = 512"
  shows "\<exists>t. bnd (bread 1 n) (\<lambda>b. thn (set_data b f) (thn (bwrite b) (brelse b))) s = Ret () t \<and>
     wrote s p {} n (f (blk s n)) t"
proof -
  have "\<exists>c < 30. c \<notin> {} \<and> \<not> b_dirty (bufs s ! c)"
    by (rule buffer_room [OF ok]) (use room in simp)
  then obtain x u where u: "bread 1 n s = Ret x u" "bread_post s p {} n x u"
    using bread_ok [OF ok n] by blast
  have up: "bio_ok u p {x}" "b_blockno (bufs u ! x) = n" "b_data (bufs u ! x) = blk s n" "disk u = disk s"
      "dtrace u = dtrace s" "bio_frame s u" "blk u = blk s" "dirty_blocks u = dirty_blocks s" "x < 30"
    using u(2) by (simp_all add: bread_post_def)
  have "n < disksize u" using n up(6) by (simp add: bio_frame_def)
  then obtain v where v: "thn (set_data x f) (bwrite x) u = Ret () v" "wrote u p {x} n (f (blk s n)) v"
      "bufs v = (bufs u)[x := (bufs u ! x)\<lparr>b_data := f (blk s n), b_dirty := False\<rparr>]"
    using modify_write_ok [OF up(1) insertI1 up(2), of f] up(3) len by auto
  have vp: "bio_ok v p {x}" "disk v = (disk s)(unat n := f (blk s n))" "bio_frame u v"
    using v(2) up(4) by (simp_all add: wrote_def)
  have bv: "bufs v ! x = (bufs u ! x)\<lparr>b_data := f (blk s n), b_dirty := False\<rparr>"
    using v(3) up(9) bio_okD(2) [OF up(1)] by simp
  have "b_dirty (bufs v ! x) \<or> b_data (bufs v ! x) = disk v (unat (b_blockno (bufs v ! x)))"
    using bv vp(2) up(2) by simp
  then obtain t where t: "brelse x v = Ret () t" "bio_ok t p ({x} - {x})" "bio_frame v t" "disk t = disk v"
      "dtrace t = dtrace v" "blk t = blk v" "dirty_blocks t = dirty_blocks v"
    using brelse_clean [OF vp(1) insertI1] by blast
  from bio_frame_trans [OF bio_frame_trans [OF up(6) vp(3)] t(3)]
  have "wrote s p {} n (f (blk s n)) t" using v(2) t(2,4-7) up by (simp add: wrote_def)
  then show ?thesis using u(1) v(1) t(1) by (auto simp: bnd_eq_Ret thn_eq_Ret)
qed

lemma blk_length: "bio_ok s p {} \<Longrightarrow> length (blk s n) = 512"
proof (cases "cached s n")
  case (Some b)
  assume ok: "bio_ok s p {}"
  have "b < 30" using cachedD(1) [OF Some] bio_okD(2) [OF ok] by simp
  then show ?thesis using bio_okD(8) [OF ok] by (simp add: blk_def Some buf_ok_def)
qed (simp add: blk_def bio_okD(5))

lemma write_head_ok:
  assumes ok: "bio_ok s p {}" and "lg_dev (lg s) = 1" and "lg_start (lg s) < disksize s"
    and "card (dirty_blocks s) < 30" and "lh_n (lg s) \<le> 30"
  shows "\<exists>t. write_head s = Ret () t \<and> bio_frame s t \<and>
     wrote_all s p [(lg_start (lg s), head_block (lh_n (lg s)) (lh_block (lg s)) (blk s (lg_start (lg s))))] t"
proof -
  obtain t where t: "bnd (bread 1 (lg_start (lg s))) (\<lambda>b. thn (set_data b (head_block (lh_n (lg s)) (lh_block (lg s))))
      (thn (bwrite b) (brelse b))) s = Ret () t"
      "wrote s p {} (lg_start (lg s)) (head_block (lh_n (lg s)) (lh_block (lg s)) (blk s (lg_start (lg s)))) t"
    using modify_block_ok [OF ok assms(3,4), of "head_block (lh_n (lg s)) (lh_block (lg s))"]
      head_block_facts(1) [OF blk_length [OF ok] assms(5)] by blast
  then show ?thesis
    using wrote_all_one [OF t(2)] assms(2) by (simp add: write_head_def bnd_def get_lg_def gets_def wrote_def)
qed

subsection \<open>Committing\<close>

definition in_log :: "u32 \<Rightarrow> nat \<Rightarrow> bool" where
  "in_log st m \<longleftrightarrow> unat st \<le> m \<and> m < unat st + 30"

definition log_slot :: "u32 \<Rightarrow> nat \<Rightarrow> u32" where
  "log_slot st i = st + of_nat i + 1"

definition log_blocks :: "log \<Rightarrow> u32 list" where
  "log_blocks l = take (nat (lh_n l)) (lh_block l)"

text \<open>
  A well-formed log: at most 29 distinct blocks, all on the disk and outside the log; the log
  has thirty blocks, the header included.
\<close>

definition log_wf :: "'a log_st_scheme \<Rightarrow> bool" where
  "log_wf s \<longleftrightarrow> lg_dev (lg s) = 1 \<and> 0 \<le> lh_n (lg s) \<and> lh_n (lg s) \<le> 29 \<and> length (lh_block (lg s)) = 30 \<and>
     unat (lg_start (lg s)) + 30 \<le> unat (disksize s) \<and> distinct (log_blocks (lg s)) \<and>
     (\<forall>m \<in> set (log_blocks (lg s)). m < disksize s \<and> \<not> in_log (lg_start (lg s)) (unat m))"

lemma unat_log_slot:
  assumes "unat st + 30 \<le> unat (ds :: u32)" and "i < 29"
  shows "unat (log_slot st i) = unat st + i + 1"
proof -
  have "unat st + i + 1 < 2 ^ 32" using assms unat_u32_less [of ds] by simp
  moreover have "log_slot st i = of_nat (unat st + i + 1)" by (simp add: log_slot_def)
  ultimately show ?thesis by (simp only: unat_of_nat) simp
qed

lemma log_slot_facts:
  assumes "unat st + 30 \<le> unat (ds :: u32)"
  shows "i < 29 \<Longrightarrow> log_slot st i < ds" and "i < 29 \<Longrightarrow> in_log st (unat (log_slot st i))"
    and "i < 29 \<Longrightarrow> log_slot st i \<noteq> st" and "inj_on (log_slot st) {0..<29}" and "st < ds" and "in_log st (unat st)"
proof -
  note u = unat_log_slot [OF assms]
  show "i < 29 \<Longrightarrow> log_slot st i < ds" "i < 29 \<Longrightarrow> in_log st (unat (log_slot st i))"
    using u [of i] assms by (simp_all add: word_less_nat_alt in_log_def)
  show "i < 29 \<Longrightarrow> log_slot st i \<noteq> st" using u [of i] by auto
  show "inj_on (log_slot st) {0..<29}"
  proof (rule inj_onI)
    fix i j :: nat
    assume ij: "i \<in> {0..<29}" "j \<in> {0..<29}" and eq: "log_slot st i = log_slot st j"
    have "unat st + i + 1 = unat st + j + 1"
      using u [of i, symmetric] u [of j] ij arg_cong [OF eq, of unat] by (simp only: atLeastLessThan_iff)
    then show "i = j" by simp
  qed
  show "st < ds" using assms by (simp add: word_less_nat_alt)
  show "in_log st (unat st)" by (simp add: in_log_def)
qed

lemma log_wf_facts:
  assumes wf: "log_wf s"
  shows "lg_dev (lg s) = 1" and "nat (lh_n (lg s)) \<le> 29" and "unat (lg_start (lg s)) + 30 \<le> unat (disksize s)"
    and "distinct (log_blocks (lg s))" and "i < nat (lh_n (lg s)) \<Longrightarrow> lh_block (lg s) ! i \<in> set (log_blocks (lg s))"
    and "m \<in> set (log_blocks (lg s)) \<Longrightarrow> m < disksize s \<and> \<not> in_log (lg_start (lg s)) (unat m)"
    and "i < nat (lh_n (lg s)) \<Longrightarrow> log_slot (lg_start (lg s)) i \<notin> set (log_blocks (lg s))"
    and "card (set (log_blocks (lg s))) < 30" and "length (log_blocks (lg s)) = nat (lh_n (lg s))"
    and "i < nat (lh_n (lg s)) \<Longrightarrow> log_blocks (lg s) ! i = lh_block (lg s) ! i"
proof -
  show w: "lg_dev (lg s) = 1" "nat (lh_n (lg s)) \<le> 29" "unat (lg_start (lg s)) + 30 \<le> unat (disksize s)"
    "distinct (log_blocks (lg s))" and len: "length (log_blocks (lg s)) = nat (lh_n (lg s))"
    and nth: "i < nat (lh_n (lg s)) \<Longrightarrow> log_blocks (lg s) ! i = lh_block (lg s) ! i" for i
    using wf by (auto simp: log_wf_def log_blocks_def)
  show "i < nat (lh_n (lg s)) \<Longrightarrow> lh_block (lg s) ! i \<in> set (log_blocks (lg s))"
    using nth_mem [of i "log_blocks (lg s)"] len nth by simp
  show out: "m \<in> set (log_blocks (lg s)) \<Longrightarrow> m < disksize s \<and> \<not> in_log (lg_start (lg s)) (unat m)" for m
    using wf by (auto simp: log_wf_def)
  show "i < nat (lh_n (lg s)) \<Longrightarrow> log_slot (lg_start (lg s)) i \<notin> set (log_blocks (lg s))"
    using out log_slot_facts(2) [OF w(3), of i] w(2) by auto
  show "card (set (log_blocks (lg s))) < 30" using distinct_card [OF w(4)] len w(2) by simp
qed

definition commit_trace :: "'a log_st_scheme \<Rightarrow> (u32 \<times> block) list" where
  "commit_trace s =
     (let l = lg s; n = nat (lh_n l); h = head_block (lh_n l) (lh_block l) (blk s (lg_start l)) in
      map (\<lambda>i. (log_slot (lg_start l) i, blk s (lh_block l ! i))) [0..<n] @ [(lg_start l, h)] @
      map (\<lambda>i. (lh_block l ! i, blk s (lh_block l ! i))) [0..<n] @ [(lg_start l, head_block 0 (lh_block l) h)])"

lemma write_log_ok:
  assumes ok: "bio_ok s p {}" and wf: "log_wf s" and dirty: "dirty_blocks s = set (log_blocks (lg s))"
  shows "\<exists>t. write_log s = Ret () t \<and> bio_frame s t \<and>
     wrote_all s p (map (\<lambda>i. (log_slot (lg_start (lg s)) i, blk s (lh_block (lg s) ! i))) [0..<nat (lh_n (lg s))]) t"
proof -
  let ?l = "lg s" let ?n = "nat (lh_n ?l)"
  note w = log_wf_facts [OF wf]
  note sl = log_slot_facts [OF w(3)]
  have c: "card (dirty_blocks s) < 30" using dirty w(8) by simp
  have "\<exists>t. kfor [0..<?n] (\<lambda>i. bnd (bread 1 (log_slot (lg_start ?l) i)) (\<lambda>to. bnd (bread 1 (lh_block ?l ! i))
      (\<lambda>from. bnd (get_data from) (\<lambda>d. thn (set_data to (\<lambda>_. d)) (thn (bwrite to) (thn (brelse from) (brelse to))))))) s
      = Ret () t \<and> wrote_all s p (map (\<lambda>i. (log_slot (lg_start ?l) i, blk s (lh_block ?l ! i))) [0..<?n]) t \<and>
      bio_frame s t"
  proof (rule write_log_loop [OF ok c])
    show "\<forall>i \<in> set [0..<?n]. log_slot (lg_start ?l) i < disksize s \<and> lh_block ?l ! i < disksize s \<and>
        log_slot (lg_start ?l) i \<notin> dirty_blocks s \<and> (lh_block ?l ! i \<in> dirty_blocks s \<or> card (dirty_blocks s) < 29)"
      using sl(1) w(2,5,6,7) dirty by auto
    show "\<forall>i \<in> set [0..<?n]. \<forall>j \<in> set [0..<?n]. log_slot (lg_start ?l) i \<noteq> lh_block ?l ! j"
      using w(5,7) by (metis atLeastLessThan_iff set_upt)
  qed
  then show ?thesis
    unfolding write_log_def get_lg_def bnd_gets w(1) log_slot_def by blast
qed

lemma install_trans_ok:
  assumes ok: "bio_ok s p {}" and wf: "log_wf s"
    and dirty: "dirty_blocks s = set (log_blocks (lg s)) \<or> dirty_blocks s = {}"
  shows "\<exists>t. install_trans s = Ret () t \<and> bio_frame s t \<and>
     wrote_all s p (map (\<lambda>i. (lh_block (lg s) ! i, blk s (log_slot (lg_start (lg s)) i))) [0..<nat (lh_n (lg s))]) t"
proof -
  let ?l = "lg s" let ?n = "nat (lh_n ?l)"
  note w = log_wf_facts [OF wf]
  note sl = log_slot_facts [OF w(3)]
  have c: "card (dirty_blocks s) < 30" using dirty w(8) by auto
  have "\<exists>t. kfor [0..<?n] (\<lambda>i. bnd (bread 1 (log_slot (lg_start ?l) i)) (\<lambda>lbuf. bnd (bread 1 (lh_block ?l ! i))
      (\<lambda>dbuf. bnd (get_data lbuf) (\<lambda>d. thn (set_data dbuf (\<lambda>_. d)) (thn (bwrite dbuf) (thn (brelse lbuf) (brelse dbuf))))))) s
      = Ret () t \<and> wrote_all s p (map (\<lambda>i. (lh_block ?l ! i, blk s (log_slot (lg_start ?l) i))) [0..<?n]) t \<and>
      bio_frame s t"
  proof (rule install_loop [OF ok c])
    show "\<forall>i \<in> set [0..<?n]. log_slot (lg_start ?l) i < disksize s \<and> lh_block ?l ! i < disksize s \<and>
        (lh_block ?l ! i \<in> dirty_blocks s \<or> card (dirty_blocks s) < 29)"
      using sl(1) w(2,5,6) dirty by auto
    show "\<forall>i \<in> set [0..<?n]. \<forall>j \<in> set [0..<?n]. log_slot (lg_start ?l) i \<noteq> lh_block ?l ! j"
      using w(5,7) by (metis atLeastLessThan_iff set_upt)
  qed
  then show ?thesis
    unfolding install_trans_def get_lg_def bnd_gets w(1) log_slot_def by blast
qed

lemma slot_stored:
  assumes "unat st + 30 \<le> unat (ds :: u32)" and "i < n" and "n \<le> 29"
  shows "store_all (map (\<lambda>i. (log_slot st i, V i)) [0..<n]) f (log_slot st i) = V i"
proof -
  have "inj_on (log_slot st) (set [0..<n])"
    using log_slot_facts(4) [OF assms(1)] assms(3) by (auto intro: inj_on_subset)
  then show ?thesis using assms(2) by (simp add: store_all_at)
qed

lemma log_wf_frame: "bio_frame s t \<Longrightarrow> log_wf t = log_wf s"
  using bio_frame_lg [of s t] by (simp add: log_wf_def bio_frame_def)

lemma commit_ok:
  assumes ok: "bio_ok s p {}" and wf: "log_wf s" and dirty: "dirty_blocks s = set (log_blocks (lg s))"
    and n: "0 < lh_n (lg s)"
  shows "\<exists>t. commit s = Ret () t \<and> lg t = (lg s)\<lparr>lh_n := 0\<rparr> \<and> wrote_all s p (commit_trace s) t"
proof -
  let ?l = "lg s" let ?st = "lg_start ?l" let ?n = "nat (lh_n ?l)" let ?B = "\<lambda>i. lh_block ?l ! i"
  let ?ws = "map (\<lambda>i. (log_slot ?st i, blk s (?B i))) [0..<?n]"
  let ?h = "head_block (lh_n ?l) (lh_block ?l) (blk s ?st)"
  note w = log_wf_facts [OF wf]
  note sl = log_slot_facts [OF w(3)]
  have st: "?st \<notin> set (log_blocks ?l)" using w(6) sl(6) by blast
  have "?st \<noteq> log_slot ?st i" if "i < ?n" for i using sl(3) [of i] that w(2) by (metis less_le_trans)
  then have keys: "fst ` set ?ws \<inter> set (log_blocks ?l) = {}" "?st \<notin> fst ` set ?ws"
    using w(7) by auto
  obtain s1 where s1: "write_log s = Ret () s1" "bio_frame s s1" "wrote_all s p ?ws s1"
    using write_log_ok [OF ok wf dirty] by blast
  have l1: "lg s1 = ?l" "bio_ok s1 p {}" "disksize s1 = disksize s" "dirty_blocks s1 = set (log_blocks ?l)"
      "blk s1 = store_all ?ws (blk s)"
    using s1 bio_frame_lg [OF s1(2)] keys(1) dirty by (auto simp: wrote_all_def)
  have "blk s1 ?st = blk s ?st" unfolding l1(5) using keys(2) by (rule store_all_other)
  then obtain s2 where s2: "write_head s1 = Ret () s2" "bio_frame s1 s2" "wrote_all s1 p [(?st, ?h)] s2"
    using write_head_ok [OF l1(2)] l1 w(1,2,8) sl(5) by (auto simp: nat_le_iff)
  have l2: "lg s2 = ?l" "bio_ok s2 p {}" "disksize s2 = disksize s" "dirty_blocks s2 = set (log_blocks ?l)"
      "blk s2 = (blk s1)(?st := ?h)" "log_wf s2"
    using s2 bio_frame_lg [OF s2(2)] l1 st wf log_wf_frame [OF s1(2)] log_wf_frame [OF s2(2)]
    by (auto simp: wrote_all_def)
  have "blk s2 (log_slot ?st i) = blk s (?B i)" if "i < ?n" for i
    using that w(2) sl(3) slot_stored [OF w(3) that w(2)] by (simp add: l2(5) l1(5))
  then have eq: "map (\<lambda>i. (?B i, blk s2 (log_slot ?st i))) [0..<?n] = map (\<lambda>i. (?B i, blk s (?B i))) [0..<?n]"
    by simp
  obtain s3 where s3: "install_trans s2 = Ret () s3" "bio_frame s2 s3"
      "wrote_all s2 p (map (\<lambda>i. (?B i, blk s (?B i))) [0..<?n]) s3"
    using install_trans_ok [OF l2(2,6), unfolded l2(1,4) eq] by blast
  let ?u = "s3\<lparr>lg := ?l\<lparr>lh_n := 0\<rparr>\<rparr>"
  have "?st \<notin> fst ` set (map (\<lambda>i. (?B i, blk s (?B i))) [0..<?n])" using w(5) st by auto
  then have "blk s3 ?st = ?h" using s3(3) l2(5) by (simp add: wrote_all_def store_all_other)
  moreover have "card (dirty_blocks s3) < 30"
  proof -
    have "dirty_blocks s3 \<subseteq> set (log_blocks ?l)" using s3(3) l2(4) unfolding wrote_all_def by blast
    from card_mono [OF _ this] show ?thesis using w(8) by simp
  qed
  moreover have "bio_ok s3 p {}" "disksize s3 = disksize s" using s3(3) l2(3) by (simp_all add: wrote_all_def)
  ultimately obtain t where t: "write_head ?u = Ret () t" "bio_frame ?u t"
      "wrote_all ?u p [(?st, head_block 0 (lh_block ?l) ?h)] t"
    using write_head_ok [of ?u p] w(1) sl(5) by auto
  have lt: "lg t = ?l\<lparr>lh_n := 0\<rparr>" using bio_frame_lg [OF t(2)] by simp
  have "wrote_all s3 p [(?st, head_block 0 (lh_block ?l) ?h)] t"
    using t(3) by (simp add: wrote_all_def)
  from wrote_all_trans [OF s1(3) wrote_all_trans [OF s2(3) wrote_all_trans [OF s3(3) this]]]
  have "wrote_all s p (commit_trace s) t" by (simp add: commit_trace_def Let_def)
  moreover have "lg s3 = ?l" using bio_frame_lg [OF s3(2)] l2(1) by simp
  ultimately show ?thesis
    using s1(1) s2(1) s3(1) t(1) lt n
    by (simp add: commit_def kop get_lg_def set_lg_def)
qed

lemma set_lg_run: "set_lg f s = Ret () (s\<lparr>lg := f (lg s)\<rparr>)"
  by (simp add: set_lg_def kop)

lemma kfor_set_lg: "kfor xs (\<lambda>i. set_lg (f i)) s = Ret () (s\<lparr>lg := fold f xs (lg s)\<rparr>)"
  by (induction xs arbitrary: s) (simp_all add: kop set_lg_def)

lemma read_blocks:
  assumes "length (lh_block l) = 30" and "n \<le> 30"
  shows "fold (\<lambda>i l. l\<lparr>lh_block := (lh_block l)[i := g i]\<rparr>) [0..<n] l = l\<lparr>lh_block := map g [0..<n] @ drop n (lh_block l)\<rparr>"
  using assms(2)
proof (induction n)
  case (Suc n)
  have "(map g [0..<n] @ drop n (lh_block l))[n := g n] = map g [0..<n] @ (drop n (lh_block l))[0 := g n]"
    by (simp add: list_update_append)
  moreover have "(drop n (lh_block l))[0 := g n] = g n # drop (Suc n) (lh_block l)"
    using Suc.prems assms(1) by (metis Cons_nth_drop_Suc less_le_trans list_update_code(2) Suc_le_lessD)
  ultimately show ?case using Suc by simp
qed simp

subsection \<open>Recovery\<close>

text \<open>The number of blocks and the block numbers in a header block.\<close>

definition head_count :: "block \<Rightarrow> int" where
  "head_count h = sint (get32 h 0)"

definition head_blocks :: "block \<Rightarrow> u32 list" where
  "head_blocks h = map (\<lambda>i. get32 h (4 + 4 * i)) [0..<nat (head_count h)]"

lemma read_head_ok:
  assumes ok: "bio_ok s p {}" and clean: "dirty_blocks s = {}" and dev: "lg_dev (lg s) = 1"
    and st: "lg_start (lg s) < disksize s" and len: "length (lh_block (lg s)) = 30"
    and h: "h = disk s (unat (lg_start (lg s)))" "head_count h \<le> 29"
  shows "\<exists>t. read_head s = Ret () t \<and> wrote_all s p [] t \<and> lg t = (lg s)\<lparr>lh_n := head_count h,
     lh_block := head_blocks h @ drop (nat (head_count h)) (lh_block (lg s))\<rparr>"
proof -
  let ?st = "lg_start (lg s)" let ?n = "nat (head_count h)"
  have "\<exists>c < 30. c \<notin> {} \<and> \<not> b_dirty (bufs s ! c)"
    by (rule buffer_room [OF ok]) (use clean in simp)
  then obtain x u where u: "bread 1 ?st s = Ret x u" "bread_post s p {} ?st x u"
    using bread_ok [OF ok st] by blast
  have up: "bio_ok u p {x}" "b_blockno (bufs u ! x) = ?st" "b_data (bufs u ! x) = h" "disk u = disk s"
      "dtrace u = dtrace s" "bio_frame s u" "blk u = blk s" "dirty_blocks u = dirty_blocks s" "x < 30"
      "b_data (bufs u ! x) = blk s (b_blockno (bufs u ! x))"
    using u(2) blk_clean [OF ok, of ?st] clean h by (simp_all add: bread_post_def)
  define l where "l = (lg s)\<lparr>lh_n := head_count h, lh_block := head_blocks h @ drop ?n (lh_block (lg s))\<rparr>"
  have hc: "b_dirty (bufs u ! x) \<or> b_data (bufs u ! x) = disk u (unat (b_blockno (bufs u ! x)))"
    by (rule held_clean [OF ok up(1) insertI1 up(10,4,8)])
  have okl: "bio_ok (u\<lparr>lg := l\<rparr>) p {x}" using up(1) by simp
  obtain t where t: "brelse x (u\<lparr>lg := l\<rparr>) = Ret () t" "bio_ok t p ({x} - {x})" "bio_frame (u\<lparr>lg := l\<rparr>) t"
      "disk t = disk u" "dtrace t = dtrace u" "blk t = blk u" "dirty_blocks t = dirty_blocks u"
    using brelse_clean [OF okl insertI1] hc by auto
  have lt: "lg t = l" using bio_frame_lg [OF t(3)] by simp
  have "fold (\<lambda>i l. l\<lparr>lh_block := (lh_block l)[i := get32 h (4 + 4 * i)]\<rparr>) [0..<?n] ((lg s)\<lparr>lh_n := head_count h\<rparr>) = l"
    using read_blocks [of "(lg s)\<lparr>lh_n := head_count h\<rparr>" ?n] len h(2) by (simp add: l_def head_blocks_def)
  moreover have "\<not> 30 < ?n" using h(2) by (simp add: nat_le_iff)
  ultimately have "read_head s = Ret () t"
    using u(1) t(1) dev up(3) bio_frame_lg [OF up(6)]
    by (simp add: read_head_def kop get_lg_def get_data_def kfor_set_lg set_lg_run head_count_def)
  moreover have "wrote_all s p [] t"
    using t up bio_frame_size [OF up(6)] bio_frame_size [OF t(3)] by (simp add: wrote_all_def)
  ultimately show ?thesis using lt l_def by blast
qed

text \<open>A disk with a valid log: what \<open>recover_from_log\<close> relies on.\<close>

definition log_disk :: "u32 \<Rightarrow> u32 \<Rightarrow> (nat \<Rightarrow> block) \<Rightarrow> bool" where
  "log_disk ds st d \<longleftrightarrow> unat st + 30 \<le> unat ds \<and> 0 \<le> head_count (d (unat st)) \<and> head_count (d (unat st)) \<le> 29 \<and>
     distinct (head_blocks (d (unat st))) \<and>
     (\<forall>m \<in> set (head_blocks (d (unat st))). m < ds \<and> \<not> in_log st (unat m))"

text \<open>A machine that has just booted: nothing is held and nothing is dirty.\<close>

definition fresh :: "'a log_st_scheme \<Rightarrow> nat \<Rightarrow> bool" where
  "fresh s p \<longleftrightarrow> bio_ok s p {} \<and> dirty_blocks s = {} \<and> lg_dev (lg s) = 1 \<and> length (lh_block (lg s)) = 30"

definition recover_trace :: "log \<Rightarrow> (nat \<Rightarrow> block) \<Rightarrow> (u32 \<times> block) list" where
  "recover_trace l d =
     (let st = lg_start l; h = d (unat st); bs = head_blocks h @ drop (nat (head_count h)) (lh_block l) in
      map (\<lambda>i. (bs ! i, d (unat (log_slot st i)))) [0..<nat (head_count h)] @ [(st, head_block 0 bs h)])"

lemma recover_ok:
  assumes fr: "fresh s p" and ld: "log_disk (disksize s) (lg_start (lg s)) (disk s)"
  shows "\<exists>t. recover_from_log s = Ret () t \<and> wrote_all s p (recover_trace (lg s) (disk s)) t"
proof -
  let ?st = "lg_start (lg s)" let ?h = "disk s (unat ?st)" let ?n = "nat (head_count ?h)"
  let ?bs = "head_blocks ?h @ drop ?n (lh_block (lg s))"
  have f: "bio_ok s p {}" "dirty_blocks s = {}" "lg_dev (lg s) = 1" "length (lh_block (lg s)) = 30"
    using fr by (simp_all add: fresh_def)
  have d: "unat ?st + 30 \<le> unat (disksize s)" "?n \<le> 29" "head_count ?h \<le> 29" "0 \<le> head_count ?h"
    using ld by (auto simp: log_disk_def nat_le_iff)
  note sl = log_slot_facts [OF d(1)]
  obtain s1 where s1: "read_head s = Ret () s1" "wrote_all s p [] s1"
      "lg s1 = (lg s)\<lparr>lh_n := head_count ?h, lh_block := ?bs\<rparr>"
    using read_head_ok [OF f(1-3) sl(5) f(4) refl d(3)] by blast
  have l1: "bio_ok s1 p {}" "dirty_blocks s1 = {}" "disk s1 = disk s" "disksize s1 = disksize s" "blk s1 = blk s"
    using s1(2) f(2) by (simp_all add: wrote_all_def)
  have lb: "log_blocks (lg s1) = head_blocks ?h" by (simp add: log_blocks_def s1(3) head_blocks_def)
  have wf1: "log_wf s1" using ld f lb d by (simp add: log_wf_def log_disk_def s1(3) l1(4) head_blocks_def)
  have clean: "blk s1 m = disk s (unat m)" for m using blk_clean [OF l1(1)] l1(2,3) by simp
  obtain s2 where s2: "install_trans s1 = Ret () s2" "bio_frame s1 s2"
      "wrote_all s1 p (map (\<lambda>i. (?bs ! i, disk s (unat (log_slot ?st i)))) [0..<?n]) s2"
    using install_trans_ok [OF l1(1) wf1] l1(2) unfolding clean s1(3) by auto
  let ?u = "s2\<lparr>lg := (lg s2)\<lparr>lh_n := 0\<rparr>\<rparr>"
  have l2: "bio_ok s2 p {}" "dirty_blocks s2 = {}" "disksize s2 = disksize s" "lg s2 = lg s1"
    using s2(3) l1 bio_frame_lg [OF s2(2)] by (simp_all add: wrote_all_def)
  have "?st \<notin> fst ` set (map (\<lambda>i. (?bs ! i, disk s (unat (log_slot ?st i)))) [0..<?n])"
  proof
    assume "?st \<in> fst ` set (map (\<lambda>i. (?bs ! i, disk s (unat (log_slot ?st i)))) [0..<?n])"
    then obtain i where "i < ?n" "?st = ?bs ! i" by auto
    then have "?st \<in> set (log_blocks (lg s1))" using log_wf_facts(5) [OF wf1, of i] by (simp add: s1(3))
    then show False using log_wf_facts(6) [OF wf1] sl(6) by (auto simp: s1(3))
  qed
  then have "blk s2 ?st = ?h" using s2(3) clean by (simp add: wrote_all_def store_all_other)
  then obtain t where t: "write_head ?u = Ret () t" "wrote_all ?u p [(?st, head_block 0 ?bs ?h)] t"
    using write_head_ok [of ?u p] l2 f(3) sl(5) s1(3) by auto
  have "wrote_all s2 p [(?st, head_block 0 ?bs ?h)] t" using t(2) by (simp add: wrote_all_def)
  from wrote_all_trans [OF s1(2) wrote_all_trans [OF s2(3) this]]
  have "wrote_all s p (recover_trace (lg s) (disk s)) t" by (simp add: recover_trace_def Let_def)
  moreover have "recover_from_log s = Ret () t"
    using s1(1) s2(1) t(1) by (simp add: recover_from_log_def kop set_lg_run)
  ultimately show ?thesis by blast
qed

text \<open>The effect of recovery on the blocks outside the log.\<close>

lemma recover_home:
  assumes fr: "fresh s p" and ld: "log_disk (disksize s) st (disk s)" and st: "lg_start (lg s) = st"
  shows "\<exists>t. recover_from_log s = Ret () t \<and> (\<forall>m. \<not> in_log st (unat m) \<longrightarrow> disk t (unat m) =
     store_all (map (\<lambda>i. (head_blocks (disk s (unat st)) ! i, disk s (unat (log_slot st i))))
       [0..<nat (head_count (disk s (unat st)))]) (\<lambda>m. disk s (unat m)) m)"
proof -
  let ?h = "disk s (unat st)" let ?n = "nat (head_count ?h)"
  let ?bs = "head_blocks ?h @ drop ?n (lh_block (lg s))"
  obtain t where t: "recover_from_log s = Ret () t" "wrote_all s p (recover_trace (lg s) (disk s)) t"
    using recover_ok [OF fr] ld st by blast
  have "map (\<lambda>i. (?bs ! i, disk s (unat (log_slot st i)))) [0..<?n] =
      map (\<lambda>i. (head_blocks ?h ! i, disk s (unat (log_slot st i)))) [0..<?n]"
    by (simp add: nth_append head_blocks_def)
  then have tr: "recover_trace (lg s) (disk s) =
      map (\<lambda>i. (head_blocks ?h ! i, disk s (unat (log_slot st i)))) [0..<?n] @ [(st, head_block 0 ?bs ?h)]"
    by (simp add: recover_trace_def Let_def st)
  have "disk t (unat m) = store_all (recover_trace (lg s) (disk s)) (\<lambda>m. disk s (unat m)) m" for m
    using t(2) by (simp add: wrote_all_def store_on_disk)
  moreover have "m \<noteq> st" if "\<not> in_log st (unat m)" for m
    using that by (auto simp: in_log_def)
  ultimately show ?thesis using t(1) by (simp add: tr)
qed

lemma head_count_block:
  assumes "length d = 512" and "0 \<le> n" "n \<le> 29"
  shows "head_count (head_block n bs d) = n"
proof -
  have "sint (of_int n :: u32) = n" using assms(2,3) by (simp add: signed_of_int signed_take_bit_int_eq_self)
  then show ?thesis using head_block_facts(2) [of d n bs] assms by (simp add: head_count_def)
qed

lemma head_blocks_block:
  assumes "length d = 512" and "0 \<le> n" "n \<le> 29" and "length bs = 30"
  shows "head_blocks (head_block n bs d) = take (nat n) bs"
  unfolding head_blocks_def head_count_block [OF assms(1-3)]
  using head_block_facts(3) [of d n _ bs] assms by (intro nth_equalityI) auto

text \<open>
  The disk after the first \<open>k\<close> writes of a commit, as the blocks \<open>m\<close> of the disk: before the
  header is written, between the two header writes, and after the second one.
\<close>

definition crash_disk :: "'a log_st_scheme \<Rightarrow> nat \<Rightarrow> u32 \<Rightarrow> block" where
  "crash_disk s k = store_all (take k (commit_trace s)) (\<lambda>m. disk s (unat m))"

lemma crash_before:
  assumes wf: "log_wf s" and k: "k \<le> nat (lh_n (lg s))" and m: "m = lg_start (lg s) \<or> \<not> in_log (lg_start (lg s)) (unat m)"
  shows "crash_disk s k m = disk s (unat m)"
proof -
  let ?l = "lg s" let ?st = "lg_start ?l"
  note w = log_wf_facts [OF wf]
  note sl = log_slot_facts [OF w(3)]
  have "take k (commit_trace s) = map (\<lambda>i. (log_slot ?st i, blk s (lh_block ?l ! i))) [0..<k]"
    using k by (simp add: commit_trace_def Let_def take_map)
  moreover have "m \<notin> log_slot ?st ` {0..<k}"
  proof
    assume "m \<in> log_slot ?st ` {0..<k}"
    then obtain i where "m = log_slot ?st i" "i < 29" using k w(2) by auto
    then show False using m sl(2,3) [of i] by auto
  qed
  then have "m \<notin> fst ` set (map (\<lambda>i. (log_slot ?st i, blk s (lh_block ?l ! i))) [0..<k])"
    by (auto simp: image_iff)
  ultimately show ?thesis unfolding crash_disk_def by (simp add: store_all_other)
qed

lemma crash_mid:
  assumes ok: "bio_ok s p {}" and wf: "log_wf s" and dirty: "dirty_blocks s = set (log_blocks (lg s))"
    and k: "nat (lh_n (lg s)) < k" "k < 2 * nat (lh_n (lg s)) + 2"
  shows "crash_disk s k (lg_start (lg s)) = head_block (lh_n (lg s)) (lh_block (lg s)) (blk s (lg_start (lg s)))"
    and "i < nat (lh_n (lg s)) \<Longrightarrow> crash_disk s k (log_slot (lg_start (lg s)) i) = blk s (lh_block (lg s) ! i)"
    and "\<not> in_log (lg_start (lg s)) (unat m) \<Longrightarrow> m \<notin> set (log_blocks (lg s)) \<Longrightarrow> crash_disk s k m = blk s m"
proof -
  let ?l = "lg s" let ?st = "lg_start ?l" let ?n = "nat (lh_n ?l)" let ?B = "\<lambda>i. lh_block ?l ! i"
  let ?ws = "map (\<lambda>i. (log_slot ?st i, blk s (?B i))) [0..<?n]"
  let ?h = "head_block (lh_n ?l) (lh_block ?l) (blk s ?st)"
  let ?is = "map (\<lambda>i. (?B i, blk s (?B i))) [0..<k - ?n - 1]"
  note w = log_wf_facts [OF wf]
  note sl = log_slot_facts [OF w(3)]
  have "take k (commit_trace s) = ?ws @ (?st, ?h) # ?is"
    using k by (cases "k - ?n") (auto simp: commit_trace_def Let_def take_map)
  then have cd: "crash_disk s k = store_all ?is ((store_all ?ws (\<lambda>m. disk s (unat m)))(?st := ?h))"
    by (simp add: crash_disk_def)
  have keys: "fst ` set ?is \<subseteq> set (log_blocks ?l)" using w(5) k(2) by auto
  have st: "?st \<notin> set (log_blocks ?l)" using w(6) sl(6) by blast
  then show "crash_disk s k ?st = ?h" unfolding cd using keys by (subst store_all_other) auto
  show "crash_disk s k (log_slot ?st i) = blk s (?B i)" if i: "i < ?n"
  proof -
    have "log_slot ?st i \<notin> fst ` set ?is" using keys w(7) [OF i] by blast
    then show ?thesis
      unfolding cd using sl(3) [of i] i w(2) slot_stored [OF w(3) i w(2)] by (simp add: store_all_other)
  qed
  show "crash_disk s k m = blk s m" if m: "\<not> in_log ?st (unat m)" "m \<notin> set (log_blocks ?l)" for m
  proof -
    have "m \<notin> fst ` set ?is" using keys m(2) by blast
    moreover have "m \<notin> fst ` set ?ws" using m(1) sl(2) w(2) by auto
    moreover have "m \<noteq> ?st" using m(1) sl(6) by auto
    moreover have "blk s m = disk s (unat m)" using blk_clean [OF ok] dirty m(2) by simp
    ultimately show ?thesis unfolding cd by (simp add: store_all_other)
  qed
qed

lemma crash_after:
  assumes ok: "bio_ok s p {}" and wf: "log_wf s" and dirty: "dirty_blocks s = set (log_blocks (lg s))"
    and k: "2 * nat (lh_n (lg s)) + 2 \<le> k"
  shows "head_count (crash_disk s k (lg_start (lg s))) = 0"
    and "\<not> in_log (lg_start (lg s)) (unat m) \<Longrightarrow> crash_disk s k m = blk s m"
proof -
  let ?l = "lg s" let ?st = "lg_start ?l" let ?n = "nat (lh_n ?l)" let ?B = "\<lambda>i. lh_block ?l ! i"
  let ?h = "head_block (lh_n ?l) (lh_block ?l) (blk s ?st)"
  let ?is = "map (\<lambda>i. (?B i, blk s (?B i))) [0..<?n]"
  note w = log_wf_facts [OF wf]
  note sl = log_slot_facts [OF w(3)]
  let ?c = "crash_disk s (2 * ?n + 1)"
  have n: "?n < 2 * ?n + 1" "2 * ?n + 1 < 2 * ?n + 2" by simp_all
  have tr: "take k (commit_trace s) = take (2 * ?n + 1) (commit_trace s) @ [(?st, head_block 0 (lh_block ?l) ?h)]"
    using k by (simp add: commit_trace_def Let_def)
  then have cd: "crash_disk s k = ?c(?st := head_block 0 (lh_block ?l) ?h)" by (simp add: crash_disk_def)
  have "length ?h = 512" using head_block_facts(1) [OF blk_length [OF ok]] w(2) by (simp add: nat_le_iff)
  then show "head_count (crash_disk s k ?st) = 0" unfolding cd using head_count_block [of ?h 0] by simp
  show "crash_disk s k m = blk s m" if m: "\<not> in_log ?st (unat m)" for m
  proof (cases "m \<in> set (log_blocks ?l)")
    case True
    then obtain i where i: "i < ?n" "m = ?B i" using w(9,10) by (auto simp: in_set_conv_nth)
    have "inj_on ?B (set [0..<?n])"
    proof (rule inj_onI)
      fix a b assume "a \<in> set [0..<?n]" "b \<in> set [0..<?n]" "?B a = ?B b"
      then show "a = b" using w(4,9) w(10) [of a] w(10) [of b] nth_eq_iff_index_eq [OF w(4), of a b] by auto
    qed
    then have "store_all ?is f (?B i) = blk s (?B i)" for f
      using i(1) by (intro store_all_at) simp_all
    moreover have "m \<noteq> ?st" using m sl(6) by auto
    ultimately show ?thesis
      using i(2) unfolding cd by (simp add: crash_disk_def commit_trace_def Let_def)
  next
    case False
    moreover have "m \<noteq> ?st" using m sl(6) by auto
    ultimately show ?thesis unfolding cd using crash_mid(3) [OF ok wf dirty n m] by simp
  qed
qed

lemma crash_recovery:
  assumes ok: "bio_ok s p {}" and wf: "log_wf s" and dirty: "dirty_blocks s = set (log_blocks (lg s))"
    and clean: "head_count (disk s (unat (lg_start (lg s)))) = 0"
    and fr: "fresh b q" and bs: "disksize b = disksize s" "lg_start (lg b) = lg_start (lg s)"
    and d: "disk b = store_all (take k (on_disk (commit_trace s))) (disk s)"
  shows "\<exists>r. recover_from_log b = Ret () r \<and> (\<forall>m. \<not> in_log (lg_start (lg s)) (unat m) \<longrightarrow>
     disk r (unat m) = (if k \<le> nat (lh_n (lg s)) then disk s (unat m) else blk s m))"
proof -
  let ?l = "lg s" let ?st = "lg_start ?l" let ?n = "nat (lh_n ?l)" let ?h = "disk b (unat ?st)"
  note w = log_wf_facts [OF wf]
  have db: "disk b (unat m) = crash_disk s k m" for m
    unfolding d crash_disk_def by (simp only: take_map store_on_disk)
  have dst: "?h = crash_disk s k ?st" by (rule db)
  have none: "log_disk (disksize b) ?st (disk b) \<and> nat (head_count ?h) = 0" if "head_count ?h = 0"
    using that w(3) bs(1) by (simp add: log_disk_def head_blocks_def)
  consider "k \<le> ?n" | "?n < k" "k < 2 * ?n + 2" | "2 * ?n + 2 \<le> k" by linarith
  then show ?thesis
  proof cases
    case 1
    then have h: "head_count ?h = 0" using crash_before [OF wf] clean by (simp add: dst)
    show ?thesis
      using recover_home [OF fr, of ?st] none [OF h] bs(2) 1 crash_before [OF wf 1] by (simp add: db)
  next
    case 2
    have wl: "0 \<le> lh_n ?l" "lh_n ?l \<le> 29" "length (lh_block ?l) = 30" using wf by (simp_all add: log_wf_def)
    have h: "head_count ?h = lh_n ?l" "head_blocks ?h = log_blocks ?l"
      unfolding dst crash_mid(1) [OF ok wf dirty 2]
      using head_count_block [OF blk_length [OF ok] wl(1,2)] head_blocks_block [OF blk_length [OF ok] wl]
      by (simp_all add: log_blocks_def)
    have ld: "log_disk (disksize b) ?st (disk b)" using wf bs(1) by (simp add: log_disk_def h log_wf_def)
    have eq: "map (\<lambda>i. (log_blocks ?l ! i, disk b (unat (log_slot ?st i)))) [0..<?n] =
        map (\<lambda>i. (log_blocks ?l ! i, blk s (log_blocks ?l ! i))) [0..<?n]"
      using crash_mid(2) [OF ok wf dirty 2] w(10) by (simp add: db)
    obtain r where r: "recover_from_log b = Ret () r" "\<And>m. \<not> in_log ?st (unat m) \<Longrightarrow> disk r (unat m) =
        store_all (map (\<lambda>i. (log_blocks ?l ! i, blk s (log_blocks ?l ! i))) [0..<?n]) (crash_disk s k) m"
      using recover_home [OF fr ld bs(2), unfolded h, unfolded eq, unfolded db] by blast
    have "disk r (unat m) = blk s m" if m: "\<not> in_log ?st (unat m)" for m
    proof (cases "m \<in> set (log_blocks ?l)")
      case True
      then obtain i where i: "i < ?n" "m = log_blocks ?l ! i" using w(9) by (auto simp: in_set_conv_nth)
      have "inj_on (nth (log_blocks ?l)) (set [0..<?n])" using inj_on_nth [OF w(4)] w(9) by simp
      then show ?thesis unfolding r(2) [OF m] unfolding i(2) using i(1) by (subst store_all_at) simp_all
    next
      case False
      then have "m \<notin> fst ` set (map (\<lambda>i. (log_blocks ?l ! i, blk s (log_blocks ?l ! i))) [0..<?n])"
        using w(9) by auto
      then show ?thesis unfolding r(2) [OF m] using crash_mid(3) [OF ok wf dirty 2 m False] by (simp add: store_all_other)
    qed
    then show ?thesis using r(1) 2(1) by (intro exI [of _ r]) simp
  next
    case 3
    then have h: "head_count ?h = 0" using crash_after(1) [OF ok wf dirty] by (simp add: dst)
    show ?thesis
      using recover_home [OF fr, of ?st] none [OF h] bs(2) 3 crash_after(2) [OF ok wf dirty 3] by (simp add: db)
  qed
qed

subsection \<open>Logging a block\<close>

text \<open>The dirty blocks of the cache are the blocks of the log.\<close>

definition log_ok :: "'a log_st_scheme \<Rightarrow> bool" where
  "log_ok s \<longleftrightarrow> log_wf s \<and> dirty_blocks s = set (log_blocks (lg s))"

lemma set_dirty_ok:
  assumes ok: "bio_ok s p H" and bH: "b \<in> H"
    and t: "t = s\<lparr>bufs := list_upd (bufs s) b (\<lambda>x. x\<lparr>b_dirty := True\<rparr>)\<rparr>"
  shows "bio_ok t p H \<and> blk t = blk s \<and> dirty_blocks t = insert (b_blockno (bufs s ! b)) (dirty_blocks s)"
proof -
  have len: "length (bufs s) = 30" and b: "b < 30" using bio_okD(2,4) [OF ok] bH by auto
  have bo: "buf_ok True (mypid s p) (slocks s (SLBuf b)) (disk s) (bufs s ! b)"
    using bio_okD(8) [OF ok b] bH by simp
  have nth: "b_dev (bufs t ! c) = b_dev (bufs s ! c) \<and> b_blockno (bufs t ! c) = b_blockno (bufs s ! c) \<and>
      b_data (bufs t ! c) = b_data (bufs s ! c) \<and> b_dirty (bufs t ! c) = (c = b \<or> b_dirty (bufs s ! c)) \<and>
      b_valid (bufs t ! c) = b_valid (bufs s ! c) \<and> b_refcnt (bufs t ! c) = b_refcnt (bufs s ! c)" for c
    using b len by (cases "c = b") (simp_all add: t list_upd_def)
  have rest: "disk t = disk s" "slocks t = slocks s" "mypid t p = mypid s p" by (simp_all add: t)
  have okt: "bio_ok t p H"
    unfolding bio_ok_def
  proof (intro conjI allI impI)
    fix c :: nat assume c: "c < 30"
    then show "buf_ok (c \<in> H) (mypid t p) (slocks t (SLBuf c)) (disk t) (bufs t ! c)"
      using bio_okD(8) [OF ok c] bo bH by (cases "c = b") (auto simp: nth rest buf_ok_def)
  next
    fix c e :: nat
    assume "c < 30" "e < 30" "b_dev (bufs t ! c) = 1 \<and> b_dev (bufs t ! e) = 1 \<and>
        b_blockno (bufs t ! c) = b_blockno (bufs t ! e)"
    then show "c = e" using bio_okD(9) [OF ok] by (simp add: nth)
  qed (use ok b len in \<open>auto simp: t bio_ok_def\<close>)
  have "blk t m = blk s m" for m
    using blk_cong [OF ok okt, of m] nth by (simp add: blk_def rest split: option.splits)
  moreover have "dirty_blocks t = insert (b_blockno (bufs s ! b)) (dirty_blocks s)"
    unfolding dirty_blocks_nth [OF len] dirty_blocks_nth [OF bio_okD(2) [OF okt]]
    using nth b by auto
  ultimately show ?thesis using okt by auto
qed

lemma absorb_index_found:
  assumes "absorb_index l n = i" and "0 \<le> lh_n l" and "nat (lh_n l) < length (lh_block l)"
  shows "int i = lh_n l \<longleftrightarrow> n \<notin> set (log_blocks l)" and "int i \<noteq> lh_n l \<Longrightarrow> i < nat (lh_n l) \<and> lh_block l ! i = n"
proof -
  have "(int i = lh_n l \<longleftrightarrow> n \<notin> set (log_blocks l)) \<and> (int i \<noteq> lh_n l \<longrightarrow> i < nat (lh_n l) \<and> lh_block l ! i = n)"
  proof (cases "find_index (\<lambda>m. m = n) (take (nat (lh_n l)) (lh_block l))")
    case None
    then have "i = nat (lh_n l)" using assms(1) by (simp add: absorb_index_def)
    moreover have "n \<notin> set (log_blocks l)" using None by (auto simp: find_index_None_iff log_blocks_def)
    ultimately show ?thesis using assms(2) by simp
  next
    case (Some j)
    have j: "j < nat (lh_n l)" "lh_block l ! j = n" using find_index_SomeD(1,2) [OF Some] by auto
    then have "n \<in> set (take (nat (lh_n l)) (lh_block l))"
      using find_index_SomeD(1,2) [OF Some] by (metis nth_mem)
    then show ?thesis using Some j assms(1) by (auto simp: absorb_index_def log_blocks_def)
  qed
  then show "int i = lh_n l \<longleftrightarrow> n \<notin> set (log_blocks l)" "int i \<noteq> lh_n l \<Longrightarrow> i < nat (lh_n l) \<and> lh_block l ! i = n"
    by blast+
qed

text \<open>The log after \<open>log_write\<close>: a block that is in the log is absorbed, another one is appended.\<close>

definition log_add :: "u32 \<Rightarrow> log \<Rightarrow> log" where
  "log_add n l = (if n \<in> set (log_blocks l) then l
     else l\<lparr>lh_block := (lh_block l)[nat (lh_n l) := n], lh_n := lh_n l + 1\<rparr>)"

lemma log_blocks_add:
  assumes "0 \<le> lh_n l" and "nat (lh_n l) < length (lh_block l)"
  shows "log_blocks (log_add n l) = (if n \<in> set (log_blocks l) then log_blocks l else log_blocks l @ [n])"
  using assms by (simp add: log_add_def log_blocks_def nat_add_distrib take_Suc_conv_app_nth)

lemma log_write_ok:
  assumes ok: "bio_ok s p H" and b: "b \<in> H" and lok: "log_ok s" and n: "b_blockno (bufs s ! b) = n" "n < disksize s"
      "\<not> in_log (lg_start (lg s)) (unat n)"
    and room: "lh_n (lg s) < 29" "lg_size (lg s) = 30" "1 \<le> lg_outstanding (lg s)"
  shows "\<exists>t. log_write b s = Ret () t \<and> bio_ok t p H \<and> log_ok t \<and> lg t = log_add n (lg s) \<and> blk t = blk s \<and>
     disk t = disk s \<and> dtrace t = dtrace s \<and> disksize t = disksize s \<and> log_st.more t = log_st.more s \<and>
     bufs t = (bufs s)[b := (bufs s ! b)\<lparr>b_dirty := True\<rparr>]"
proof -
  have wf: "log_wf s" and dirty: "dirty_blocks s = set (log_blocks (lg s))" using lok by (simp_all add: log_ok_def)
  have l: "0 \<le> lh_n (lg s)" "nat (lh_n (lg s)) < length (lh_block (lg s))" using wf room by (auto simp: log_wf_def)
  note q = quietD [OF bio_okD(1) [OF ok]]
  define i where "i = absorb_index (lg s) n"
  define u where "u = s\<lparr>lg := log_add n (lg s)\<rparr>"
  define v where "v = u\<lparr>bufs := list_upd (bufs u) b (\<lambda>x. x\<lparr>b_dirty := True\<rparr>)\<rparr>"
  have add: "(if int i = lh_n (lg s) then (lg s)\<lparr>lh_block := (lh_block (lg s))[i := n], lh_n := lh_n (lg s) + 1\<rparr>
      else (lg s)\<lparr>lh_block := (lh_block (lg s))[i := n]\<rparr>) = log_add n (lg s)"
  proof (cases "int i = lh_n (lg s)")
    case True
    then have "nat (lh_n (lg s)) = i" by simp
    then show ?thesis using True absorb_index_found(1) [OF i_def [symmetric] l] by (simp add: log_add_def)
  next
    case False
    then show ?thesis using absorb_index_found [OF i_def [symmetric] l] by (auto simp: log_add_def)
  qed
  have run: "log_write b s = Ret () (settle v)"
    using room q n(1) add unfolding i_def
    by (auto simp: log_write_def kop get_lg_def acquire_ok release_on get_buf_def set_lg_def set_buf_def Let_def v_def u_def
        split: if_splits)
  have "bio_ok u p H" using ok by (simp add: u_def)
  from set_dirty_ok [OF this b v_def]
  have v: "bio_ok v p H" "blk v = blk s" "dirty_blocks v = insert n (dirty_blocks s)" using n by (simp_all add: u_def)
  have lv: "lg v = log_add n (lg s)" by (simp add: v_def u_def)
  have "log_ok (settle v)"
    using wf n room dirty log_blocks_add [OF l, of n] v(3)
    by (auto simp: log_ok_def log_wf_def lv) (auto simp: log_add_def v_def u_def)
  then show ?thesis
    using run v lv by (simp add: bio_ok_settle) (simp add: v_def u_def list_upd_def)
qed

subsection \<open>Operations of the file system\<close>

lemma commit_home:
  assumes ok: "bio_ok s p {}" and lok: "log_ok s"
  shows "\<exists>t. commit s = Ret () t \<and> lg t = (lg s)\<lparr>lh_n := 0\<rparr> \<and> bio_ok t p {} \<and> dirty_blocks t = {} \<and>
     disksize t = disksize s \<and> (\<forall>m. \<not> in_log (lg_start (lg s)) (unat m) \<longrightarrow> disk t (unat m) = blk s m \<and> blk t m = blk s m)"
proof -
  have wf: "log_wf s" and dirty: "dirty_blocks s = set (log_blocks (lg s))" using lok by (simp_all add: log_ok_def)
  note w = log_wf_facts [OF wf]
  show ?thesis
  proof (cases "0 < lh_n (lg s)")
    case False
    then have n: "lh_n (lg s) = 0" using wf by (simp add: log_wf_def)
    then have d: "dirty_blocks s = {}" using dirty by (simp add: log_blocks_def)
    have "blk s m = disk s (unat m)" for m using blk_clean [OF ok] d by simp
    moreover have "lg s = (lg s)\<lparr>lh_n := 0\<rparr>" using n by simp
    ultimately show ?thesis using ok d n by (simp add: commit_def kop get_lg_def)
  next
    case True
    obtain t where t: "commit s = Ret () t" "lg t = (lg s)\<lparr>lh_n := 0\<rparr>" "wrote_all s p (commit_trace s) t"
      using commit_ok [OF ok wf dirty True] by blast
    have tp: "bio_ok t p {}" "disksize t = disksize s" "disk t = store_all (on_disk (commit_trace s)) (disk s)"
        "dirty_blocks t = dirty_blocks s - fst ` set (commit_trace s)"
      using t(3) by (simp_all add: wrote_all_def)
    have "set (log_blocks (lg s)) \<subseteq> fst ` set (commit_trace s)"
    proof
      fix m assume "m \<in> set (log_blocks (lg s))"
      then obtain i where "i < nat (lh_n (lg s))" "m = lh_block (lg s) ! i" using w(9,10) by (auto simp: in_set_conv_nth)
      then have "(m, blk s m) \<in> set (commit_trace s)" by (auto simp: commit_trace_def Let_def)
      then show "m \<in> fst ` set (commit_trace s)" by force
    qed
    then have d: "dirty_blocks t = {}" using tp(4) dirty by auto
    have len: "length (commit_trace s) = 2 * nat (lh_n (lg s)) + 2" by (simp add: commit_trace_def Let_def)
    have "disk t (unat m) = blk s m" if "\<not> in_log (lg_start (lg s)) (unat m)" for m
      using crash_after(2) [OF ok wf dirty _ that, of "length (commit_trace s)"] len
      by (simp add: tp(3) store_on_disk crash_disk_def)
    moreover have "blk t m = disk t (unat m)" for m using blk_clean [OF tp(1)] d by simp
    ultimately show ?thesis using t tp d by auto
  qed
qed

lemma begin_op_ok:
  assumes "quiet s p" and "\<not> lg_committing (lg s)" and "lh_n (lg s) + (lg_outstanding (lg s) + 1) * 10 \<le> 30"
  shows "begin_op s = Ret () (settle (s\<lparr>lg := (lg s)\<lparr>lg_outstanding := lg_outstanding (lg s) + 1\<rparr>\<rparr>))"
  using assms quietD [OF assms(1)]
  by (simp add: begin_op_def begin_op_loop_def kop acquire_ok release_on get_lg_def set_lg_def)

lemma begin_op_waits:
  assumes "quiet s p" and "lg_committing (lg s) \<or> lh_n (lg s) + (lg_outstanding (lg s) + 1) * 10 > 30"
  shows "begin_op s = Block ChLog (lock_on LPtable (s\<lparr>procs := list_upd (procs s) p
     (\<lambda>q. q\<lparr>p_chan := Some ChLog, p_state := SLEEPING\<rparr>)\<rparr>))"
  using assms quietD [OF assms(1)]
  by (auto simp: begin_op_def begin_op_loop_def kop acquire_ok sleep_ok get_lg_def)

lemma end_op_last:
  assumes ok: "bio_ok s p {}" and lok: "log_ok s" and l: "\<not> lg_committing (lg s)" "lg_outstanding (lg s) = 1"
  shows "\<exists>t. end_op s = Ret () t \<and> bio_ok t p {} \<and> dirty_blocks t = {} \<and>
     lg t = (lg s)\<lparr>lg_outstanding := 0, lh_n := 0\<rparr> \<and>
     (\<forall>m. \<not> in_log (lg_start (lg s)) (unat m) \<longrightarrow> disk t (unat m) = blk s m \<and> blk t m = blk s m)"
proof -
  let ?l = "(lg s)\<lparr>lg_outstanding := 0, lg_committing := True\<rparr>"
  let ?u = "settle (s\<lparr>lg := ?l\<rparr>)"
  note q = quietD [OF bio_okD(1) [OF ok]]
  have "bio_ok ?u p {}" using ok by (simp add: bio_ok_settle)
  moreover have "log_ok ?u" using lok by (simp add: log_ok_def log_wf_def log_blocks_def)
  ultimately obtain v where v: "commit ?u = Ret () v" "lg v = ?l\<lparr>lh_n := 0\<rparr>" "bio_ok v p {}" "dirty_blocks v = {}"
      "\<forall>m. \<not> in_log (lg_start (lg s)) (unat m) \<longrightarrow> disk v (unat m) = blk s m \<and> blk v m = blk s m"
    using commit_home [of ?u p] by auto
  note qv = quietD [OF bio_okD(1) [OF v(3)]]
  define t where "t = settle (v\<lparr>lg := (lg s)\<lparr>lg_outstanding := 0, lh_n := 0\<rparr>, procs := woken ChLog (procs v)\<rparr>)"
  have lcf: "(lg s)\<lparr>lg_committing := False\<rparr> = lg s" using l(1) by simp
  have "(lg s)\<lparr>lg_outstanding := 0, lg_committing := True, lh_n := 0, lg_committing := False\<rparr> =
      (lg s)\<lparr>lg_committing := False, lg_outstanding := 0, lh_n := 0\<rparr>"
    by simp
  then have leq: "(lg v)\<lparr>lg_committing := False\<rparr> = (lg s)\<lparr>lg_outstanding := 0, lh_n := 0\<rparr>"
    unfolding v(2) lcf by simp
  have "end_op s = Ret () t"
    using q qv l v(1) leq
    by (simp add: end_op_def kop acquire_ok release_on set_lg_run get_lg_def Let_def wakeup_ok mach_ok_lock_on t_def)
  moreover have "bio_ok t p {}"
    using v(3) quietD(3) [OF bio_okD(1) [OF v(3)]] unfolding t_def
    by (intro bio_ok_settle) (auto simp: bio_ok_def mypid_def quiet_procs)
  moreover have "dirty_blocks t = {}" "blk t = blk v" "disk t = disk v"
    using v(4) by (simp_all add: t_def dirty_blocks_def blk_def cached_def fun_eq_iff split: option.splits)
  ultimately show ?thesis using v(5) by (simp add: t_def)
qed

subsection \<open>The properties of the log\<close>

text \<open>
  C1. A commit is atomic under crashes. \<open>commit\<close> returns, and whatever prefix of its disk writes
  has reached the disk when the machine stops, recovery at the next boot returns and leaves
  every block outside the log either all as before the transaction (when the header had not
  been written) or all as the transaction left them in the cache.
\<close>

theorem commit_crash_atomic:
  assumes "bio_ok s p {}" and "log_ok s" and "0 < lh_n (lg s)"
    and "head_count (disk s (unat (lg_start (lg s)))) = 0"
  shows "\<exists>t ws. commit s = Ret () t \<and> dtrace t = dtrace s @ ws \<and>
     (\<forall>k b q. fresh b q \<and> disksize b = disksize s \<and> lg_start (lg b) = lg_start (lg s) \<and>
        disk b = store_all (take k ws) (disk s) \<longrightarrow>
        (\<exists>r. recover_from_log b = Ret () r \<and> (\<forall>m. \<not> in_log (lg_start (lg s)) (unat m) \<longrightarrow>
           disk r (unat m) = (if k \<le> nat (lh_n (lg s)) then disk s (unat m) else blk s m))))"
proof -
  have wf: "log_wf s" and dirty: "dirty_blocks s = set (log_blocks (lg s))"
    using assms(2) by (simp_all add: log_ok_def)
  obtain t where t: "commit s = Ret () t" "wrote_all s p (commit_trace s) t"
    using commit_ok [OF assms(1) wf dirty assms(3)] by blast
  then have "dtrace t = dtrace s @ on_disk (commit_trace s)" by (simp add: wrote_all_def)
  then show ?thesis
    using t(1) crash_recovery [OF assms(1) wf dirty assms(4)]
    by (intro exI [of _ t] exI [of _ "on_disk (commit_trace s)"]) blast
qed

text \<open>
  C2. The end of the last operation makes its effects durable. When one operation is outstanding,
  \<open>end_op\<close> returns with every block outside the log on the disk equal to what the cache held, no
  buffer pinned, an empty log and no operation outstanding.
\<close>

theorem end_op_installs:
  assumes "bio_ok s p {}" and "log_ok s" and "\<not> lg_committing (lg s)" and "lg_outstanding (lg s) = 1"
  shows "\<exists>t. end_op s = Ret () t \<and> bio_ok t p {} \<and> dirty_blocks t = {} \<and>
     lg t = (lg s)\<lparr>lg_outstanding := 0, lh_n := 0\<rparr> \<and>
     (\<forall>m. \<not> in_log (lg_start (lg s)) (unat m) \<longrightarrow> disk t (unat m) = blk s m \<and> blk t m = blk s m)"
  using end_op_last [OF assms] .

text \<open>
  C3. Inside a transaction \<open>log_write\<close> keeps the log and the cache consistent: the dirty buffers
  are exactly the blocks of the log, each listed once. A block that is in the log already takes
  no second slot, another block takes one, and neither the disk nor any block's content changes.
\<close>

theorem log_write_absorbs:
  assumes "bio_ok s p H" and "b \<in> H" and "log_ok s" and "b_blockno (bufs s ! b) < disksize s"
    and "\<not> in_log (lg_start (lg s)) (unat (b_blockno (bufs s ! b)))"
    and "lh_n (lg s) < 29" and "lg_size (lg s) = 30" and "1 \<le> lg_outstanding (lg s)"
  shows "\<exists>t. log_write b s = Ret () t \<and> bio_ok t p H \<and> log_ok t \<and> disk t = disk s \<and> blk t = blk s \<and>
     log_blocks (lg t) = (if b_blockno (bufs s ! b) \<in> set (log_blocks (lg s)) then log_blocks (lg s)
        else log_blocks (lg s) @ [b_blockno (bufs s ! b)])"
proof -
  obtain t where t: "log_write b s = Ret () t" "bio_ok t p H" "log_ok t"
      "lg t = log_add (b_blockno (bufs s ! b)) (lg s)" "blk t = blk s" "disk t = disk s"
    using log_write_ok [OF assms(1-3) refl assms(4-8)] by blast
  have "0 \<le> lh_n (lg s)" "nat (lh_n (lg s)) < length (lh_block (lg s))"
    using assms(3,6) by (auto simp: log_ok_def log_wf_def)
  then show ?thesis using t log_blocks_add by simp
qed

text \<open>
  C18. The reservation of log space is off by one. With a log of \<open>LOGSIZE\<close> blocks as mkfs makes it,
  \<open>begin_op\<close> admits a third operation to an empty log, which reserves thirty blocks; yet once
  twenty-nine blocks are logged every \<open>log_write\<close> panics, even one for a block that is in the
  log already.
\<close>

theorem log_admission_gap:
  assumes "quiet s p" and "\<not> lg_committing (lg s)" and "lg_outstanding (lg s) = 2" and "lh_n (lg s) = 0"
    and "lg_size (lg s) = 30"
  shows "\<exists>t. begin_op s = Ret () t \<and> lg_outstanding (lg t) = 3 \<and>
     (\<forall>u b bs. lg u = (lg t)\<lparr>lh_n := 29, lh_block := bs\<rparr> \<longrightarrow> log_write b u = Panic ''too big a transaction'')"
  using begin_op_ok [OF assms(1,2)] assms(3-5)
  by (auto simp: log_write_def kop get_lg_def)

subsection \<open>A concrete log\<close>

text \<open>Block 100 is in the log, changed in the cache and not yet on the disk.\<close>

definition buf1 :: buf where
  "buf1 = \<lparr>b_valid = True, b_dirty = True, b_dev = 1, b_blockno = 100, b_refcnt = 0, b_data = replicate 512 7\<rparr>"

definition log1 :: "'a \<Rightarrow> 'a log_st_scheme" where
  "log1 x = (bio0 (\<lambda>_. zero_block) \<lparr>lg = \<lparr>lg_start = 2, lg_size = 30, lg_outstanding = 1, lg_committing = False,
     lg_dev = 1, lh_n = 1, lh_block = 100 # replicate 29 0\<rparr>, \<dots> = x\<rparr>)\<lparr>bufs := buf1 # replicate 29 buf0\<rparr>"

lemma log1_fields [simp]:
  "bufs (log1 x) = buf1 # replicate 29 buf0" "disk (log1 x) n = zero_block" "disksize (log1 x) = 1000"
  "lg (log1 x) = \<lparr>lg_start = 2, lg_size = 30, lg_outstanding = 1, lg_committing = False,
     lg_dev = 1, lh_n = 1, lh_block = 100 # replicate 29 0\<rparr>"
  "quiet (log1 x) 0" "mypid (log1 x) 0 = 1" "slocks (log1 x) l = \<lparr>lk_locked = False, lk_pid = 0\<rparr>" "lru (log1 x) = rev [0..<30]"
  by (simp_all add: log1_def) (simp_all add: bio0_def slock0_def proc0_def kmem0_def mach0_def)

lemma log1_bufs [simp]: "b < 30 \<Longrightarrow> bufs (log1 x) ! b = (if b = 0 then buf1 else buf0)"
  by (cases b) simp_all

lemma log1_bio [simp]: "bio_ok (log1 x) 0 {}"
  unfolding bio_ok_def by (auto simp: buf_ok_def buf0_def buf1_def simp del: log1_fields(1)) simp

lemma log1_ok [simp]: "log_ok (log1 x)"
proof -
  have "\<not> b_dirty buf0" "b_dirty buf1" "b_blockno buf1 = 100" by (simp_all add: buf0_def buf1_def)
  then have "dirty_blocks (log1 x) = {100}" by (auto simp: dirty_blocks_def)
  then show ?thesis by (simp add: log_ok_def log_wf_def log_blocks_def in_log_def)
qed

theorem commit_crash_atomic_witness: "\<exists>t ws. commit (log1 ()) = Ret () t \<and> dtrace t = dtrace (log1 ()) @ ws"
  using commit_crash_atomic [of "log1 ()" 0] by (auto simp: head_count_def get32_def zero_block_def)

theorem end_op_installs_witness:
  "\<exists>t. end_op (log1 ()) = Ret () t \<and> disk t 100 = replicate 512 7"
proof -
  have "blk (log1 ()) 100 = replicate 512 7"
    using blk_cached [of "log1 ()" 0 "{}" 0] by (simp add: buf1_def)
  moreover obtain t where t: "end_op (log1 ()) = Ret () t"
      "\<forall>m. \<not> in_log 2 (unat m) \<longrightarrow> disk t (unat m) = blk (log1 ()) m"
    using end_op_installs [of "log1 ()" 0] by auto
  moreover have "\<not> in_log 2 (unat (100 :: u32))" by (simp add: in_log_def)
  ultimately have "disk t (unat (100 :: u32)) = replicate 512 7" by metis
  then show ?thesis using t(1) by simp
qed

theorem log_write_absorbs_witness:
  "\<exists>b t u. bread 1 200 (log1 ()) = Ret b t \<and> log_write b t = Ret () u \<and> log_blocks (lg u) = [100, 200]"
proof -
  have "\<exists>b < 30. b \<notin> {} \<and> \<not> b_dirty (bufs (log1 ()) ! b)" by (rule exI [of _ 1]) (simp add: buf0_def)
  then obtain b t where t: "bread 1 200 (log1 ()) = Ret b t" "bread_post (log1 ()) 0 {} 200 b t"
    using bread_ok [of "log1 ()" 0 "{}" 200] by auto
  then have fr: "bio_ok t 0 {b}" "b_blockno (bufs t ! b) = 200" "bio_frame (log1 ()) t"
      "dirty_blocks t = dirty_blocks (log1 ())"
    by (simp_all add: bread_post_def)
  have l: "lg t = lg (log1 ())" "disksize t = 1000" using bio_frame_lg [OF fr(3)] bio_frame_size [OF fr(3)] by simp_all
  have "log_ok t" using log1_ok [of "()"] log_wf_frame [OF fr(3)] fr(4) l by (simp add: log_ok_def)
  then show ?thesis
    using log_write_absorbs [of t 0 "{b}" b] fr(1,2) l t(1)
    by (fastforce simp: in_log_def log_blocks_def)
qed

theorem log_admission_gap_witness:
  "\<exists>t. begin_op ((log1 ())\<lparr>lg := (lg (log1 ()))\<lparr>lg_outstanding := 2, lh_n := 0\<rparr>\<rparr>) = Ret () t"
  using log_admission_gap [of "(log1 ())\<lparr>lg := (lg (log1 ()))\<lparr>lg_outstanding := 2, lh_n := 0\<rparr>\<rparr>" 0] by auto

end
