(* ===== verification/Fs.thy ===== *)
theory Fs
  imports Log
begin

section \<open>The file system: blocks, inodes, directories, names (fs.c, fs.h, file.h, stat.h)\<close>

text \<open>
  Extends the state with the superblock and the inode cache. An inode pointer is an index into
  \<open>icache.inode\<close>; where the source allows a null pointer the model has an option.

  Data moves between a file and a buffer of the caller, which may be user memory. \<open>readi\<close>
  returns the bytes it stores at \<open>dst\<close>, and \<open>writei\<close> takes the bytes from \<open>src\<close> on as a
  function of the offset. The device switch \<open>devsw\<close> is an argument of the routines that call
  through it. A path and a name are the lists of their characters, without the terminator.

  \<open>ip->addrs[-1]\<close>, which \<open>bmap\<close> reads for a file without extents, is the word that precedes
  \<open>addrs\<close> in \<open>struct inode\<close>: the field \<open>size\<close>.
\<close>

subsection \<open>Constants and layout\<close>

abbreviation (input) NINODE :: nat where "NINODE \<equiv> 50"
abbreviation (input) NDEV :: int where "NDEV \<equiv> 10"
abbreviation (input) NDIRECT :: nat where "NDIRECT \<equiv> 11"
abbreviation (input) NINDIRECT :: nat where "NINDIRECT \<equiv> 128"
abbreviation (input) DIRSIZ :: nat where "DIRSIZ \<equiv> 14"
abbreviation (input) T_DIR :: u16 where "T_DIR \<equiv> 1"
abbreviation (input) T_FILE :: u16 where "T_FILE \<equiv> 2"
abbreviation (input) T_DEV :: u16 where "T_DEV \<equiv> 3"
abbreviation (input) T_SYMLINK :: u16 where "T_SYMLINK \<equiv> 4"
abbreviation (input) T_EXTENT :: u16 where "T_EXTENT \<equiv> 5"

text \<open>\<open>sizeof(struct dinode)\<close> is 60: four shorts, the size and \<open>NDIRECT+1\<close> addresses.\<close>

definition DINODE_SIZE :: nat where
  "DINODE_SIZE = 4 * 2 + 4 + (NDIRECT + 1) * 4"

definition IPB :: nat where
  "IPB = BSIZE div DINODE_SIZE"

definition IBLOCK :: "u32 \<Rightarrow> superblock \<Rightarrow> u32" where
  "IBLOCK i sb = i div of_nat IPB + sb_inodestart sb"

definition BPB :: nat where
  "BPB = BSIZE * 8"

definition BBLOCK :: "u32 \<Rightarrow> superblock \<Rightarrow> u32" where
  "BBLOCK b sb = b div of_nat BPB + sb_bmapstart sb"

text \<open>
  \<open>NDOUBLY_INDIRECT\<close> is \<open>NINDIRECT * NINDIRECT\<close> and \<open>MAXFILE\<close> multiplies it by \<open>NINDIRECT\<close> once more.
\<close>

definition NDOUBLY_INDIRECT :: nat where
  "NDOUBLY_INDIRECT = NINDIRECT * NINDIRECT"

definition MAXFILE :: nat where
  "MAXFILE = NDIRECT + NINDIRECT * NINDIRECT * NINDIRECT"

record inode =
  i_dev :: u32
  i_inum :: u32
  i_ref :: int
  i_valid :: bool
  i_type :: u16
  i_major :: u16
  i_minor :: u16
  i_nlink :: u16
  i_size :: u32
  i_addrs :: "u32 list"

record stat =
  st_type :: u16
  st_dev :: u32
  st_ino :: u32
  st_nlink :: u16
  st_size :: u32

record fs_st = log_st +
  sb :: superblock
  inodes :: "inode list"

text \<open>
  The device switch: for a major number, the read and the write function, or null. A device read
  returns its result and the bytes it stored.
\<close>


type_synonym 's devtab = "nat \<Rightarrow> (nat \<Rightarrow> u32 \<Rightarrow> (int \<times> u8 list, 's) kop) option \<times>
  (nat \<Rightarrow> (nat \<Rightarrow> u8) \<Rightarrow> u32 \<Rightarrow> (int, 's) kop) option"

definition set_inode :: "nat \<Rightarrow> (inode \<Rightarrow> inode) \<Rightarrow> (unit, 'a fs_st_scheme) kop" where
  "set_inode i f = upd (\<lambda>s. s\<lparr>inodes := list_upd (inodes s) i f\<rparr>)"

definition get_inode :: "nat \<Rightarrow> (inode, 'a fs_st_scheme) kop" where
  "get_inode i = gets (\<lambda>s. inodes s ! i)"

subsection \<open>Blocks\<close>

definition bzero :: "u32 \<Rightarrow> u32 \<Rightarrow> (unit, 'a fs_st_scheme) kop" where
  "bzero dev bno =
     bnd (bread dev bno) (\<lambda>bp.
     thn (set_data bp (\<lambda>_. zero_block))
     (thn (log_write bp)
     (brelse bp)))"

text \<open>The bits of a block of the free map.\<close>

definition bit_mask :: "nat \<Rightarrow> u8" where
  "bit_mask bi = push_bit (bi mod 8) 1"

definition bit_free :: "block \<Rightarrow> nat \<Rightarrow> bool" where
  "bit_free d bi \<longleftrightarrow> (d ! (bi div 8)) AND bit_mask bi = 0"

definition bit_set :: "nat \<Rightarrow> block \<Rightarrow> block" where
  "bit_set bi d = d[bi div 8 := (d ! (bi div 8)) OR bit_mask bi]"

definition bit_clear :: "nat \<Rightarrow> block \<Rightarrow> block" where
  "bit_clear bi d = d[bi div 8 := (d ! (bi div 8)) AND NOT (bit_mask bi)]"

text \<open>The outer loop of \<open>balloc\<close>, over the first block number \<open>b\<close> of each map block.\<close>

fun balloc_from :: "u32 \<Rightarrow> nat list \<Rightarrow> (u32, 'a fs_st_scheme) kop" where
  "balloc_from dev [] = kpanic ''balloc: out of blocks''"
| "balloc_from dev (b # bs) =
     bnd (gets sb) (\<lambda>sb.
     bnd (bread dev (BBLOCK (of_nat b) sb)) (\<lambda>bp.
     bnd (get_data bp) (\<lambda>d.
     case find (bit_free d) [0..<min BPB (unat (sb_size sb) - b)] of
       Some bi \<Rightarrow>
         thn (set_data bp (bit_set bi))
         (thn (log_write bp)
         (thn (brelse bp)
         (thn (bzero dev (of_nat (b + bi)))
         (ret (of_nat (b + bi))))))
     | None \<Rightarrow> thn (brelse bp) (balloc_from dev bs))))"

definition balloc :: "u32 \<Rightarrow> (u32, 'a fs_st_scheme) kop" where
  "balloc dev =
     bnd (gets sb) (\<lambda>sb.
     balloc_from dev (map (\<lambda>k. k * BPB) [0..<(unat (sb_size sb) + BPB - 1) div BPB]))"

definition bfree :: "u32 \<Rightarrow> u32 \<Rightarrow> (unit, 'a fs_st_scheme) kop" where
  "bfree dev b =
     bnd (gets sb) (\<lambda>sb.
     bnd (bread dev (BBLOCK b sb)) (\<lambda>bp.
     bnd (get_data bp) (\<lambda>d.
     let bi = unat b mod BPB in
     if bit_free d bi then kpanic ''freeing free block'' else
     thn (set_data bp (bit_clear bi))
     (thn (log_write bp)
     (brelse bp)))))"

subsection \<open>Inodes\<close>

definition iinit :: "u32 \<Rightarrow> (unit, 'a fs_st_scheme) kop" where
  "iinit dev =
     thn (initlock LIcache ''icache'')
     (thn (kfor [0..<NINODE] (\<lambda>i. initsleeplock (SLInode i)))
     (bnd (readsb dev) (\<lambda>x.
     upd (\<lambda>s. s\<lparr>sb := x\<rparr>))))"

definition iget :: "u32 \<Rightarrow> u32 \<Rightarrow> (nat, 'a fs_st_scheme) kop" where
  "iget dev inum =
     thn (acquire LIcache)
     (bnd (gets inodes) (\<lambda>is.
     case find_index (\<lambda>ip. i_ref ip > 0 \<and> i_dev ip = dev \<and> i_inum ip = inum) is of
       Some i \<Rightarrow>
         thn (set_inode i (\<lambda>ip. ip\<lparr>i_ref := i_ref ip + 1\<rparr>))
         (thn (release LIcache)
         (ret i))
     | None \<Rightarrow>
         (case find_index (\<lambda>ip. i_ref ip = 0) is of
            None \<Rightarrow> kpanic ''iget: no inodes''
          | Some i \<Rightarrow>
              thn (set_inode i (\<lambda>ip. ip\<lparr>i_dev := dev, i_inum := inum, i_ref := 1, i_valid := False\<rparr>))
              (thn (release LIcache)
              (ret i)))))"

text \<open>The bytes of an on-disk inode: the field offsets of \<open>struct dinode\<close>.\<close>

definition dinode_off :: "u32 \<Rightarrow> nat" where
  "dinode_off inum = (unat inum mod IPB) * DINODE_SIZE"

fun ialloc_from :: "u32 \<Rightarrow> u16 \<Rightarrow> nat list \<Rightarrow> (nat, 'a fs_st_scheme) kop" where
  "ialloc_from dev type [] = kpanic ''ialloc: no inodes''"
| "ialloc_from dev type (inum # is) =
     bnd (gets sb) (\<lambda>sb.
     bnd (bread dev (IBLOCK (of_nat inum) sb)) (\<lambda>bp.
     bnd (get_data bp) (\<lambda>d.
     let off = dinode_off (of_nat inum) in
     if get16 d off = 0 then
       thn (set_data bp (\<lambda>d. put16 (blit d off (replicate DINODE_SIZE 0)) off type))
       (thn (log_write bp)
       (thn (brelse bp)
       (iget dev (of_nat inum))))
     else thn (brelse bp) (ialloc_from dev type is))))"

definition ialloc :: "u32 \<Rightarrow> u16 \<Rightarrow> (nat, 'a fs_st_scheme) kop" where
  "ialloc dev type =
     bnd (gets sb) (\<lambda>sb.
     ialloc_from dev type [1..<unat (sb_ninodes sb)])"

text \<open>
  The stores of \<open>iupdate\<close> into the inode block, in the order of the source. The last one copies
  \<open>sizeof(ip->addrs)\<close> bytes, the thirteen addresses of the in-memory inode.
\<close>

definition dinode_put :: "inode \<Rightarrow> block \<Rightarrow> block" where
  "dinode_put ip d =
     (let off = dinode_off (i_inum ip) in
      blit (put32 (put16 (put16 (put16 (put16 d off (i_type ip)) (off + 2) (i_major ip)) (off + 4) (i_minor ip))
        (off + 6) (i_nlink ip)) (off + 8) (i_size ip)) (off + 12) (concat (map le32 (i_addrs ip))))"

definition iupdate :: "nat \<Rightarrow> (unit, 'a fs_st_scheme) kop" where
  "iupdate i =
     bnd (get_inode i) (\<lambda>ip.
     bnd (gets sb) (\<lambda>sb.
     bnd (bread (i_dev ip) (IBLOCK (i_inum ip) sb)) (\<lambda>bp.
     thn (set_data bp (dinode_put ip))
     (thn (log_write bp)
     (brelse bp)))))"

definition idup :: "nat \<Rightarrow> (nat, 'a fs_st_scheme) kop" where
  "idup i =
     thn (acquire LIcache)
     (thn (set_inode i (\<lambda>ip. ip\<lparr>i_ref := i_ref ip + 1\<rparr>))
     (thn (release LIcache)
     (ret i)))"

definition dinode_get :: "block \<Rightarrow> inode \<Rightarrow> inode" where
  "dinode_get d ip =
     (let off = dinode_off (i_inum ip) in
      ip\<lparr>i_type := get16 d off, i_major := get16 d (off + 2), i_minor := get16 d (off + 4),
         i_nlink := get16 d (off + 6), i_size := get32 d (off + 8),
         i_addrs := map (\<lambda>k. get32 d (off + 12 + 4 * k)) [0..<NDIRECT + 2]\<rparr>)"

definition ilock :: "nat option \<Rightarrow> (unit, 'a fs_st_scheme) kop" where
  "ilock ip =
     (case ip of None \<Rightarrow> kpanic ''ilock'' | Some i \<Rightarrow>
     bnd (get_inode i) (\<lambda>x.
     if i_ref x < 1 then kpanic ''ilock'' else
     thn (acquiresleep (SLInode i))
     (bnd (get_inode i) (\<lambda>x.
     kwhen (\<not> i_valid x)
       (bnd (gets sb) (\<lambda>sb.
       bnd (bread (i_dev x) (IBLOCK (i_inum x) sb)) (\<lambda>bp.
       bnd (get_data bp) (\<lambda>d.
       thn (set_inode i (dinode_get d))
       (thn (brelse bp)
       (thn (set_inode i (\<lambda>x. x\<lparr>i_valid := True\<rparr>))
       (bnd (get_inode i) (\<lambda>x.
       if i_type x = 0 then kpanic ''ilock: no type'' else ret ()))))))))))))"

definition iunlock :: "nat option \<Rightarrow> (unit, 'a fs_st_scheme) kop" where
  "iunlock ip =
     (case ip of None \<Rightarrow> kpanic ''iunlock'' | Some i \<Rightarrow>
     bnd (holdingsleep (SLInode i)) (\<lambda>h.
     if \<not> h then kpanic ''iunlock'' else
     bnd (get_inode i) (\<lambda>x.
     if i_ref x < 1 then kpanic ''iunlock'' else
     releasesleep (SLInode i))))"

subsection \<open>Content of inodes\<close>

definition GEN_ADDRESS :: "u32 \<Rightarrow> u8 \<Rightarrow> u32" where
  "GEN_ADDRESS address len = push_bit 8 address OR ucast len"

definition EXT_LENGTH :: "u32 \<Rightarrow> u8" where
  "EXT_LENGTH address = ucast (address AND 0x00ff)"

definition EXT_ADDRESS :: "u32 \<Rightarrow> u32" where
  "EXT_ADDRESS address = drop_bit 8 address"

text \<open>
  The search of \<open>bmap\<close> through the extents from \<open>addrs[i]\<close> on, which starts at file block \<open>curlen\<close>:
  the disk block, or the value of \<open>i\<close> at the end of the loop.
\<close>

fun ext_scan :: "u32 list \<Rightarrow> u32 \<Rightarrow> u32 \<Rightarrow> nat \<Rightarrow> u32 + nat" where
  "ext_scan [] bn curlen i = Inr i"
| "ext_scan (a # as) bn curlen i =
     (if a = 0 then Inr i
      else if curlen \<le> bn \<and> bn < curlen + ucast (EXT_LENGTH a) then Inl (EXT_ADDRESS a + bn - curlen)
      else if i > NDIRECT then Inr i
      else ext_scan as bn (curlen + ucast (EXT_LENGTH a)) (i + 1))"

text \<open>\<open>ip->addrs[i-1]\<close>.\<close>

definition prev_addr :: "inode \<Rightarrow> nat \<Rightarrow> u32" where
  "prev_addr ip i = (if i = 0 then i_size ip else i_addrs ip ! (i - 1))"

definition set_prev_addr :: "nat \<Rightarrow> u32 \<Rightarrow> inode \<Rightarrow> inode" where
  "set_prev_addr i v ip = (if i = 0 then ip\<lparr>i_size := v\<rparr> else ip\<lparr>i_addrs := (i_addrs ip)[i - 1 := v]\<rparr>)"

text \<open>Record a new block after the extents: in the last extent when it continues it, else in a new one.\<close>

definition ext_append :: "u32 \<Rightarrow> nat \<Rightarrow> inode \<Rightarrow> inode" where
  "ext_append newBlock i x =
     (let prv = prev_addr x i in
      if newBlock = EXT_ADDRESS prv + ucast (EXT_LENGTH prv) \<and> EXT_LENGTH prv < 0xff
      then set_prev_addr i (prv + 1) x
      else x\<lparr>i_addrs := (i_addrs x)[i := GEN_ADDRESS newBlock 1]\<rparr>)"

definition bmap_extent :: "nat \<Rightarrow> u32 \<Rightarrow> (u32, 'a fs_st_scheme) kop" where
  "bmap_extent ip bn =
     bnd (get_inode ip) (\<lambda>x.
     case ext_scan (i_addrs x) bn 0 0 of
       Inl addr \<Rightarrow> ret addr
     | Inr i \<Rightarrow>
         if i > NDIRECT then kpanic (''extent based kinda did not wo really well'' @ [CHR 0x0A]) else
         bnd (balloc (i_dev x)) (\<lambda>newBlock.
         thn (set_inode ip (ext_append newBlock i))
         (ret newBlock)))"

text \<open>The address in \<open>ip->addrs[k]\<close>, allocated when it is zero.\<close>

definition bmap_slot :: "nat \<Rightarrow> nat \<Rightarrow> (u32, 'a fs_st_scheme) kop" where
  "bmap_slot ip k =
     bnd (get_inode ip) (\<lambda>x.
     if i_addrs x ! k = 0 then
       bnd (balloc (i_dev x)) (\<lambda>addr.
       thn (set_inode ip (\<lambda>x. x\<lparr>i_addrs := (i_addrs x)[k := addr]\<rparr>))
       (ret addr))
     else ret (i_addrs x ! k))"

text \<open>
  The address in entry \<open>k\<close> of the indirect block \<open>addr\<close>, allocated when it is zero; the buffer of
  the block and the entry. Releasing the buffer is left to the caller, as in the source.
\<close>

definition bmap_entry :: "u32 \<Rightarrow> u32 \<Rightarrow> nat \<Rightarrow> (nat \<times> u32, 'a fs_st_scheme) kop" where
  "bmap_entry dev addr k =
     bnd (bread dev addr) (\<lambda>bp.
     bnd (get_data bp) (\<lambda>d.
     if get32 d (4 * k) = 0 then
       bnd (balloc dev) (\<lambda>a.
       thn (set_data bp (\<lambda>d. put32 d (4 * k) a))
       (thn (log_write bp)
       (ret (bp, a))))
     else ret (bp, get32 d (4 * k))))"

definition bmap :: "nat \<Rightarrow> u32 \<Rightarrow> (u32, 'a fs_st_scheme) kop" where
  "bmap ip bn =
     bnd (get_inode ip) (\<lambda>x.
     if i_type x = T_EXTENT then bmap_extent ip bn
     else if unat bn < NDIRECT then bmap_slot ip (unat bn)
     else let bn = unat bn - NDIRECT in
     if bn < NINDIRECT then
       bnd (bmap_slot ip NDIRECT) (\<lambda>addr.
       bnd (bmap_entry (i_dev x) addr bn) (\<lambda>(bp, addr).
       thn (brelse bp)
       (ret addr)))
     else let bn = bn - NINDIRECT in
     if bn < NDOUBLY_INDIRECT then
       bnd (bmap_slot ip (NDIRECT + 1)) (\<lambda>addr.
       bnd (bmap_entry (i_dev x) addr (bn div NINDIRECT)) (\<lambda>(bp, addr).
       thn (brelse bp)
       (bnd (bmap_entry (i_dev x) addr (bn mod NINDIRECT)) (\<lambda>(bp, addr).
       ret addr))))
     else kpanic ''bmap: out of range'')"

definition itrunc :: "nat \<Rightarrow> (unit, 'a fs_st_scheme) kop" where
  "itrunc ip =
     thn (kfor [0..<NDIRECT] (\<lambda>i.
       bnd (get_inode ip) (\<lambda>x.
       kwhen (i_addrs x ! i \<noteq> 0)
         (thn (bfree (i_dev x) (i_addrs x ! i))
         (set_inode ip (\<lambda>x. x\<lparr>i_addrs := (i_addrs x)[i := 0]\<rparr>))))))
     (thn (bnd (get_inode ip) (\<lambda>x.
       kwhen (i_addrs x ! NDIRECT \<noteq> 0)
         (bnd (bread (i_dev x) (i_addrs x ! NDIRECT)) (\<lambda>bp.
         thn (kfor [0..<NINDIRECT] (\<lambda>j.
           bnd (get_data bp) (\<lambda>d.
           kwhen (get32 d (4 * j) \<noteq> 0) (bfree (i_dev x) (get32 d (4 * j))))))
         (thn (brelse bp)
         (thn (bfree (i_dev x) (i_addrs x ! NDIRECT))
         (set_inode ip (\<lambda>x. x\<lparr>i_addrs := (i_addrs x)[NDIRECT := 0]\<rparr>))))))))
     (thn (set_inode ip (\<lambda>x. x\<lparr>i_size := 0\<rparr>))
     (iupdate ip)))"

definition iput :: "nat \<Rightarrow> (unit, 'a fs_st_scheme) kop" where
  "iput i =
     thn (acquiresleep (SLInode i))
     (thn (bnd (get_inode i) (\<lambda>x.
        kwhen (i_valid x \<and> i_nlink x = 0)
          (thn (acquire LIcache)
          (bnd (gets (\<lambda>s. i_ref (inodes s ! i))) (\<lambda>r.
          thn (release LIcache)
          (kwhen (r = 1)
            (thn (itrunc i)
            (thn (set_inode i (\<lambda>x. x\<lparr>i_type := 0\<rparr>))
            (thn (iupdate i)
            (set_inode i (\<lambda>x. x\<lparr>i_valid := False\<rparr>)))))))))))
     (thn (releasesleep (SLInode i))
     (thn (acquire LIcache)
     (thn (set_inode i (\<lambda>x. x\<lparr>i_ref := i_ref x - 1\<rparr>))
     (release LIcache)))))"

definition iunlockput :: "nat \<Rightarrow> (unit, 'a fs_st_scheme) kop" where
  "iunlockput i = thn (iunlock (Some i)) (iput i)"

definition stati :: "nat \<Rightarrow> (stat, 'a fs_st_scheme) kop" where
  "stati i =
     bnd (get_inode i) (\<lambda>x.
     ret \<lparr>st_type = i_type x, st_dev = i_dev x, st_ino = i_inum x, st_nlink = i_nlink x, st_size = i_size x\<rparr>)"

subsection \<open>Reading and writing\<close>

text \<open>
  The loops of \<open>readi\<close> and \<open>writei\<close>; \<open>n\<close> is the number of bytes left, \<open>n - tot\<close> in the source. Each
  round handles at least one byte. As \<open>n\<close> is unsigned, the test \<open>n < 0\<close> of \<open>writei\<close> never holds.
\<close>

definition chunk :: "u32 \<Rightarrow> nat \<Rightarrow> nat" where
  "chunk off n = min n (BSIZE - unat off mod BSIZE)"

lemma chunk_pos: "0 < n \<Longrightarrow> 0 < chunk off n"
  by (simp add: chunk_def)

lemma chunk_le: "chunk off n \<le> n"
  by (simp add: chunk_def)

function readi_loop :: "nat \<Rightarrow> u32 \<Rightarrow> nat \<Rightarrow> (u8 list, 'a fs_st_scheme) kop" where
  "readi_loop ip off n =
     (if n = 0 then ret [] else
      let m = chunk off n in
      bnd (get_inode ip) (\<lambda>x.
      bnd (bmap ip (off div of_nat BSIZE)) (\<lambda>addr.
      bnd (bread (i_dev x) addr) (\<lambda>bp.
      bnd (get_data bp) (\<lambda>d.
      thn (brelse bp)
      (bnd (readi_loop ip (off + of_nat m) (n - m)) (\<lambda>r.
      ret (take m (drop (unat off mod BSIZE) d) @ r))))))))"
  by pat_completeness auto
termination
  by (relation "measure (\<lambda>(ip, off, n). n)") (auto simp: chunk_pos)

definition readi :: "'a fs_st_scheme devtab \<Rightarrow> nat \<Rightarrow> u32 \<Rightarrow> u32 \<Rightarrow> (int \<times> u8 list, 'a fs_st_scheme) kop" where
  "readi devsw ip off n =
     bnd (get_inode ip) (\<lambda>x.
     if i_type x = T_DEV then
       (if sint (i_major x) < 0 \<or> sint (i_major x) \<ge> NDEV then ret (-1, []) else
        case fst (devsw (unat (i_major x))) of None \<Rightarrow> ret (-1, []) | Some f \<Rightarrow> f ip n)
     else if off > i_size x \<or> off + n < off then ret (-1, [])
     else let n = (if off + n > i_size x then i_size x - off else n) in
     bnd (readi_loop ip off (unat n)) (\<lambda>r.
     ret (sint n, r)))"

function writei_loop :: "nat \<Rightarrow> (nat \<Rightarrow> u8) \<Rightarrow> nat \<Rightarrow> u32 \<Rightarrow> nat \<Rightarrow> (u32, 'a fs_st_scheme) kop" where
  "writei_loop ip src tot off n =
     (if n = 0 then ret off else
      let m = chunk off n in
      bnd (get_inode ip) (\<lambda>x.
      bnd (bmap ip (off div of_nat BSIZE)) (\<lambda>addr.
      bnd (bread (i_dev x) addr) (\<lambda>bp.
      thn (set_data bp (\<lambda>d. blit d (unat off mod BSIZE) (map src [tot..<tot + m])))
      (thn (log_write bp)
      (thn (brelse bp)
      (writei_loop ip src (tot + m) (off + of_nat m) (n - m))))))))"
  by pat_completeness auto
termination
  by (relation "measure (\<lambda>(ip, src, tot, off, n). n)") (auto simp: chunk_pos)

declare readi_loop.simps [simp del] writei_loop.simps [simp del]

definition writei :: "'a fs_st_scheme devtab \<Rightarrow> nat \<Rightarrow> (nat \<Rightarrow> u8) \<Rightarrow> u32 \<Rightarrow> u32 \<Rightarrow> (int, 'a fs_st_scheme) kop" where
  "writei devsw ip src off n =
     bnd (get_inode ip) (\<lambda>x.
     if i_type x = T_DEV then
       (if sint (i_major x) < 0 \<or> sint (i_major x) \<ge> NDEV then ret (-1) else
        case snd (devsw (unat (i_major x))) of None \<Rightarrow> ret (-1) | Some f \<Rightarrow> f ip src n)
     else if off + n > of_nat (MAXFILE * BSIZE) then ret (-1)
     else
     bnd (writei_loop ip src 0 off (unat n)) (\<lambda>off.
     bnd (get_inode ip) (\<lambda>x.
     thn (kwhen (n > 0 \<and> off > i_size x)
       (thn (set_inode ip (\<lambda>x. x\<lparr>i_size := off\<rparr>))
       (iupdate ip)))
     (ret (sint n)))))"

subsection \<open>Directories\<close>

text \<open>A directory entry is two bytes of inode number and \<open>DIRSIZ\<close> bytes of name.\<close>

definition namecmp :: "cptr \<Rightarrow> cptr \<Rightarrow> int" where
  "namecmp s t = strncmp s t DIRSIZ"

definition de_inum :: "u8 list \<Rightarrow> u16" where
  "de_inum de = get16 de 0"

definition de_name :: "u8 list \<Rightarrow> cptr" where
  "de_name de = bytes (drop 2 de)"

definition de_make :: "u16 \<Rightarrow> u8 list \<Rightarrow> u8 list" where
  "de_make inum name = le16 inum @ name"

text \<open>The offsets \<open>0, sizeof(de), ...\<close> below the size of a directory.\<close>

definition de_offsets :: "u32 \<Rightarrow> nat list" where
  "de_offsets sz = map (\<lambda>k. 16 * k) [0..<(unat sz + 15) div 16]"

fun dirlookup_from :: "'a fs_st_scheme devtab \<Rightarrow> nat \<Rightarrow> cptr \<Rightarrow> nat list \<Rightarrow> ((nat \<times> u32) option, 'a fs_st_scheme) kop" where
  "dirlookup_from devsw dp name [] = ret None"
| "dirlookup_from devsw dp name (off # offs) =
     bnd (readi devsw dp (of_nat off) 16) (\<lambda>(r, de).
     if r \<noteq> 16 then kpanic ''dirlookup read''
     else if de_inum de \<noteq> 0 \<and> namecmp name (de_name de) = 0 then
       bnd (get_inode dp) (\<lambda>x.
       bnd (iget (i_dev x) (ucast (de_inum de))) (\<lambda>ip.
       ret (Some (ip, of_nat off))))
     else dirlookup_from devsw dp name offs)"

definition dirlookup :: "'a fs_st_scheme devtab \<Rightarrow> nat \<Rightarrow> u8 list \<Rightarrow> ((nat \<times> u32) option, 'a fs_st_scheme) kop" where
  "dirlookup devsw dp name =
     bnd (get_inode dp) (\<lambda>x.
     if i_type x \<noteq> T_DIR then kpanic ''dirlookup not DIR''
     else dirlookup_from devsw dp (bytes name) (de_offsets (i_size x)))"

text \<open>The offset of the first free entry, or the end of the directory.\<close>

fun dirlink_slot :: "'a fs_st_scheme devtab \<Rightarrow> nat \<Rightarrow> nat list \<Rightarrow> nat \<Rightarrow> (nat, 'a fs_st_scheme) kop" where
  "dirlink_slot devsw dp [] end_off = ret end_off"
| "dirlink_slot devsw dp (off # offs) end_off =
     bnd (readi devsw dp (of_nat off) 16) (\<lambda>(r, de).
     if r \<noteq> 16 then kpanic ''dirlink read''
     else if de_inum de = 0 then ret off
     else dirlink_slot devsw dp offs end_off)"

definition dirlink :: "'a fs_st_scheme devtab \<Rightarrow> nat \<Rightarrow> u8 list \<Rightarrow> u32 \<Rightarrow> (int, 'a fs_st_scheme) kop" where
  "dirlink devsw dp name inum =
     bnd (dirlookup devsw dp name) (\<lambda>r.
     case r of
       Some (ip, _) \<Rightarrow> thn (iput ip) (ret (-1))
     | None \<Rightarrow>
         bnd (get_inode dp) (\<lambda>x.
         bnd (dirlink_slot devsw dp (de_offsets (i_size x)) (16 * ((unat (i_size x) + 15) div 16))) (\<lambda>off.
         let de = de_make (ucast inum) (strncpy (bytes name) DIRSIZ) in
         bnd (writei devsw dp (bytes de) (of_nat off) 16) (\<lambda>r.
         if r \<noteq> 16 then kpanic ''dirlink'' else ret 0))))"

subsection \<open>Paths\<close>

abbreviation (input) SLASH :: u8 where "SLASH \<equiv> 47"

definition skipelem :: "u8 list \<Rightarrow> (u8 list \<times> u8 list) option" where
  "skipelem path =
     (let s = dropWhile (\<lambda>c. c = SLASH) path in
      if s = [] then None
      else let elem = takeWhile (\<lambda>c. c \<noteq> SLASH) s; rest = dropWhile (\<lambda>c. c \<noteq> SLASH) s in
      Some (take DIRSIZ elem, dropWhile (\<lambda>c. c = SLASH) rest))"

lemma skipelem_shorter:
  assumes "skipelem path = Some (name, rest)"
  shows "length rest < length path"
proof -
  let ?s = "dropWhile (\<lambda>c. c = 47) path"
  have s: "?s \<noteq> []" "rest = dropWhile (\<lambda>c. c = 47) (dropWhile (\<lambda>c. c \<noteq> 47) ?s)"
    using assms by (auto simp: skipelem_def Let_def split: if_splits)
  have "hd ?s \<noteq> 47" using hd_dropWhile [OF s(1)] by simp
  then have "length (dropWhile (\<lambda>c. c \<noteq> 47) ?s) < length ?s"
    using s(1) by (cases ?s) (auto simp: length_dropWhile_le le_imp_less_Suc)
  then show ?thesis
    unfolding s(2) using length_dropWhile_le [of "\<lambda>c. c = 47" "dropWhile (\<lambda>c. c \<noteq> 47) ?s"]
      length_dropWhile_le [of "\<lambda>c. c = 47" path] by linarith
qed

text \<open>The loop of \<open>namex\<close>. The inode, and the name left in the buffer \<open>name\<close>.\<close>

function namex_loop :: "'a fs_st_scheme devtab \<Rightarrow> bool \<Rightarrow> nat \<Rightarrow> u8 list \<Rightarrow> u8 list \<Rightarrow>
    ((nat \<times> u8 list) option, 'a fs_st_scheme) kop" where
  "namex_loop devsw par ip path name =
     (case skipelem path of
        None \<Rightarrow> if par then thn (iput ip) (ret None) else ret (Some (ip, name))
      | Some (name, path) \<Rightarrow>
          thn (ilock (Some ip))
          (bnd (get_inode ip) (\<lambda>x.
          if i_type x \<noteq> T_DIR then thn (iunlockput ip) (ret None)
          else if par \<and> path = [] then thn (iunlock (Some ip)) (ret (Some (ip, name)))
          else
          bnd (dirlookup devsw ip name) (\<lambda>nxt.
          case nxt of
            None \<Rightarrow> thn (iunlockput ip) (ret None)
          | Some (nxt, _) \<Rightarrow> thn (iunlockput ip) (namex_loop devsw par nxt path name)))))"
  by pat_completeness auto
termination
  by (relation "measure (\<lambda>(devsw, par, ip, path, name). length path)") (auto dest: skipelem_shorter)

declare namex_loop.simps [simp del]

definition namex :: "'a fs_st_scheme devtab \<Rightarrow> u8 list \<Rightarrow> bool \<Rightarrow> ((nat \<times> u8 list) option, 'a fs_st_scheme) kop" where
  "namex devsw path par =
     bnd (if path \<noteq> [] \<and> hd path = SLASH then iget 1 1
          else bnd curproc (\<lambda>p. bnd (get_proc p) (\<lambda>q.
               case p_cwd q of None \<Rightarrow> kpanic ''trap'' | Some i \<Rightarrow> idup i))) (\<lambda>ip.
     namex_loop devsw par ip path [])"

definition namei :: "'a fs_st_scheme devtab \<Rightarrow> u8 list \<Rightarrow> (nat option, 'a fs_st_scheme) kop" where
  "namei devsw path =
     bnd (namex devsw path False) (\<lambda>r.
     ret (map_option fst r))"

definition nameiparent :: "'a fs_st_scheme devtab \<Rightarrow> u8 list \<Rightarrow> ((nat \<times> u8 list) option, 'a fs_st_scheme) kop" where
  "nameiparent devsw path = namex devsw path True"

subsection \<open>The layers below\<close>

lemma fs_over_mach [simp]:
  "sb (lock_on l s) = sb s" "sb (settle s) = sb s" "sb (cli_on s) = sb s"
  "inodes (lock_on l s) = inodes s" "inodes (settle s) = inodes s" "inodes (cli_on s) = inodes s"
  by (simp_all add: mach_on_defs)

lemma fs_me [simp]:
  "me (s\<lparr>sb := x0\<rparr>) = me s"
  "me (s\<lparr>inodes := x1\<rparr>) = me s"
  by (simp_all add: me_def cpu_ix_def lapicid_def)

lemma fs_mach [simp]:
  "mach_ok (s\<lparr>sb := x0\<rparr>) = mach_ok s" "lock_free l (s\<lparr>sb := x0\<rparr>) = lock_free l s"
  "mach_ok (s\<lparr>inodes := x1\<rparr>) = mach_ok s" "lock_free l (s\<lparr>inodes := x1\<rparr>) = lock_free l s"
  by (simp_all add: mach_ok_def lock_free_def cpu_ix_def lapicid_def readeflags_IF_def)

lemma fs_upd_on [simp]:
  "(lock_on l s)\<lparr>sb := x0\<rparr> = lock_on l (s\<lparr>sb := x0\<rparr>)"
  "(settle s)\<lparr>sb := x0\<rparr> = settle (s\<lparr>sb := x0\<rparr>)"
  "(lock_on l s)\<lparr>inodes := x1\<rparr> = lock_on l (s\<lparr>inodes := x1\<rparr>)"
  "(settle s)\<lparr>inodes := x1\<rparr> = settle (s\<lparr>inodes := x1\<rparr>)"
  by (simp_all add: lock_on_def settle_def cli_on_def set_cpu_def cli_def readeflags_IF_def cong: if_cong)


subsection \<open>Path names\<close>

text \<open>The elements \<open>skipelem\<close> takes off a path, and the specification: split at the slashes.\<close>

function path_elems :: "u8 list \<Rightarrow> u8 list list" where
  "path_elems path = (case skipelem path of None \<Rightarrow> [] | Some (name, rest) \<Rightarrow> name # path_elems rest)"
  by pat_completeness auto
termination
  by (relation "measure length") (auto dest: skipelem_shorter)

declare path_elems.simps [simp del]

fun split_slash :: "u8 list \<Rightarrow> u8 list list" where
  "split_slash [] = [[]]"
| "split_slash (c # cs) =
     (if c = SLASH then [] # split_slash cs
      else (c # hd (split_slash cs)) # tl (split_slash cs))"

lemma split_slash_nonempty [simp]: "split_slash p \<noteq> []"
  by (cases p) auto

lemma split_drop: "filter (\<lambda>e. e \<noteq> []) (split_slash (dropWhile (\<lambda>c. c = 47) p)) = filter (\<lambda>e. e \<noteq> []) (split_slash p)"
  by (induction p) auto

lemma split_hd: "hd (split_slash p) = takeWhile (\<lambda>c. c \<noteq> 47) p"
  by (induction p) auto

lemma split_tl: "filter (\<lambda>e. e \<noteq> []) (tl (split_slash p)) =
    filter (\<lambda>e. e \<noteq> []) (split_slash (dropWhile (\<lambda>c. c \<noteq> 47) p))"
  by (induction p) auto

lemma path_elems_split: "path_elems p = map (take 14) (filter (\<lambda>e. e \<noteq> []) (split_slash p))"
proof (induction p rule: path_elems.induct)
  case (1 p)
  let ?s = "dropWhile (\<lambda>c. c = 47) p"
  show ?case
  proof (cases "?s = []")
    case True
    then have "skipelem p = None" by (simp add: skipelem_def)
    moreover have "filter (\<lambda>e. e \<noteq> []) (split_slash p) = []" using split_drop [of p] True by simp
    ultimately show ?thesis by (simp add: path_elems.simps [of p])
  next
    case False
    let ?r = "dropWhile (\<lambda>c. c = 47) (dropWhile (\<lambda>c. c \<noteq> 47) ?s)"
    have sk: "skipelem p = Some (take 14 (takeWhile (\<lambda>c. c \<noteq> 47) ?s), ?r)"
      using False by (simp add: skipelem_def Let_def)
    have ne: "takeWhile (\<lambda>c. c \<noteq> 47) ?s \<noteq> []" using False hd_dropWhile [OF False] by (cases ?s) auto
    have e: "split_slash ?s = takeWhile (\<lambda>c. c \<noteq> 47) ?s # tl (split_slash ?s)"
      using list.collapse [OF split_slash_nonempty [of ?s]] unfolding split_hd by (rule sym)
    have "filter (\<lambda>e. e \<noteq> []) (split_slash ?s) =
        takeWhile (\<lambda>c. c \<noteq> 47) ?s # filter (\<lambda>e. e \<noteq> []) (tl (split_slash ?s))"
      by (subst e, subst filter.simps(2)) (simp only: ne not_False_eq_True if_True)
    then have "filter (\<lambda>e. e \<noteq> []) (split_slash p) =
        takeWhile (\<lambda>c. c \<noteq> 47) ?s # filter (\<lambda>e. e \<noteq> []) (split_slash ?r)"
      by (simp only: split_drop split_tl)
    then show ?thesis using 1 [OF sk refl] by (simp add: path_elems.simps [of p] sk)
  qed
qed

text \<open>
  C19. \<open>skipelem\<close>, called again and again as \<open>namex\<close> does, yields exactly the non-empty components
  of the path between slashes, each cut to \<open>DIRSIZ\<close> characters, and ends.
\<close>

theorem path_elems_are_components:
  "path_elems p = map (take 14) (filter (\<lambda>e. e \<noteq> []) (split_slash p))"
  by (rule path_elems_split)

subsection \<open>Extents\<close>

text \<open>The disk blocks that a list of extents describes, in file order.\<close>

definition ext_run :: "u32 \<Rightarrow> u32 list" where
  "ext_run a = map (\<lambda>k. EXT_ADDRESS a + of_nat k) [0..<unat (EXT_LENGTH a)]"

definition ext_blocks :: "u32 list \<Rightarrow> u32 list" where
  "ext_blocks as = concat (map ext_run (takeWhile (\<lambda>a. a \<noteq> 0) as))"

lemma ext_blocks_Cons: "ext_blocks (a # as) = (if a = 0 then [] else ext_run a @ ext_blocks as)"
  by (simp add: ext_blocks_def)

lemma ext_length_less: "unat (EXT_LENGTH a) < 256"
  using unsigned_less [of "EXT_LENGTH a"] by simp

lemma unat_ext_length: "unat (ucast (EXT_LENGTH a) :: u32) = unat (EXT_LENGTH a)"
proof -
  have "unat (EXT_LENGTH a) < 2 ^ LENGTH(32)" using ext_length_less [of a] by simp
  then show ?thesis unfolding unsigned_ucast_eq by (rule take_bit_nat_eq_self)
qed

lemma unat_add_len:
  assumes "unat curlen + 256 \<le> 2 ^ 32"
  shows "unat ((curlen :: u32) + ucast (EXT_LENGTH a)) = unat curlen + unat (EXT_LENGTH a)"
proof -
  have "unat curlen + unat (EXT_LENGTH a) < 2 ^ LENGTH(32)"
    using assms ext_length_less [of a] by simp
  then show ?thesis unfolding unat_word_ariths(1) unat_ext_length by (rule mod_less)
qed

lemma ext_scan_blocks:
  assumes "i + length as = 13" and "i \<le> 12" and "unat curlen + 256 * length as \<le> 2 ^ 32" and "unat curlen \<le> unat bn"
  shows "ext_scan as bn curlen i = (if unat bn - unat curlen < length (ext_blocks as)
     then Inl (ext_blocks as ! (unat bn - unat curlen)) else Inr (min 12 (i + length (takeWhile (\<lambda>a. a \<noteq> 0) as))))"
  using assms
proof (induction as arbitrary: curlen i)
  case Nil
  then show ?case by (simp add: ext_blocks_def)
next
  case (Cons a as)
  let ?l = "unat (EXT_LENGTH a)" let ?d = "unat bn - unat curlen"
  have u: "unat (curlen + ucast (EXT_LENGTH a)) = unat curlen + ?l"
    using Cons.prems(3) by (intro unat_add_len) simp
  have hit: "bn < curlen + ucast (EXT_LENGTH a) \<longleftrightarrow> ?d < ?l"
    using Cons.prems(4) by (auto simp: word_less_nat_alt u)
  have le: "curlen \<le> bn" using Cons.prems(4) by (simp add: word_le_nat_alt)
  show ?case
  proof (cases "a = 0")
    case True
    then show ?thesis using Cons.prems(1) by (simp add: ext_blocks_Cons)
  next
    case nz: False
    have step: "ext_scan (a # as) bn curlen i = (if ?d < ?l then Inl (EXT_ADDRESS a + bn - curlen)
        else if i > 11 then Inr i else ext_scan as bn (curlen + ucast (EXT_LENGTH a)) (i + 1))"
      unfolding ext_scan.simps hit [symmetric] using nz le by (simp only: if_False simp_thms)
    have bl: "ext_blocks (a # as) = ext_run a @ ext_blocks as" "length (ext_run a) = ?l"
        "length (takeWhile (\<lambda>a. a \<noteq> 0) (a # as)) = 1 + length (takeWhile (\<lambda>a. a \<noteq> 0) as)"
      using nz by (simp_all add: ext_blocks_Cons ext_run_def)
    show ?thesis
    proof (cases "?d < ?l")
      case True
      have "of_nat ?d = bn - curlen" using Cons.prems(4) by (simp add: of_nat_diff)
      then have "ext_run a ! ?d = EXT_ADDRESS a + bn - curlen" using True by (simp add: ext_run_def)
      then show ?thesis using True unfolding step bl(1) by (simp add: nth_append bl(2))
    next
      case miss: False
      show ?thesis
      proof (cases "i > 11")
        case True
        then have i: "i = 12" using Cons.prems(2) by simp
        then have "length as = 0" using Cons.prems(1) unfolding list.size by linarith
        then have "ext_blocks as = []" by (simp add: ext_blocks_def)
        then show ?thesis using miss i unfolding step bl(1,3) by (simp add: bl(2))
      next
        case i: False
        have "ext_scan as bn (curlen + ucast (EXT_LENGTH a)) (i + 1) =
            (if unat bn - (unat curlen + ?l) < length (ext_blocks as)
             then Inl (ext_blocks as ! (unat bn - (unat curlen + ?l)))
             else Inr (min 12 (i + 1 + length (takeWhile (\<lambda>a. a \<noteq> 0) as))))"
          by (rule Cons.IH [of "i + 1" "curlen + ucast (EXT_LENGTH a)", unfolded u])
            (use Cons.prems miss i ext_length_less [of a] in simp_all)
        moreover have "unat bn - (unat curlen + ?l) < length (ext_blocks as) \<longleftrightarrow> ?d < length (ext_run a @ ext_blocks as)"
          using miss unfolding length_append bl(2) by linarith
        ultimately show ?thesis
          using miss i unfolding step bl(1,3) by (simp add: nth_append bl(2))
      qed
    qed
  qed
qed

lemma EXT_GEN:
  assumes "a < 2 ^ 24"
  shows "EXT_ADDRESS (GEN_ADDRESS a l) = a" and "EXT_LENGTH (GEN_ADDRESS a l) = l"
proof -
  have hi: "\<not> bit a n" if "24 \<le> n" for n
  proof -
    have "a AND mask 24 = a" using assms by (intro less_mask_eq) simp
    then have "bit a n = bit (a AND mask 24) n" by simp
    then show ?thesis using that by (simp add: bit_simps)
  qed
  have l8: "\<not> bit l (8 + n)" for n using bit_imp_le_length [of l "8 + n"] by auto
  show "EXT_ADDRESS (GEN_ADDRESS a l) = a"
    unfolding EXT_ADDRESS_def GEN_ADDRESS_def
    by (rule bit_word_eqI) (use hi l8 in \<open>auto simp: bit_simps not_less [symmetric]\<close>)
  have "(0x00ff :: u32) = mask 8" by (simp add: mask_eq_exp_minus_1)
  then have len: "EXT_LENGTH w = ucast (w AND mask 8)" for w by (simp only: EXT_LENGTH_def)
  show "EXT_LENGTH (GEN_ADDRESS a l) = l"
    unfolding len GEN_ADDRESS_def by (rule bit_word_eqI) (auto simp: bit_simps)
qed

lemma unat_EXT:
  "unat (EXT_ADDRESS a) = unat a div 256" "unat (EXT_LENGTH a) = unat a mod 256"
proof -
  show "unat (EXT_ADDRESS a) = unat a div 256"
    unfolding EXT_ADDRESS_def unat_drop_bit_eq by (simp add: drop_bit_eq_div)
  have "(0x00ff :: u32) = mask 8" by (simp add: mask_eq_exp_minus_1)
  then have "EXT_LENGTH a = ucast (take_bit 8 a)" by (simp only: EXT_LENGTH_def take_bit_eq_mask)
  then have "unat (EXT_LENGTH a) = take_bit 8 (unat a)"
    by (simp add: unsigned_ucast_eq unsigned_take_bit_eq)
  then show "unat (EXT_LENGTH a) = unat a mod 256" by (simp add: take_bit_eq_mod)
qed

lemma ext_run_grow:
  assumes "EXT_LENGTH a < 255"
  shows "ext_run (a + 1) = ext_run a @ [EXT_ADDRESS a + ucast (EXT_LENGTH a)]" and "a + 1 \<noteq> 0"
proof -
  have l: "unat a mod 256 < 255" using assms unat_EXT(2) [of a] by (simp add: word_less_nat_alt)
  have "unat a \<noteq> 4294967295" using l by auto
  then have u: "unat (a + 1) = unat a + 1"
    using unat_u32_less [of a] by (simp add: unat_word_ariths)
  then show "a + 1 \<noteq> 0" by auto
  have m: "(unat a + 1) mod 256 = unat a mod 256 + 1" "(unat a + 1) div 256 = unat a div 256"
    using l by (simp_all add: mod_Suc div_Suc)
  have "unat (EXT_ADDRESS (a + 1)) = unat (EXT_ADDRESS a)" unfolding unat_EXT u m ..
  then have ad: "EXT_ADDRESS (a + 1) = EXT_ADDRESS a" by (simp only: word_unat_eq_iff)
  have len: "unat (EXT_LENGTH (a + 1)) = unat (EXT_LENGTH a) + 1" unfolding unat_EXT u m ..
  have "(of_nat (unat (EXT_LENGTH a)) :: u32) = ucast (EXT_LENGTH a)" by simp
  then show "ext_run (a + 1) = ext_run a @ [EXT_ADDRESS a + ucast (EXT_LENGTH a)]"
    unfolding ext_run_def ad len by simp
qed

lemma ext_blocks_prefix:
  "(\<forall>a \<in> set as. a \<noteq> 0) \<Longrightarrow> ext_blocks (as @ bs) = concat (map ext_run as) @ ext_blocks bs"
  by (simp add: ext_blocks_def)

lemma ext_append_blocks:
  assumes len: "length (i_addrs x) = 13" and i: "0 < i" "i \<le> 11"
    and nz: "\<forall>k < i. i_addrs x ! k \<noteq> 0" and z: "\<forall>k. i \<le> k \<and> k < 13 \<longrightarrow> i_addrs x ! k = 0" and nb: "nb < 2 ^ 24"
  shows "ext_blocks (i_addrs (ext_append nb i x)) = ext_blocks (i_addrs x) @ [nb]"
proof -
  define as where "as = take (i - 1) (i_addrs x)"
  define p where "p = i_addrs x ! (i - 1)"
  define cs where "cs = drop (i + 1) (i_addrs x)"
  have zero: "i_addrs x ! i = 0" using z i by simp
  have "i_addrs x = take (i - 1) (i_addrs x) @ i_addrs x ! (i - 1) # drop (Suc (i - 1)) (i_addrs x)"
    by (rule id_take_nth_drop) (use len i in simp)
  moreover have "drop i (i_addrs x) = i_addrs x ! i # drop (Suc i) (i_addrs x)"
    by (rule Cons_nth_drop_Suc [symmetric]) (use len i in simp)
  ultimately have split: "i_addrs x = as @ p # 0 # cs" using i zero by (simp add: as_def p_def cs_def)
  have la: "length as = i - 1" using len i by (simp add: as_def)
  have as: "\<forall>a \<in> set as. a \<noteq> 0" using nz len i by (auto simp: as_def in_set_conv_nth)
  have p: "p \<noteq> 0" using nz i by (simp add: p_def)
  have old: "ext_blocks (i_addrs x) = concat (map ext_run as) @ ext_run p"
    unfolding split ext_blocks_prefix [OF as] using p by (simp add: ext_blocks_Cons)
  have pp: "prev_addr x i = p" using i by (simp add: prev_addr_def p_def)
  show ?thesis
  proof (cases "nb = EXT_ADDRESS p + ucast (EXT_LENGTH p) \<and> EXT_LENGTH p < 255")
    case True
    then have "i_addrs (ext_append nb i x) = as @ (p + 1) # 0 # cs"
      using i la by (simp add: ext_append_def pp set_prev_addr_def split list_update_append)
    then show ?thesis
      using ext_run_grow [of p] True as by (simp add: ext_blocks_prefix ext_blocks_Cons old)
  next
    case False
    let ?g = "GEN_ADDRESS nb 1"
    have "i_addrs (ext_append nb i x) = (as @ p # 0 # cs)[i := ?g]"
      unfolding split [symmetric] ext_append_def Let_def pp using False by (simp only: if_False) simp
    also have "\<dots> = as @ p # ?g # cs"
      using i la by (cases i) (simp_all add: list_update_append Suc_diff_le)
    finally have new: "i_addrs (ext_append nb i x) = as @ p # ?g # cs" .
    have "ext_run ?g = [nb]" using EXT_GEN [OF nb, of 1] by (simp add: ext_run_def)
    moreover have "?g \<noteq> 0" using EXT_GEN(2) [OF nb, of 1] unat_EXT(2) [of 0] by auto
    moreover have "ext_blocks cs = []"
    proof -
      have "c = 0" if "c \<in> set cs" for c using that z len by (auto simp: cs_def in_set_conv_nth)
      then show ?thesis by (cases cs) (auto simp: ext_blocks_def)
    qed
    ultimately show ?thesis
      unfolding new ext_blocks_prefix [OF as] using p by (simp add: ext_blocks_Cons old)
  qed
qed

text \<open>
  C20. In an extent file \<open>bmap\<close> finds the block of every allocated file block: the extents stand
  for the concatenation of their runs, a file block below the total length is found at its
  place in it, and one beyond is reported with the index of the first free extent.
\<close>

theorem ext_scan_finds_block:
  assumes "length as = 13"
  shows "ext_scan as bn 0 0 = (if unat bn < length (ext_blocks as) then Inl (ext_blocks as ! unat bn)
     else Inr (min 12 (length (takeWhile (\<lambda>a. a \<noteq> 0) as))))"
  using ext_scan_blocks [of 0 as 0 bn] assms by simp


theorem ext_scan_finds_block_witness:
  "ext_scan (GEN_ADDRESS 500 3 # replicate 12 0) 2 0 0 = Inl 502"
  using ext_scan_finds_block [of "GEN_ADDRESS 500 3 # replicate 12 0" 2]
  by (simp add: ext_blocks_def ext_run_def EXT_GEN GEN_ADDRESS_def EXT_LENGTH_def EXT_ADDRESS_def upt_rec)

definition inode0 :: inode where
  "inode0 = \<lparr>i_dev = 0, i_inum = 0, i_ref = 0, i_valid = False, i_type = 0, i_major = 0, i_minor = 0,
     i_nlink = 0, i_size = 0, i_addrs = replicate 13 0\<rparr>"


subsection \<open>Inodes on disk\<close>

lemma length_concat_le32 [simp]: "length (concat (map le32 as)) = 4 * length as"
  by (induction as) simp_all

lemma nth_concat_le32: "k < length as \<Longrightarrow> j < 4 \<Longrightarrow> concat (map le32 as) ! (4 * k + j) = le32 (as ! k) ! j"
proof (induction as arbitrary: k)
  case (Cons a as)
  show ?case
  proof (cases k)
    case 0
    then show ?thesis using Cons.prems by (simp add: nth_append)
  next
    case (Suc m)
    then have "4 * k + j = 4 + (4 * m + j)" by simp
    then show ?thesis using Cons Suc by (simp add: nth_append)
  qed
qed simp

lemma dinode_off_le: "dinode_off n + 64 \<le> 512"
proof -
  have "unat n mod 8 \<le> 7" by simp
  then have "unat n mod 8 * 60 \<le> 420" by linarith
  then show ?thesis by (simp add: dinode_off_def IPB_def DINODE_SIZE_def)
qed

text \<open>
  C22. The in-memory inode has one address more than the inode on disk, and \<open>iupdate\<close> writes it
  over the next inode of the block: after the update of an inode, the type of the next inode in
  the same block is the low half of the last address of this one.
\<close>

theorem iupdate_overwrites_next_inode:
  assumes "length d = 512" and "length (i_addrs ip) = 13" and "unat (i_inum ip) mod 8 < 7"
  shows "get16 (dinode_put ip d) (dinode_off (i_inum ip + 1)) = ucast (i_addrs ip ! 12)"
proof -
  let ?o = "dinode_off (i_inum ip)"
  have "unat (i_inum ip) \<noteq> 4294967295" using assms(3) by auto
  then have "unat (i_inum ip + 1) = unat (i_inum ip) + 1"
    using unat_u32_less [of "i_inum ip"] by (simp add: unat_word_ariths)
  then have nxt: "dinode_off (i_inum ip + 1) = ?o + 60"
    using assms(3) by (simp add: dinode_off_def IPB_def DINODE_SIZE_def mod_Suc)
  define e where "e = put32 (put16 (put16 (put16 (put16 d ?o (i_type ip)) (?o + 2) (i_major ip)) (?o + 4) (i_minor ip))
        (?o + 6) (i_nlink ip)) (?o + 8) (i_size ip)"
  have le: "length e = 512" using assms(1) dinode_off_le [of "i_inum ip"] by (simp add: e_def)
  have fit: "?o + 12 + length (concat (map le32 (i_addrs ip))) \<le> length e"
    using dinode_off_le [of "i_inum ip"] assms(2) by (simp add: le)
  have "dinode_put ip d = blit e (?o + 12) (concat (map le32 (i_addrs ip)))"
    by (simp add: dinode_put_def Let_def e_def)
  moreover have "concat (map le32 (i_addrs ip)) ! 48 = le32 (i_addrs ip ! 12) ! 0"
      "concat (map le32 (i_addrs ip)) ! 49 = le32 (i_addrs ip ! 12) ! 1"
    using nth_concat_le32 [of 12 "i_addrs ip" 0] nth_concat_le32 [of 12 "i_addrs ip" 1] assms(2) by simp_all
  ultimately have "get16 (dinode_put ip d) (?o + 60) = ucast (le32 (i_addrs ip ! 12) ! 0) OR
      push_bit 8 (ucast (le32 (i_addrs ip ! 12) ! 1))"
    using assms(2) by (simp add: get16_def nth_blit [OF fit])
  also have "\<dots> = ucast (i_addrs ip ! 12)"
    by (rule bit_word_eqI) (auto simp: le32_def bit_simps)
  finally show ?thesis unfolding nxt .
qed

theorem iupdate_overwrites_next_inode_witness:
  "get16 (dinode_put (inode0\<lparr>i_inum := 3\<rparr>) zero_block) (dinode_off 4) = 0"
  using iupdate_overwrites_next_inode [of zero_block "inode0\<lparr>i_inum := 3\<rparr>"] by (simp add: inode0_def)

subsection \<open>The limits of a file\<close>

lemma bmap_out_of_range:
  assumes "i_type (inodes s ! ip) \<noteq> 5" and "11 + 128 + 16384 \<le> unat bn"
  shows "bmap ip bn s = Panic ''bmap: out of range''"
proof -
  have "\<not> unat bn < 11" "\<not> unat bn - 11 < 128" "\<not> unat bn - 11 - 128 < 128 * 128" using assms(2) by linarith+
  then show ?thesis
    using assms(1) by (simp add: bmap_def bnd_gets get_inode_def Let_def NDOUBLY_INDIRECT_def kpanic_def)
qed

text \<open>
  The bound that \<open>writei\<close> checks is larger than the largest file \<open>bmap\<close> can address: a write to
  an ordinary file that starts beyond block \<open>NDIRECT + NINDIRECT + NINDIRECT * NINDIRECT\<close> and
  ends within \<open>MAXFILE\<close> blocks is not refused but panics the kernel.
\<close>

lemma writei_past_bmap_panics:
  assumes "i_type (inodes s ! ip) = 2" and "(11 + 128 + 16384) * 512 \<le> unat off" and "0 < n"
    and "off + n \<le> 1073747456"
  shows "writei devsw ip src off n s = Panic ''bmap: out of range''"
proof -
  have b: "11 + 128 + 16384 \<le> unat (off div 512)"
    using assms(2) by (simp add: unat_div)
  have "unat n \<noteq> 0" using assms(3) by (simp add: word_less_nat_alt)
  then have "writei_loop ip src 0 off (unat n) s = Panic ''bmap: out of range''"
    using bmap_out_of_range [OF _ b, of s ip] assms(1)
    by (subst writei_loop.simps) (simp add: Let_def kop get_inode_def)
  moreover have "\<not> of_nat (MAXFILE * 512) < off + n"
    using assms(4) by (simp add: MAXFILE_def not_less)
  ultimately show ?thesis using assms(1) by (simp add: writei_def kop get_inode_def)
qed

subsection \<open>A concrete file system\<close>

definition fs0 :: "(nat \<Rightarrow> block) \<Rightarrow> inode list \<Rightarrow> 'a \<Rightarrow> 'a fs_st_scheme" where
  "fs0 d is x = bio0 d \<lparr>lg = \<lparr>lg_start = 2, lg_size = 30, lg_outstanding = 1, lg_committing = False,
     lg_dev = 1, lh_n = 0, lh_block = replicate 30 0\<rparr>, sb = \<lparr>sb_size = 1000, sb_nblocks = 941, sb_ninodes = 200,
     sb_nlog = 30, sb_logstart = 2, sb_inodestart = 32, sb_bmapstart = 58\<rparr>, inodes = is @ replicate (50 - length is) inode0, \<dots> = x\<rparr>"

lemma fs0_fields [simp]:
  "k < length is \<Longrightarrow> inodes (fs0 d is x) ! k = is ! k" "disksize (fs0 d is x) = 1000" "disk (fs0 d is x) = d"
  "sb (fs0 d is x) = \<lparr>sb_size = 1000, sb_nblocks = 941, sb_ninodes = 200,
     sb_nlog = 30, sb_logstart = 2, sb_inodestart = 32, sb_bmapstart = 58\<rparr>"
  "lg (fs0 d is x) = \<lparr>lg_start = 2, lg_size = 30, lg_outstanding = 1, lg_committing = False,
     lg_dev = 1, lh_n = 0, lh_block = replicate 30 0\<rparr>"
  by (simp_all add: fs0_def bio0_def slock0_def proc0_def kmem0_def mach0_def nth_append)

lemma fs0_clean [simp]: "dirty_blocks (fs0 d is x) = {}" "blk (fs0 d is x) n = d (unat n)"
proof -
  show "dirty_blocks (fs0 d is x) = {}" by (simp add: dirty_blocks_def fs0_def buf0_def)
  show "blk (fs0 d is x) n = d (unat n)"
    using blk_uncached [of "fs0 d is x" n] by (simp add: fs0_def buf0_def)
qed

lemma fs0_ok [simp]: "(\<And>n. length (d n) = 512) \<Longrightarrow> bio_ok (fs0 d is x) 0 {}" "log_ok (fs0 d is x)"
  by (simp_all add: fs0_def) (simp_all add: log_ok_def log_wf_def log_blocks_def fs0_def [symmetric])

lemma writei_past_bmap_panics_example:
  "writei (\<lambda>_. (None, None)) 0 (\<lambda>_. 7) 8459776 100 (fs0 (\<lambda>_. zero_block) [inode0\<lparr>i_type := 2\<rparr>] ()) = Panic ''bmap: out of range''"
  using writei_past_bmap_panics [of "fs0 (\<lambda>_. zero_block) [inode0\<lparr>i_type := 2\<rparr>] ()" 0 8459776 100] by simp

subsection \<open>Reading metadata blocks\<close>

lemma bread_brelse:
  assumes ok: "bio_ok s p H" and h: "\<And>b. b \<in> H \<Longrightarrow> b_blockno (bufs s ! b) \<noteq> n" and post: "bread_post s p H n b t"
  obtains u where "brelse b t = Ret () u" "bio_ok u p H" "bio_frame s u" "disk u = disk s" "dtrace u = dtrace s"
    "blk u = blk s" "dirty_blocks u = dirty_blocks s" "\<And>c. c \<noteq> b \<Longrightarrow> bufs u ! c = bufs s ! c" "b \<notin> H"
proof -
  have p: "bio_ok t p (insert b H)" "b \<notin> H" "b < 30" "b_blockno (bufs t ! b) = n" "b_data (bufs t ! b) = blk s n"
      "disk t = disk s" "dtrace t = dtrace s" "bio_frame s t" "blk t = blk s" "dirty_blocks t = dirty_blocks s"
      "\<And>c. c \<noteq> b \<Longrightarrow> bufs t ! c = bufs s ! c"
    using post by (simp_all add: bread_post_def)
  have "b_dirty (bufs t ! b) \<or> b_data (bufs t ! b) = disk t (unat (b_blockno (bufs t ! b)))"
  proof (cases "b_dirty (bufs t ! b)")
    case False
    then have "n \<notin> dirty_blocks s" using held_dirty [OF p(1) insertI1] p(4,10) by simp
    then show ?thesis using blk_clean [OF ok _ h] p(4-6) by simp
  qed simp
  then obtain u where u: "brelse b t = Ret () u" "bio_ok u p (insert b H - {b})" "bio_frame t u" "disk u = disk t"
      "dtrace u = dtrace t" "bufs u = (bufs t)[b := (bufs t ! b)\<lparr>b_refcnt := 0\<rparr>]" "blk u = blk t"
      "dirty_blocks u = dirty_blocks t"
    using brelse_clean [OF p(1) insertI1] by blast
  moreover have "insert b H - {b} = H" using p(2) by auto
  moreover have "bufs u ! c = bufs s ! c" if "c \<noteq> b" for c using u(6) p(11) [OF that] that by simp
  ultimately show ?thesis using that p bio_frame_trans [OF p(8) u(3)] by simp
qed

lemma bread_held_blocks:
  assumes ok: "bio_ok s p H" and b: "b \<in> H" "b_blockno (bufs s ! b) = n"
  shows "\<exists>u. bread 1 n s = Block (ChSleep (SLBuf b)) u"
proof -
  have b30: "b < 30" using bio_okD(4) [OF ok] b(1) by auto
  have bo: "buf_ok True (mypid s p) (slocks s (SLBuf b)) (disk s) (bufs s ! b)"
    using bio_okD(8) [OF ok b30] b by simp
  have "cached s n = Some b" using cachedI [OF ok b30] bo b(2) by (simp add: buf_ok_def)
  then have f: "find (\<lambda>b. b_dev (bufs s ! b) = 1 \<and> b_blockno (bufs s ! b) = n) (lru s) = Some b"
    using find_cached [OF ok] by simp
  note q = bio_okD(1) [OF ok]
  have lk: "lk_locked (slocks s (SLBuf b))" using bo by (simp add: buf_ok_def)
  show ?thesis
    using f quietD [OF q] lk q
    by (simp add: bread_def bget_def kop acquire_ok release_on set_buf_def acquiresleep_blocks [where p = p])
qed

lemma bmap_entry_present:
  assumes ok: "bio_ok s p H" and h: "\<And>b. b \<in> H \<Longrightarrow> b_blockno (bufs s ! b) \<noteq> a" and a: "a < disksize s"
    and room: "card (dirty_blocks s) + card H < 30" and e: "get32 (blk s a) (4 * k) = e" "e \<noteq> 0"
  shows "\<exists>b t. bmap_entry 1 a k s = Ret (b, e) t \<and> bread_post s p H a b t"
proof -
  obtain b t where t: "bread 1 a s = Ret b t" "bread_post s p H a b t"
    using bread_ok [OF ok a h] buffer_room [OF ok room] by blast
  then have "b_data (bufs t ! b) = blk s a" by (simp add: bread_post_def)
  then show ?thesis
    using t e by (auto simp: bmap_entry_def bnd_def get_data_def gets_def ret_def)
qed

lemma bio_frame_inodes: "bio_frame s t \<Longrightarrow> inodes t = inodes s \<and> sb t = sb s"
  by (cases s, cases t) (simp add: bio_frame_def bio_st.defs log_st.defs)

text \<open>\<open>two_level s ip k a e f\<close>: file block \<open>k\<close> of the doubly indirect range is allocated, through \<open>a\<close> and \<open>e\<close>, at \<open>f\<close>.\<close>

definition two_level :: "'a fs_st_scheme \<Rightarrow> nat \<Rightarrow> nat \<Rightarrow> u32 \<Rightarrow> u32 \<Rightarrow> u32 \<Rightarrow> bool" where
  "two_level s ip k a e f \<longleftrightarrow> i_type (inodes s ! ip) = 2 \<and> i_dev (inodes s ! ip) = 1 \<and> k < 128 * 128 \<and>
     i_addrs (inodes s ! ip) ! 12 = a \<and> a \<noteq> 0 \<and> a < disksize s \<and> get32 (blk s a) (4 * (k div 128)) = e \<and>
     e \<noteq> 0 \<and> e < disksize s \<and> e \<noteq> a \<and> get32 (blk s e) (4 * (k mod 128)) = f \<and> f \<noteq> 0"

lemma bmap_two_level:
  assumes ok: "bio_ok s p H" and tl: "two_level s ip k a e f"
    and h: "\<And>b. b \<in> H \<Longrightarrow> b_blockno (bufs s ! b) \<noteq> a" and room: "card (dirty_blocks s) + card H < 30"
    and bn: "unat bn = 139 + k"
  shows "\<exists>v. bmap ip bn s = bnd (bmap_entry 1 e (k mod 128)) (\<lambda>(bp, addr). ret addr) v \<and> bio_ok v p H \<and>
     bio_frame s v \<and> blk v = blk s \<and> dirty_blocks v = dirty_blocks s \<and> (\<forall>b \<in> H. bufs v ! b = bufs s ! b)"
proof -
  have t: "i_type (inodes s ! ip) = 2" "i_dev (inodes s ! ip) = 1" "k < 128 * 128" "i_addrs (inodes s ! ip) ! 12 = a"
      "a \<noteq> 0" "a < disksize s" "get32 (blk s a) (4 * (k div 128)) = e" "e \<noteq> 0"
    using tl by (simp_all add: two_level_def)
  obtain b u where u: "bmap_entry 1 a (k div 128) s = Ret (b, e) u" "bread_post s p H a b u"
    using bmap_entry_present [OF ok h t(6) room t(7,8)] by blast
  obtain v where v: "brelse b u = Ret () v" "bio_ok v p H" "bio_frame s v" "blk v = blk s"
      "dirty_blocks v = dirty_blocks s" "\<And>c. c \<noteq> b \<Longrightarrow> bufs v ! c = bufs s ! c" "b \<notin> H"
    using bread_brelse [OF ok h u(2)] by blast
  have n: "\<not> unat bn < 11" "\<not> unat bn - 11 < 128" "unat bn - 11 - 128 = k" using bn by simp_all
  have slot: "bmap_slot ip (11 + 1) s = Ret a s"
    using t(4,5) by (simp add: bmap_slot_def bnd_gets get_inode_def ret_def)
  have "bmap ip bn s = bnd (bmap_entry 1 e (k mod 128)) (\<lambda>(bp, addr). ret addr) v"
    unfolding bmap_def Let_def n(3) NDOUBLY_INDIRECT_def bnd_gets get_inode_def
    using t(1,2,3) n(1,2) slot u(1) v(1) by (simp add: bnd_def thn_def)
  moreover have "bufs v ! c = bufs s ! c" if "c \<in> H" for c using v(6) [of c] v(7) that by auto
  ultimately show ?thesis using v by blast
qed

text \<open>
  C23. \<open>bmap\<close> does not release the second-level block of a doubly indirect file: it returns the right
  address with the buffer of that block still locked, and the next \<open>bmap\<close> through the same
  block puts the process to sleep on a lock that it holds itself.
\<close>

theorem bmap_doubly_indirect_deadlocks:
  assumes "bio_ok s p {}" and "two_level s ip k a e f" and "card (dirty_blocks s) < 28" and "unat bn = 139 + k"
  shows "\<exists>t b. bmap ip bn s = Ret f t \<and> bio_ok t p {b} \<and> (\<exists>u. bmap ip bn t = Block (ChSleep (SLBuf b)) u)"
proof -
  note tl = assms(2) [unfolded two_level_def]
  obtain v where v: "bmap ip bn s = bnd (bmap_entry 1 e (k mod 128)) (\<lambda>(bp, addr). ret addr) v" "bio_ok v p {}"
      "bio_frame s v" "blk v = blk s" "dirty_blocks v = dirty_blocks s"
    using bmap_two_level [OF assms(1,2) _ _ assms(4)] assms(3) by auto
  have e: "e < disksize v" "get32 (blk v e) (4 * (k mod 128)) = f" "f \<noteq> 0" "e \<noteq> a"
    using tl v(3,4) by (simp_all add: bio_frame_def)
  have "card (dirty_blocks v) + card ({} :: nat set) < 30" using v(5) assms(3) by simp
  then obtain b t where t: "bmap_entry 1 e (k mod 128) v = Ret (b, f) t" "bread_post v p {} e b t"
    using bmap_entry_present [OF v(2) _ e(1) _ e(2,3)] by blast
  have tp: "bio_ok t p {b}" "b_blockno (bufs t ! b) = e" "bio_frame v t" "blk t = blk v" "dirty_blocks t = dirty_blocks v"
    using t(2) by (simp_all add: bread_post_def)
  have fr: "bio_frame s t" using bio_frame_trans [OF v(3) tp(3)] .
  have tlt: "two_level t ip k a e f"
    using assms(2) bio_frame_inodes [OF fr] bio_frame_size [OF fr] tp(4) v(4) by (simp add: two_level_def)
  have held: "b_blockno (bufs t ! c) \<noteq> a" if "c \<in> {b}" for c using that tp(2) e(4) by simp
  have "card (dirty_blocks t) + card {b} < 30" using tp(5) v(5) assms(3) by simp
  then obtain w where w: "bmap ip bn t = bnd (bmap_entry 1 e (k mod 128)) (\<lambda>(bp, addr). ret addr) w" "bio_ok w p {b}"
      "\<forall>c \<in> {b}. bufs w ! c = bufs t ! c"
    using bmap_two_level [OF tp(1) tlt held _ assms(4)] by blast
  obtain u where "bread 1 e w = Block (ChSleep (SLBuf b)) u"
    using bread_held_blocks [OF w(2) insertI1] w(3) tp(2) by auto
  then have "bmap ip bn t = Block (ChSleep (SLBuf b)) u" unfolding w(1) by (simp add: bmap_entry_def bnd_def)
  moreover have "bmap ip bn s = Ret f t" unfolding v(1) using t(1) by (simp add: bnd_def ret_def)
  ultimately show ?thesis using tp(1) by blast
qed

theorem bmap_doubly_indirect_deadlocks_witness:
  "\<exists>d t u c. bmap 0 139 (fs0 d [inode0\<lparr>i_type := 2, i_dev := 1, i_addrs := replicate 12 0 @ [200]\<rparr>] ()) = Ret 300 t \<and>
     bmap 0 139 t = Block c u"
proof -
  define d :: "nat \<Rightarrow> block" where "d = (\<lambda>n. if n = 200 then put32 zero_block 0 201 else put32 zero_block 0 300)"
  let ?s = "fs0 d [inode0\<lparr>i_type := 2, i_dev := 1, i_addrs := replicate 12 0 @ [200]\<rparr>] ()"
  have "bio_ok ?s 0 {}" by (rule fs0_ok) (simp add: d_def)
  moreover have "two_level ?s 0 0 200 201 300" by (simp add: two_level_def d_def nth_append)
  ultimately show ?thesis using bmap_doubly_indirect_deadlocks [of ?s 0 0 0 200 201 300 139] by fastforce
qed

subsection \<open>The block allocator\<close>

text \<open>A transaction with room for \<open>k\<close> more blocks.\<close>

definition in_trans :: "'a log_st_scheme \<Rightarrow> nat \<Rightarrow> bool" where
  "in_trans s k \<longleftrightarrow> log_ok s \<and> lh_n (lg s) + int k \<le> 29 \<and> lg_size (lg s) = 30 \<and> 1 \<le> lg_outstanding (lg s)"

text \<open>
  \<open>logged s p n d t\<close>: from \<open>s\<close> to \<open>t\<close> block \<open>n\<close> got the content \<open>d\<close> in the cache and entered the log;
  the disk did not change.
\<close>

definition logged :: "'a log_st_scheme \<Rightarrow> nat \<Rightarrow> u32 \<Rightarrow> block \<Rightarrow> 'a log_st_scheme \<Rightarrow> bool" where
  "logged s p n d t \<longleftrightarrow> bio_ok t p {} \<and> log_ok t \<and> lg t = log_add n (lg s) \<and> blk t = (blk s)(n := d) \<and>
     disk t = disk s \<and> disksize t = disksize s \<and> log_st.more t = log_st.more s"

lemma log_add_simps [simp]:
  "lg_start (log_add n l) = lg_start l" "lg_size (log_add n l) = lg_size l" "lg_dev (log_add n l) = lg_dev l"
  "lg_outstanding (log_add n l) = lg_outstanding l" "lg_committing (log_add n l) = lg_committing l"
  by (simp_all add: log_add_def)

lemma log_add_n: "lh_n (log_add n l) \<le> lh_n l + 1"
  by (simp add: log_add_def)

lemma logged_in_trans: "logged s p n d t \<Longrightarrow> in_trans s (Suc k) \<Longrightarrow> in_trans t k"
  using log_add_n [of n "lg s"] by (auto simp: logged_def in_trans_def)

lemma in_trans_less: "in_trans s k \<Longrightarrow> j \<le> k \<Longrightarrow> in_trans s j"
  by (simp add: in_trans_def)

lemma in_trans_room: "in_trans s k \<Longrightarrow> card (dirty_blocks s) + k < 30"
proof -
  assume a: "in_trans s k"
  then have wf: "log_wf s" and d: "dirty_blocks s = set (log_blocks (lg s))" and n: "lh_n (lg s) + int k \<le> 29"
    by (simp_all add: in_trans_def log_ok_def)
  have "0 \<le> lh_n (lg s)" using wf by (simp add: log_wf_def)
  then show ?thesis
    using d n log_wf_facts(9) [OF wf] card_length [of "log_blocks (lg s)"] by simp
qed

lemma in_trans_frame: "in_trans s k \<Longrightarrow> bio_frame s t \<Longrightarrow> dirty_blocks t = dirty_blocks s \<Longrightarrow> in_trans t k"
  using bio_frame_lg [of s t] log_wf_frame [of s t] by (simp add: in_trans_def log_ok_def)

lemma log_more_frame: "bio_frame s t \<Longrightarrow> log_st.more t = log_st.more s"
  by (cases s, cases t) (simp add: bio_frame_def bio_st.defs)

lemma log_after_read:
  assumes ok: "bio_ok s p {}" and tr: "in_trans s (Suc k)" and post: "bread_post s p {} n b u"
    and n: "n < disksize s" "\<not> in_log (lg_start (lg s)) (unat n)" and d: "f (blk s n) = d" "length d = 512"
  shows "\<exists>t. thn (set_data b f) (thn (log_write b) (brelse b)) u = Ret () t \<and> logged s p n d t"
proof -
  have p: "bio_ok u p {b}" "b < 30" "b_blockno (bufs u ! b) = n" "b_data (bufs u ! b) = blk s n"
      "disk u = disk s" "bio_frame s u" "blk u = blk s" "dirty_blocks u = dirty_blocks s"
    using post by (simp_all add: bread_post_def)
  have len: "length (bufs u) = 30" using bio_okD(2) [OF p(1)] .
  obtain v where v: "set_data b f u = Ret () v" "bio_ok v p {b}" "bio_frame u v" "disk v = disk u"
     "blk v = (blk u)(n := d)" "dirty_blocks v = dirty_blocks u" "bufs v = (bufs u)[b := (bufs u ! b)\<lparr>b_data := d\<rparr>]"
    using set_data_ok [OF p(1) insertI1, of f] p(3,4) d by auto
  have bv: "b_blockno (bufs v ! b) = n" using v(7) p(2,3) len by simp
  have fr: "bio_frame s v" using bio_frame_trans [OF p(6) v(3)] .
  have trv: "in_trans v (Suc k)" using in_trans_frame [OF tr fr] v(6) p(8) by simp
  obtain w where w: "log_write b v = Ret () w" "bio_ok w p {b}" "log_ok w" "lg w = log_add n (lg v)" "blk w = blk v"
     "disk w = disk v" "disksize w = disksize v" "log_st.more w = log_st.more v"
     "bufs w = (bufs v)[b := (bufs v ! b)\<lparr>b_dirty := True\<rparr>]"
    using log_write_ok [OF v(2) insertI1 _ bv] trv n bio_frame_lg [OF fr] bio_frame_size [OF fr]
    by (auto simp: in_trans_def)
  have "b_dirty (bufs w ! b)" using w(9) v(7) p(2) len by simp
  then obtain t where t: "brelse b w = Ret () t" "bio_ok t p ({b} - {b})" "bio_frame w t" "disk t = disk w"
      "blk t = blk w" "dirty_blocks t = dirty_blocks w"
    using brelse_clean [OF w(2) insertI1] by blast
  have "log_ok t" using w(3) log_wf_frame [OF t(3)] bio_frame_lg [OF t(3)] t(6) by (simp add: log_ok_def)
  then have "logged s p n d t"
    using t(2,4,5) w(4-8) v(4,5) p(5,7) bio_frame_lg [OF t(3)] bio_frame_lg [OF fr] bio_frame_size [OF t(3)]
      bio_frame_size [OF fr] log_more_frame [OF t(3)] log_more_frame [OF fr]
    by (simp add: logged_def)
  then show ?thesis using v(1) w(1) t(1) unfolding thn_eq_Ret by blast
qed

lemma bzero_ok:
  assumes ok: "bio_ok s p {}" and tr: "in_trans s (Suc k)"
    and n: "n < disksize s" "\<not> in_log (lg_start (lg s)) (unat n)"
  shows "\<exists>t. bzero 1 n s = Ret () t \<and> logged s p n zero_block t"
proof -
  have "\<exists>c < 30. c \<notin> {} \<and> \<not> b_dirty (bufs s ! c)"
    by (rule buffer_room [OF ok]) (use in_trans_room [OF tr] in simp)
  then obtain b u where u: "bread 1 n s = Ret b u" "bread_post s p {} n b u"
    using bread_ok [OF ok n(1)] by blast
  then show ?thesis
    using log_after_read [OF ok tr u(2) n, of "\<lambda>_. zero_block"] by (auto simp: bzero_def bnd_def)
qed

definition is_free :: "'a fs_st_scheme \<Rightarrow> u32 \<Rightarrow> bool" where
  "is_free s n \<longleftrightarrow> bit_free (blk s (BBLOCK n (sb s))) (unat n mod 4096)"

text \<open>The free map lies on the disk outside the log, and no block of the log or of the map is free.\<close>

definition map_ok :: "'a fs_st_scheme \<Rightarrow> bool" where
  "map_ok s \<longleftrightarrow> sb_size (sb s) \<le> disksize s \<and> (\<forall>n < sb_size (sb s). BBLOCK n (sb s) < disksize s \<and>
     \<not> in_log (lg_start (lg s)) (unat (BBLOCK n (sb s))) \<and>
     (is_free s n \<longrightarrow> \<not> in_log (lg_start (lg s)) (unat n) \<and> (\<forall>m < sb_size (sb s). BBLOCK m (sb s) \<noteq> n)))"

lemma block_of_bit:
  assumes "4096 dvd b" and "bi < 4096" and "b + bi < unat (m :: u32)"
  shows "unat (of_nat (b + bi) :: u32) = b + bi" and "unat (of_nat (b + bi) :: u32) mod 4096 = bi"
    and "BBLOCK (of_nat (b + bi)) x = BBLOCK (of_nat b) x" and "of_nat (b + bi) < m"
proof -
  obtain q where b: "b = 4096 * q" using assms(1) by auto
  have l: "b + bi < 4294967296" using assms(3) unat_u32_less [of m] by simp
  show u: "unat (of_nat (b + bi) :: u32) = b + bi" unfolding unat_of_nat using l by simp
  have u': "unat (of_nat b :: u32) = b" unfolding unat_of_nat using l by simp
  show "unat (of_nat (b + bi) :: u32) mod 4096 = bi" unfolding u using assms(2) b by simp
  have "(b + bi) div 4096 = b div 4096" unfolding b using assms(2) by simp
  then have "(of_nat (b + bi) :: u32) div 4096 = of_nat b div 4096"
    unfolding word_unat_eq_iff unat_div u u' by simp
  then show "BBLOCK (of_nat (b + bi)) x = BBLOCK (of_nat b) x" by (simp add: BBLOCK_def BPB_def)
  show "of_nat (b + bi) < m" unfolding word_less_nat_alt u using assms(3) .
qed

lemma bit_set_length [simp]: "length (bit_set bi d) = length d"
  by (simp add: bit_set_def)

definition allocated :: "'a fs_st_scheme \<Rightarrow> nat \<Rightarrow> u32 \<Rightarrow> 'a fs_st_scheme \<Rightarrow> bool" where
  "allocated s p n t \<longleftrightarrow> n < sb_size (sb s) \<and> is_free s n \<and> bio_ok t p {} \<and> in_trans t 0 \<and> disk t = disk s \<and>
     log_st.more t = log_st.more s \<and>
     blk t = (blk s)(BBLOCK n (sb s) := bit_set (unat n mod 4096) (blk s (BBLOCK n (sb s))), n := zero_block)"

lemma balloc_take:
  assumes ok: "bio_ok s p {}" and tr: "in_trans s 2" and mo: "map_ok s" and n: "n < sb_size (sb s)" "is_free s n"
    and post: "bread_post s p {} (BBLOCK n (sb s)) bp u"
  shows "\<exists>t. thn (set_data bp (bit_set (unat n mod 4096))) (thn (log_write bp) (thn (brelse bp) (thn (bzero 1 n) (ret n)))) u =
     Ret n t \<and> allocated s p n t"
proof -
  let ?m = "BBLOCK n (sb s)"
  have m: "?m < disksize s" "\<not> in_log (lg_start (lg s)) (unat ?m)" "n < disksize s"
      "\<not> in_log (lg_start (lg s)) (unat n)"
    using mo n unfolding map_ok_def by (auto intro: less_le_trans)
  have tr2: "in_trans s (Suc 1)" using tr by (simp add: numeral_2_eq_2)
  let ?d = "bit_set (unat n mod 4096) (blk s ?m)"
  have "length ?d = 512" using blk_length [OF ok] by simp
  then obtain v where v: "thn (set_data bp (bit_set (unat n mod 4096))) (thn (log_write bp) (brelse bp)) u = Ret () v"
      "logged s p ?m ?d v"
    using log_after_read [OF ok tr2 post m(1,2) refl] by blast
  have vp: "bio_ok v p {}" "in_trans v (Suc 0)" "disksize v = disksize s" "lg_start (lg v) = lg_start (lg s)"
    using v(2) logged_in_trans [OF v(2) tr2] by (simp_all add: logged_def)
  obtain t where t: "bzero 1 n v = Ret () t" "logged v p n zero_block t"
    using bzero_ok [OF vp(1,2)] m(3,4) vp(3,4) by auto
  have "allocated s p n t"
    using n v(2) t(2) logged_in_trans [OF t(2) vp(2)] by (simp add: allocated_def logged_def)
  then show ?thesis using v(1) t(1) unfolding thn_eq_Ret by (auto simp: ret_def)
qed

lemma allocated_frame:
  assumes "bio_frame s v" "blk v = blk s" "disk v = disk s" "allocated v p n t"
  shows "allocated s p n t"
proof -
  have "sb v = sb s" "log_st.more v = log_st.more s"
    using bio_frame_inodes [OF assms(1)] log_more_frame [OF assms(1)] by simp_all
  then show ?thesis using assms(2-4) by (simp add: allocated_def is_free_def)
qed

lemma balloc_from_ok:
  assumes "bio_ok s p {}" and "in_trans s 2" and "map_ok s"
    and "\<forall>b \<in> set bs. 4096 dvd b \<and> b < unat (sb_size (sb s))"
    and "\<exists>b \<in> set bs. \<exists>bi < 4096. b + bi < unat (sb_size (sb s)) \<and> is_free s (of_nat (b + bi))"
  shows "\<exists>n t. balloc_from 1 bs s = Ret n t \<and> allocated s p n t"
  using assms
proof (induction bs arbitrary: s)
  case Nil
  then show ?case by simp
next
  case (Cons b bs)
  note ok = Cons.prems(1) and tr = Cons.prems(2) and mo = Cons.prems(3)
  have b: "4096 dvd b" "b < unat (sb_size (sb s))" using Cons.prems(4) by simp_all
  let ?m = "BBLOCK (of_nat b) (sb s)"
  have "of_nat b < sb_size (sb s)" using block_of_bit(4) [OF b(1), of 0] b(2) by simp
  then have m: "?m < disksize s" using mo unfolding map_ok_def by blast
  have "\<exists>c < 30. c \<notin> {} \<and> \<not> b_dirty (bufs s ! c)"
    by (rule buffer_room [OF ok]) (use in_trans_room [OF tr] in simp)
  then obtain bp u where u: "bread 1 ?m s = Ret bp u" "bread_post s p {} ?m bp u"
    using bread_ok [OF ok m] by blast
  have du: "b_data (bufs u ! bp) = blk s ?m" using u(2) by (simp add: bread_post_def)
  have free: "bit_free (blk s ?m) bi \<longleftrightarrow> is_free s (of_nat (b + bi))" if "bi < 4096" "b + bi < unat (sb_size (sb s))" for bi
    unfolding is_free_def using block_of_bit(2,3) [OF b(1) that] by simp
  let ?f = "find (bit_free (blk s ?m)) [0..<min 4096 (unat (sb_size (sb s)) - b)]"
  show ?case
  proof (cases ?f)
    case (Some bi)
    then have bi: "bi < 4096" "b + bi < unat (sb_size (sb s))" "bit_free (blk s ?m) bi"
      using find_SomeD [OF Some] by auto
    note w = block_of_bit [OF b(1) bi(1,2)]
    have n: "is_free s (of_nat (b + bi))" using free [OF bi(1,2)] bi(3) by simp
    have "bread_post s p {} (BBLOCK (of_nat (b + bi)) (sb s)) bp u" using u(2) unfolding w(3) .
    from balloc_take [OF ok tr mo w(4) n this]
    show ?thesis
      using u(1) Some du w(2) by (auto simp: bnd_def get_data_def gets_def BPB_def)
  next
    case None
    obtain v where v: "brelse bp u = Ret () v" "bio_ok v p {}" "bio_frame s v" "disk v = disk s" "blk v = blk s"
        "dirty_blocks v = dirty_blocks s"
      using bread_brelse [OF ok _ u(2)] by blast
    have same: "sb v = sb s" "lg v = lg s" "disksize v = disksize s"
      using bio_frame_inodes [OF v(3)] bio_frame_lg [OF v(3)] bio_frame_size [OF v(3)] by simp_all
    have isf: "is_free v n = is_free s n" for n using v(5) same by (simp add: is_free_def)
    have "map_ok v" using mo by (simp add: map_ok_def same isf)
    moreover have "in_trans v 2" using in_trans_frame [OF tr v(3,6)] .
    moreover have "\<exists>c \<in> set bs. \<exists>bi < 4096. c + bi < unat (sb_size (sb s)) \<and> is_free s (of_nat (c + bi))"
    proof -
      have "\<not> is_free s (of_nat (b + bi))" if "bi < 4096" "b + bi < unat (sb_size (sb s))" for bi
        using None free [OF that] that by (auto simp: find_None_iff)
      then show ?thesis using Cons.prems(5) by auto
    qed
    ultimately obtain n t where "balloc_from 1 bs v = Ret n t" "allocated v p n t"
      using Cons.IH [OF v(2)] Cons.prems(4) by (auto simp: same isf)
    then show ?thesis
      using u(1) None du v(1) allocated_frame [OF v(3,5,4)]
      by (auto simp: bnd_def get_data_def gets_def BPB_def thn_def)
  qed
qed

lemma bit_free_bit: "bit_free e k \<longleftrightarrow> \<not> bit (e ! (k div 8)) (k mod 8)"
proof -
  have "(x :: u8) AND push_bit j 1 = 0 \<longleftrightarrow> \<not> bit x j" if "j < 8" for x j
  proof
    assume "x AND push_bit j 1 = 0"
    then have "\<not> bit (x AND push_bit j 1) j" by simp
    then show "\<not> bit x j" using that by (simp add: bit_simps)
  next
    assume "\<not> bit x j"
    then show "x AND push_bit j 1 = 0" by (intro bit_word_eqI) (auto simp: bit_simps)
  qed
  then show ?thesis by (simp add: bit_free_def bit_mask_def)
qed

lemma bit_set_free:
  assumes "length d = 512" and "bi < 4096" and "bj < 4096"
  shows "bit_free (bit_set bi d) bj \<longleftrightarrow> bj \<noteq> bi \<and> bit_free d bj"
proof -
  have same: "bj = bi \<longleftrightarrow> bj div 8 = bi div 8 \<and> bj mod 8 = bi mod 8" by (metis div_mult_mod_eq)
  have "bi div 8 < length d" using assms by simp
  then show ?thesis
    unfolding bit_free_bit bit_set_def bit_mask_def same
    by (auto simp: nth_list_update bit_simps)
qed

lemma map_blocks:
  "b \<in> set (map (\<lambda>k. k * 4096) [0..<(n + 4096 - 1) div 4096]) \<longleftrightarrow> 4096 dvd b \<and> b < (n :: nat)"
proof
  assume "b \<in> set (map (\<lambda>k. k * 4096) [0..<(n + 4096 - 1) div 4096])"
  then obtain k where k: "b = k * 4096" "k < (n + 4096 - 1) div 4096" by auto
  have "Suc k * 4096 \<le> (n + 4096 - 1) div 4096 * 4096" using k(2) by (intro mult_le_mono1) simp
  also have "\<dots> \<le> n + 4096 - 1" by (rule div_times_less_eq_dividend)
  finally show "4096 dvd b \<and> b < n" using k(1) by simp
next
  assume "4096 dvd b \<and> b < n"
  then obtain q where q: "b = q * 4096" "q * 4096 < n" by (auto simp: dvd_def mult.commute)
  have "(q * 4096 + 4096) div 4096 \<le> (n + 4096 - 1) div 4096" using q(2) by (intro div_le_mono) simp
  then show "b \<in> set (map (\<lambda>k. k * 4096) [0..<(n + 4096 - 1) div 4096])" using q(1) by auto
qed

lemma BBLOCK_inj:
  assumes "BBLOCK k x = BBLOCK n x" and "unat k mod 4096 = unat n mod 4096"
  shows "k = n"
proof -
  have "k div 4096 = n div 4096" using assms(1) by (simp add: BBLOCK_def BPB_def)
  from arg_cong [OF this, of unat] have "unat k div 4096 = unat n div 4096" by (simp add: unat_div)
  then show ?thesis using assms(2) by (metis div_mult_mod_eq word_unat_eq_iff)
qed

lemma balloc_ok:
  assumes "bio_ok s p {}" and "in_trans s 2" and "map_ok s" and "m < sb_size (sb s)" and "is_free s m"
  shows "\<exists>n t. balloc 1 s = Ret n t \<and> allocated s p n t"
proof -
  let ?S = "unat (sb_size (sb s))"
  let ?b = "unat m div 4096 * 4096"
  have m: "unat m < ?S" using assms(4) by (simp add: word_less_nat_alt)
  have "?b + unat m mod 4096 = unat m" by simp
  then have "?b \<le> unat m" by linarith
  then have b: "4096 dvd ?b \<and> ?b < ?S" using m by simp
  define bs where "bs = map (\<lambda>k. k * 4096) [0..<(?S + 4096 - 1) div 4096]"
  have set: "x \<in> set bs \<longleftrightarrow> 4096 dvd x \<and> x < ?S" for x unfolding bs_def by (rule map_blocks)
  have "unat m mod 4096 < 4096" "?b + unat m mod 4096 < ?S" "is_free s (of_nat (?b + unat m mod 4096))"
    using m assms(5) by simp_all
  then have "\<exists>b \<in> set bs. \<exists>bi < 4096. b + bi < ?S \<and> is_free s (of_nat (b + bi))"
    using b set by blast
  then have "\<exists>n t. balloc_from 1 bs s = Ret n t \<and> allocated s p n t"
    using balloc_from_ok [OF assms(1-3)] set by blast
  then show ?thesis by (simp only: balloc_def bnd_gets BPB_def bs_def) simp
qed

lemma allocated_free:
  assumes al: "allocated s p n t" and mo: "map_ok s" and ok: "bio_ok s p {}" and k: "k < sb_size (sb s)"
  shows "is_free t k \<longleftrightarrow> k \<noteq> n \<and> is_free s k"
proof -
  have n: "n < sb_size (sb s)" "is_free s n" "log_st.more t = log_st.more s"
      "blk t = (blk s)(BBLOCK n (sb s) := bit_set (unat n mod 4096) (blk s (BBLOCK n (sb s))), n := zero_block)"
    using al by (simp_all add: allocated_def)
  have "sb t = sb s" using n(3) by (cases s, cases t) (simp add: log_st.defs)
  moreover have kn: "BBLOCK k (sb s) \<noteq> n" using mo n(1,2) k unfolding map_ok_def by blast
  ultimately have t: "is_free t k \<longleftrightarrow> bit_free (if BBLOCK k (sb s) = BBLOCK n (sb s)
      then bit_set (unat n mod 4096) (blk s (BBLOCK n (sb s))) else blk s (BBLOCK k (sb s))) (unat k mod 4096)"
    by (simp add: is_free_def n(4))
  show ?thesis
  proof (cases "BBLOCK k (sb s) = BBLOCK n (sb s)")
    case True
    then have "unat k mod 4096 = unat n mod 4096 \<longleftrightarrow> k = n" using BBLOCK_inj [OF True] by auto
    then show ?thesis
      using bit_set_free [of "blk s (BBLOCK n (sb s))" "unat n mod 4096" "unat k mod 4096"] blk_length [OF ok]
      by (simp add: t True) (simp add: is_free_def True)
  next
    case False
    then show ?thesis unfolding t by (auto simp: is_free_def)
  qed
qed

text \<open>
  C4. \<open>balloc\<close> finds a free block whenever the free map has one below the size of the file system. The
  block it returns was free; afterwards it is not, every other block is as free as before, the
  block is zero, and nothing else in the file system has changed.
\<close>

theorem balloc_takes_free_block:
  assumes "bio_ok s p {}" and "in_trans s 2" and "map_ok s" and "m < sb_size (sb s)" and "is_free s m"
  shows "\<exists>n t. balloc 1 s = Ret n t \<and> n < sb_size (sb s) \<and> is_free s n \<and> blk t n = zero_block \<and>
     (\<forall>k < sb_size (sb s). is_free t k \<longleftrightarrow> k \<noteq> n \<and> is_free s k) \<and>
     (\<forall>k. k \<noteq> n \<and> k \<noteq> BBLOCK n (sb s) \<longrightarrow> blk t k = blk s k) \<and> disk t = disk s \<and> bio_ok t p {} \<and> in_trans t 0"
proof -
  obtain n t where t: "balloc 1 s = Ret n t" "allocated s p n t" using balloc_ok [OF assms] by blast
  then show ?thesis
    using allocated_free [OF t(2) assms(3,1)] by (auto simp: allocated_def)
qed

text \<open>A file system in which block 999 alone is free.\<close>

definition disk999 :: "nat \<Rightarrow> block" where
  "disk999 n = (if n = 58 then (replicate 512 255)[124 := 127] else zero_block)"

lemma disk999_free:
  assumes "n < 1000"
  shows "is_free (fs0 disk999 [] x) n \<longleftrightarrow> n = 999"
proof -
  have n: "unat n < 1000" using assms by (simp add: word_less_nat_alt)
  have "n div 4096 = 0" using n by (simp add: word_unat_eq_iff unat_div)
  then have "is_free (fs0 disk999 [] x) n \<longleftrightarrow> \<not> bit (disk999 58 ! (unat n div 8)) (unat n mod 8)"
    using n by (simp add: is_free_def BBLOCK_def BPB_def bit_free_bit)
  also have "\<dots> \<longleftrightarrow> unat n div 8 = 124 \<and> unat n mod 8 = 7"
  proof -
    have u8: "(255 :: u8) = mask 8" "(127 :: u8) = mask 7" by (simp_all add: mask_eq_exp_minus_1)
    have "disk999 58 ! (unat n div 8) = (if unat n div 8 = 124 then 127 else 255)"
      using n by (simp add: disk999_def nth_list_update)
    moreover have "bit (127 :: u8) (unat n mod 8) \<longleftrightarrow> unat n mod 8 < 7" "bit (255 :: u8) (unat n mod 8)"
      unfolding u8 by (auto simp: bit_mask_iff)
    moreover have "unat n mod 8 < 7 \<or> unat n mod 8 = 7" by auto
    ultimately show ?thesis by auto
  qed
  also have "\<dots> \<longleftrightarrow> unat n = 999" by presburger
  finally show ?thesis by (simp add: word_unat_eq_iff)
qed

theorem balloc_takes_free_block_witness:
  "\<exists>t. balloc 1 (fs0 disk999 [] ()) = Ret 999 t \<and> blk t 999 = zero_block"
proof -
  let ?s = "fs0 disk999 [] ()"
  have z: "n div 4096 = 0" if "n < 1000" for n :: u32
    using that by (simp add: word_unat_eq_iff unat_div word_less_nat_alt)
  then have bb: "BBLOCK n (sb ?s) = 58" if "n < 1000" for n using that by (simp add: BBLOCK_def BPB_def)
  have ok: "bio_ok ?s 0 {}" by (rule fs0_ok) (simp add: disk999_def)
  have "map_ok ?s"
    unfolding map_ok_def
  proof (intro conjI allI impI)
    fix n :: u32 assume n: "n < sb_size (sb ?s)"
    then have b: "BBLOCK n (sb ?s) = 58" using bb by simp
    show "BBLOCK n (sb ?s) < disksize ?s" "\<not> in_log (lg_start (lg ?s)) (unat (BBLOCK n (sb ?s)))"
      unfolding b by (simp_all add: in_log_def)
    assume "is_free ?s n"
    then have n9: "n = 999" using disk999_free [of n "()"] n by simp
    show "\<not> in_log (lg_start (lg ?s)) (unat n)" by (simp add: n9 in_log_def)
    show "BBLOCK m (sb ?s) \<noteq> n" if "m < sb_size (sb ?s)" for m using bb [of m] that n9 by simp
  qed simp
  moreover have "in_trans ?s 2" by (simp add: in_trans_def)
  ultimately obtain n t where "balloc 1 ?s = Ret n t" "n < 1000" "is_free ?s n" "blk t n = zero_block"
    using balloc_takes_free_block [of ?s 0 999] ok disk999_free [of 999 "()"] by auto
  then show ?thesis using disk999_free [of n "()"] by auto
qed

end
