(* ===== verification/Ring.thy ===== *)
theory Ring
  imports Xv6_Prelude
begin

section \<open>Ring buffers with free-running indices\<close>

text \<open>
  A pipe and the console keep bytes in a circular array with indices that are never reduced: a
  \<open>uint\<close> counts all the bytes ever put in or taken out, is taken modulo the size of the array at each
  access, and wraps at 32 bits. \<open>ring_list\<close> is the sequence of bytes between two indices. The locale
  \<open>ring\<close> collects what holds when the size divides the range of the indices, so that the wrap of an
  index does not disturb the positions.
\<close>

definition ring_ix :: "nat \<Rightarrow> u32 \<Rightarrow> nat" where
  "ring_ix N i = unat i mod N"

definition ring_get :: "nat \<Rightarrow> 'a list \<Rightarrow> u32 \<Rightarrow> 'a" where
  "ring_get N xs i = xs ! ring_ix N i"

definition ring_put :: "nat \<Rightarrow> 'a list \<Rightarrow> u32 \<Rightarrow> 'a \<Rightarrow> 'a list" where
  "ring_put N xs i c = xs[ring_ix N i := c]"

definition ring_list :: "nat \<Rightarrow> 'a list \<Rightarrow> u32 \<Rightarrow> u32 \<Rightarrow> 'a list" where
  "ring_list N xs r w = map (\<lambda>k. ring_get N xs (r + of_nat k)) [0..<unat (w - r)]"

lemma length_ring_put [simp]: "length (ring_put N xs i c) = length xs"
  by (simp add: ring_put_def)

lemma length_ring_list [simp]: "length (ring_list N xs r w) = unat (w - r)"
  by (simp add: ring_list_def)

lemma ring_list_empty [simp]: "ring_list N xs r r = []"
  by (simp add: ring_list_def)

lemma ring_list_eq_Nil [simp]: "ring_list N xs r w = [] \<longleftrightarrow> w = r"
  by (simp add: ring_list_def unat_eq_0 right_minus_eq)

lemma unat_diff_Suc:
  assumes "unat (w - r :: u32) < N" and "N < 4294967296"
  shows "unat (w + 1 - r) = Suc (unat (w - r))"
proof -
  have "unat (w - r + 1) = Suc (unat (w - r))"
    using assms by (simp add: unat_word_ariths)
  then show ?thesis by (simp add: algebra_simps)
qed

lemma unat_diff_pred:
  assumes "w \<noteq> (r :: u32)"
  shows "unat (w - r) = Suc (unat (w - (r + 1)))"
proof -
  have "w - r \<noteq> 0" using assms by simp
  then have "unat (w - r - 1) = unat (w - r) - 1" and "unat (w - r) \<noteq> 0"
    by (simp_all add: unat_minus_one unat_eq_0)
  then show ?thesis by (simp add: algebra_simps)
qed

lemma ring_list_get:
  assumes "w \<noteq> r"
  shows "ring_list N xs r w = ring_get N xs r # ring_list N xs (r + 1) w"
  unfolding ring_list_def unat_diff_pred [OF assms]
  by (simp add: upt_conv_Cons map_Suc_upt [symmetric] algebra_simps del: upt_Suc)

lemma ring_list_append:
  assumes "unat (w - r) + unat (e - w) = unat (e - r)"
  shows "ring_list N xs r e = ring_list N xs r w @ ring_list N xs w e"
proof -
  let ?a = "unat (w - r)"
  have "[0..<unat (e - r)] = [0..<?a] @ map (\<lambda>k. ?a + k) [0..<unat (e - w)]"
    unfolding assms [symmetric] upt_add_eq_append [OF le0] using map_add_upt [of ?a "unat (e - w)"]
    by (simp add: add.commute)
  moreover have "r + of_nat (?a + k) = w + of_nat k" for k by simp
  ultimately show ?thesis by (simp add: ring_list_def comp_def)
qed

lemma ring_list_last:
  assumes "e \<noteq> w"
  shows "ring_list N xs w e = ring_list N xs w (e - 1) @ [ring_get N xs (e - 1)]"
proof -
  have "unat (e - w) = Suc (unat (e - 1 - w))"
    using unat_diff_pred [OF assms] by (simp add: algebra_simps)
  moreover have "w + of_nat (unat (e - 1 - w)) = e - 1" by simp
  ultimately show ?thesis by (simp add: ring_list_def)
qed

locale ring =
  fixes N :: nat
  assumes pos: "0 < N"
    and small: "N < 4294967296"
    and divides: "N dvd 4294967296"
begin

lemma ix_less: "ring_ix N i < N"
  using pos by (simp add: ring_ix_def)

lemma ix_add: "ring_ix N (r + of_nat k) = (ring_ix N r + k) mod N"
proof -
  have "unat (r + of_nat k) mod N = (unat r + k) mod 4294967296 mod N"
    by (simp add: unat_word_ariths unat_of_nat mod_add_right_eq)
  also have "\<dots> = (unat r + k) mod N"
    using divides by (rule mod_mod_cancel)
  finally show ?thesis by (simp add: ring_ix_def mod_add_left_eq)
qed

lemma ix_inj_le:
  assumes "k \<le> j" and "j < N" and "ring_ix N (r + of_nat k) = ring_ix N (r + of_nat j)"
  shows "k = j"
proof -
  have "(ring_ix N r + j) mod N = (ring_ix N r + k) mod N" using assms by (simp add: ix_add)
  then have "N dvd j - k" using assms mod_eq_dvd_iff_nat [of "ring_ix N r + k" "ring_ix N r + j" N] by simp
  with assms show ?thesis by (cases "j - k") (auto dest: dvd_imp_le)
qed

lemma ix_inj:
  assumes "k < N" and "j < N" and "ring_ix N (r + of_nat k) = ring_ix N (r + of_nat j)"
  shows "k = j"
  using ix_inj_le [of k j r] ix_inj_le [of j k r] assms by (cases "k \<le> j") auto

text \<open>A byte put at the upper index of a ring that is not full becomes the last of its sequence.\<close>

lemma ring_list_put:
  assumes "length xs = N" and "unat (w - r) < N"
  shows "ring_list N (ring_put N xs w c) r (w + 1) = ring_list N xs r w @ [c]"
proof -
  have w: "r + of_nat (unat (w - r)) = w" by simp
  have other: "ring_get N (ring_put N xs w c) (r + of_nat k) = ring_get N xs (r + of_nat k)"
    if "k < unat (w - r)" for k
  proof -
    have "ring_ix N (r + of_nat k) \<noteq> ring_ix N w"
      using ix_inj [of k "unat (w - r)" r] that assms w by auto
    then show ?thesis by (simp add: ring_get_def ring_put_def)
  qed
  have "ring_get N (ring_put N xs w c) w = c"
    using assms ix_less [of w] by (simp add: ring_get_def ring_put_def)
  moreover have "unat (w + 1 - r) = Suc (unat (w - r))"
    by (rule unat_diff_Suc [OF assms(2) small])
  ultimately show ?thesis
    using other by (simp add: ring_list_def w)
qed

lemma put_length: "unat (w - r :: u32) < N \<Longrightarrow> unat (w + 1 - r) \<le> N"
  using small by (simp add: unat_diff_Suc [of w r N])

lemma full_iff: "(w :: u32) = r + of_nat N \<longleftrightarrow> unat (w - r) = N"
proof
  assume "w = r + of_nat N"
  then show "unat (w - r) = N" using small by (simp add: unat_of_nat)
next
  assume "unat (w - r) = N"
  then have "of_nat N = w - r" by (metis of_nat_unat ucast_id)
  then show "w = r + of_nat N" by simp
qed

end

end
