(* ===== verification/Pipe.thy ===== *)
theory Pipe
  imports Fs Ring
begin

section \<open>Pipes (pipe.c)\<close>

text \<open>
  Extends the state with the pipes. A pipe lives in a page that \<open>pipealloc\<close> takes from the page
  allocator and is named by the address of that page; its fields are kept as a record beside the
  memory instead of as bytes of the page. \<open>pipewrite\<close> takes the bytes from \<open>addr\<close> on as a function
  of the offset, and \<open>piperead\<close> returns its result together with the bytes it stores at \<open>addr\<close>. A
  call that goes to sleep ends with \<open>Block\<close>; the definitions with \<open>resume\<close> continue it.

  \<open>pipealloc\<close>, which also needs the file table, is in the theory of files.
\<close>

subsection \<open>State and operations\<close>

abbreviation (input) PIPESIZE :: nat where "PIPESIZE \<equiv> 512"

record pipe =
  pi_data :: "u8 list"
  pi_nread :: u32
  pi_nwrite :: u32
  pi_readopen :: bool
  pi_writeopen :: bool

record pipe_st = fs_st +
  pipes :: "u32 \<Rightarrow> pipe"

definition get_pipe :: "u32 \<Rightarrow> (pipe, 'a pipe_st_scheme) kop" where
  "get_pipe p = gets (\<lambda>s. pipes s p)"

definition set_pipe :: "u32 \<Rightarrow> (pipe \<Rightarrow> pipe) \<Rightarrow> (unit, 'a pipe_st_scheme) kop" where
  "set_pipe p f = upd (\<lambda>s. s\<lparr>pipes := (pipes s)(p := f (pipes s p))\<rparr>)"

definition pipeclose :: "u32 \<Rightarrow> bool \<Rightarrow> (unit, 'a pipe_st_scheme) kop" where
  "pipeclose p writable =
     thn (acquire (LPipe p))
     (thn (if writable
       then thn (set_pipe p (\<lambda>x. x\<lparr>pi_writeopen := False\<rparr>)) (wakeup (ChPipeRead p))
       else thn (set_pipe p (\<lambda>x. x\<lparr>pi_readopen := False\<rparr>)) (wakeup (ChPipeWrite p)))
     (bnd (get_pipe p) (\<lambda>x.
     if \<not> pi_readopen x \<and> \<not> pi_writeopen x
     then thn (release (LPipe p)) (kfree p)
     else release (LPipe p))))"

text \<open>\<open>p->data[p->nwrite++ % PIPESIZE] = c\<close>\<close>

definition pipe_put :: "u8 \<Rightarrow> pipe \<Rightarrow> pipe" where
  "pipe_put c x = x\<lparr>pi_data := ring_put PIPESIZE (pi_data x) (pi_nwrite x) c, pi_nwrite := pi_nwrite x + 1\<rparr>"

definition my_killed :: "(bool, 'a proc_st_scheme) kop" where
  "my_killed = bnd curproc (\<lambda>c. bnd (get_proc c) (\<lambda>q. ret (p_killed q)))"

function pipewrite_from :: "u32 \<Rightarrow> (nat \<Rightarrow> u8) \<Rightarrow> int \<Rightarrow> nat \<Rightarrow> (int, 'a pipe_st_scheme) kop" where
  "pipewrite_from p addr n i =
     (if int i < n then
        bnd (get_pipe p) (\<lambda>x.
        if pi_nwrite x = pi_nread x + of_nat PIPESIZE then
          bnd (if \<not> pi_readopen x then ret True else my_killed) (\<lambda>stop.
          if stop then thn (release (LPipe p)) (ret (-1))
          else thn (wakeup (ChPipeRead p)) (sleep (ChPipeWrite p) (LPipe p)))
        else thn (set_pipe p (pipe_put (addr i))) (pipewrite_from p addr n (Suc i)))
      else thn (wakeup (ChPipeRead p)) (thn (release (LPipe p)) (ret n)))"
  by auto
termination
  by (relation "measure (\<lambda>(p, addr, n, i). nat (n - int i))") auto

declare pipewrite_from.simps [simp del]

definition pipewrite :: "u32 \<Rightarrow> (nat \<Rightarrow> u8) \<Rightarrow> int \<Rightarrow> (int, 'a pipe_st_scheme) kop" where
  "pipewrite p addr n = thn (acquire (LPipe p)) (pipewrite_from p addr n 0)"

definition pipewrite_resume :: "bool \<Rightarrow> nat \<Rightarrow> u32 \<Rightarrow> (nat \<Rightarrow> u8) \<Rightarrow> int \<Rightarrow> nat \<Rightarrow> (int, 'a pipe_st_scheme) kop" where
  "pipewrite_resume b me_p p addr n i =
     thn (sleep_resume b me_p (LPipe p)) (pipewrite_from p addr n i)"

fun piperead_copy :: "u32 \<Rightarrow> nat \<Rightarrow> (u8 list, 'a pipe_st_scheme) kop" where
  "piperead_copy p 0 = ret []"
| "piperead_copy p (Suc k) =
     bnd (get_pipe p) (\<lambda>x.
     if pi_nread x = pi_nwrite x then ret []
     else thn (set_pipe p (\<lambda>x. x\<lparr>pi_nread := pi_nread x + 1\<rparr>))
       (bnd (piperead_copy p k) (\<lambda>bs.
       ret (ring_get PIPESIZE (pi_data x) (pi_nread x) # bs))))"

definition piperead_loop :: "u32 \<Rightarrow> int \<Rightarrow> (int \<times> u8 list, 'a pipe_st_scheme) kop" where
  "piperead_loop p n =
     bnd (get_pipe p) (\<lambda>x.
     if pi_nread x = pi_nwrite x \<and> pi_writeopen x then
       bnd my_killed (\<lambda>stop.
       if stop then thn (release (LPipe p)) (ret (-1, []))
       else sleep (ChPipeRead p) (LPipe p))
     else
       bnd (piperead_copy p (nat n)) (\<lambda>bs.
       thn (wakeup (ChPipeWrite p))
       (thn (release (LPipe p))
       (ret (int (length bs), bs)))))"

definition piperead :: "u32 \<Rightarrow> int \<Rightarrow> (int \<times> u8 list, 'a pipe_st_scheme) kop" where
  "piperead p n = thn (acquire (LPipe p)) (piperead_loop p n)"

definition piperead_resume :: "bool \<Rightarrow> nat \<Rightarrow> u32 \<Rightarrow> int \<Rightarrow> (int \<times> u8 list, 'a pipe_st_scheme) kop" where
  "piperead_resume b me_p p n = thn (sleep_resume b me_p (LPipe p)) (piperead_loop p n)"

subsection \<open>The layers below\<close>

lemma pipe_over_mach [simp]:
  "pipes (lock_on l s) = pipes s" "pipes (settle s) = pipes s" "pipes (cli_on s) = pipes s"
  by (simp_all add: mach_on_defs)

lemma pipe_me [simp]:
  "me (s\<lparr>pipes := x0\<rparr>) = me s"
  by (simp_all add: me_def cpu_ix_def lapicid_def)

lemma pipe_mach [simp]:
  "mach_ok (s\<lparr>pipes := x0\<rparr>) = mach_ok s" "lock_free l (s\<lparr>pipes := x0\<rparr>) = lock_free l s"
  by (simp_all add: mach_ok_def lock_free_def cpu_ix_def lapicid_def readeflags_IF_def)

lemma pipe_upd_on [simp]:
  "(lock_on l s)\<lparr>pipes := x0\<rparr> = lock_on l (s\<lparr>pipes := x0\<rparr>)"
  "(settle s)\<lparr>pipes := x0\<rparr> = settle (s\<lparr>pipes := x0\<rparr>)"
  by (simp_all add: lock_on_def settle_def cli_on_def set_cpu_def cli_def readeflags_IF_def cong: if_cong)

lemma quiet_pipes [simp]: "quiet (s\<lparr>pipes := x\<rparr>) p = quiet s p"
  by (simp add: quiet_def)

subsection \<open>A pipe as a bounded queue\<close>

interpretation pipe_ring: ring PIPESIZE
  by unfold_locales simp_all

definition pipe_ok :: "pipe \<Rightarrow> bool" where
  "pipe_ok x \<longleftrightarrow> length (pi_data x) = PIPESIZE \<and> unat (pi_nwrite x - pi_nread x) \<le> PIPESIZE"

definition pipe_q :: "pipe \<Rightarrow> u8 list" where
  "pipe_q x = ring_list PIPESIZE (pi_data x) (pi_nread x) (pi_nwrite x)"

lemma pipe_q_length: "pipe_ok x \<Longrightarrow> length (pipe_q x) \<le> PIPESIZE"
  by (simp add: pipe_ok_def pipe_q_def)

lemma pipe_full_iff: "pi_nwrite x = pi_nread x + 512 \<longleftrightarrow> length (pipe_q x) = PIPESIZE"
  using pipe_ring.full_iff [of "pi_nwrite x" "pi_nread x"] by (simp add: pipe_q_def)

lemma pipe_empty_iff: "pi_nread x = pi_nwrite x \<longleftrightarrow> pipe_q x = []"
  by (auto simp: pipe_q_def)

lemma pipe_put:
  assumes "pipe_ok x" and "length (pipe_q x) \<noteq> PIPESIZE"
  shows "pipe_ok (pipe_put c x)" and "pipe_q (pipe_put c x) = pipe_q x @ [c]"
proof -
  have room: "unat (pi_nwrite x - pi_nread x) < 512"
    using assms by (simp add: pipe_ok_def pipe_q_def)
  show "pipe_ok (pipe_put c x)"
    using assms pipe_ring.put_length [OF room] by (simp add: pipe_ok_def pipe_put_def)
  show "pipe_q (pipe_put c x) = pipe_q x @ [c]"
    using assms pipe_ring.ring_list_put [OF _ room, of "pi_data x" c] by (simp add: pipe_ok_def pipe_q_def pipe_put_def)
qed

lemma pipe_get:
  assumes "pipe_ok x" and "pipe_q x \<noteq> []"
  shows "pipe_ok (x\<lparr>pi_nread := pi_nread x + 1\<rparr>)"
    and "pipe_q x = ring_get PIPESIZE (pi_data x) (pi_nread x) # pipe_q (x\<lparr>pi_nread := pi_nread x + 1\<rparr>)"
proof -
  have ne: "pi_nwrite x \<noteq> pi_nread x" using assms(2) by (simp add: pipe_q_def)
  show "pipe_ok (x\<lparr>pi_nread := pi_nread x + 1\<rparr>)"
    using assms(1) unat_diff_pred [OF ne] by (simp add: pipe_ok_def)
  show "pipe_q x = ring_get PIPESIZE (pi_data x) (pi_nread x) # pipe_q (x\<lparr>pi_nread := pi_nread x + 1\<rparr>)"
    using ring_list_get [OF ne] by (simp add: pipe_q_def)
qed

lemma pipe_puts:
  assumes "pipe_ok x" and "length (pipe_q x) + length bs \<le> PIPESIZE"
  shows "pipe_ok (fold pipe_put bs x) \<and> pipe_q (fold pipe_put bs x) = pipe_q x @ bs"
  using assms
proof (induction bs arbitrary: x)
  case (Cons b bs)
  then show ?case using pipe_put [of x b] by simp
qed simp

lemma pipe_puts_ends [simp]:
  "pi_readopen (fold pipe_put bs x) = pi_readopen x" "pi_writeopen (fold pipe_put bs x) = pi_writeopen x"
  by (induction bs arbitrary: x) (simp_all add: pipe_put_def)

lemma pipes_again:
  "s\<lparr>pipes := (pipes s)(p := x)\<rparr>\<lparr>pipes := (pipes (s\<lparr>pipes := (pipes s)(p := x)\<rparr>))(p := y)\<rparr> =
     s\<lparr>pipes := (pipes s)(p := y)\<rparr>"
  by (simp add: fun_upd_def cong: if_cong)

text \<open>As long as there is room, the loop of \<open>pipewrite\<close> puts its bytes one after the other.\<close>

lemma pipewrite_run:
  assumes "pipe_ok (pipes s p)" and "length (pipe_q (pipes s p)) + k \<le> PIPESIZE" and "int (i + k) \<le> n"
  shows "pipewrite_from p addr n i (lock_on l s) = pipewrite_from p addr n (i + k)
     (lock_on l (s\<lparr>pipes := (pipes s)(p := fold pipe_put (map addr [i..<i + k]) (pipes s p))\<rparr>))"
  using assms
proof (induction k arbitrary: i s)
  case 0
  then show ?case by simp
next
  case (Suc k)
  let ?x = "pipe_put (addr i) (pipes s p)"
  let ?s = "s\<lparr>pipes := (pipes s)(p := ?x)\<rparr>"
  have "length (pipe_q (pipes s p)) \<noteq> 512" using Suc.prems by simp
  then have "pi_nwrite (pipes s p) \<noteq> pi_nread (pipes s p) + 512" by (simp add: pipe_full_iff)
  then have "pipewrite_from p addr n i (lock_on l s) = pipewrite_from p addr n (Suc i) (lock_on l ?s)"
    using Suc.prems by (subst pipewrite_from.simps) (simp add: kop get_pipe_def set_pipe_def)
  also have "\<dots> = pipewrite_from p addr n (Suc i + k)
     (lock_on l (?s\<lparr>pipes := (pipes ?s)(p := fold pipe_put (map addr [Suc i..<Suc i + k]) (pipes ?s p))\<rparr>))"
    by (rule Suc.IH) (use Suc.prems pipe_put [of "pipes s p" "addr i"] in simp_all)
  finally have "pipewrite_from p addr n i (lock_on l s) = pipewrite_from p addr n (Suc i + k)
     (lock_on l (s\<lparr>pipes := (pipes s)(p := fold pipe_put (map addr [Suc i..<Suc i + k]) (pipes ?s p))\<rparr>))"
    unfolding pipes_again .
  moreover have "fold pipe_put (map addr [i..<Suc (i + k)]) (pipes s p) =
      fold pipe_put (map addr [Suc i..<Suc (i + k)]) (pipes ?s p)"
    by (simp add: upt_conv_Cons del: upt_Suc)
  ultimately show ?case by (simp only: add_Suc_right add_Suc)
qed

lemma my_killed_ok:
  assumes "quiet s c"
  shows "my_killed (lock_on l s) = Ret (p_killed (procs s ! c)) (lock_on l s)"
  using quietD [OF assms] by (simp add: my_killed_def kop curproc_ok mach_ok_lock_on get_proc_def)

lemma pipewrite_done:
  assumes "quiet s c" and "n \<le> int i"
  shows "pipewrite_from p addr n i (lock_on (LPipe p) s) =
     Ret n (settle (s\<lparr>procs := woken (ChPipeRead p) (procs s)\<rparr>))"
  using quietD [OF assms(1)] assms(2)
  by (subst pipewrite_from.simps) (simp add: kop wakeup_ok mach_ok_lock_on release_on)

lemma pipewrite_stops:
  assumes "quiet s c" and "int i < n" and "length (pipe_q (pipes s p)) = PIPESIZE"
    and "\<not> pi_readopen (pipes s p) \<or> p_killed (procs s ! c)"
  shows "pipewrite_from p addr n i (lock_on (LPipe p) s) = Ret (-1) (settle s)"
  using quietD [OF assms(1)] assms(2,4) my_killed_ok [OF assms(1)] assms(3) [folded pipe_full_iff]
  by (subst pipewrite_from.simps) (simp add: kop get_pipe_def release_on)

lemma pipewrite_sleeps:
  assumes "quiet s c" and "int i < n" and "length (pipe_q (pipes s p)) = PIPESIZE"
    and "pi_readopen (pipes s p)" and "\<not> p_killed (procs s ! c)"
  shows "pipewrite_from p addr n i (lock_on (LPipe p) s) = Block (ChPipeWrite p) (lock_on LPtable
     (s\<lparr>procs := list_upd (woken (ChPipeRead p) (procs s)) c
        (\<lambda>q. q\<lparr>p_chan := Some (ChPipeWrite p), p_state := SLEEPING\<rparr>)\<rparr>))"
proof -
  have "quiet (s\<lparr>procs := woken (ChPipeRead p) (procs s)\<rparr>) c"
    using assms(1) by (simp add: quiet_procs)
  from quietD(5) [OF this] quietD(2) [OF this] show ?thesis
    using quietD [OF assms(1)] assms(2,4,5) my_killed_ok [OF assms(1)] assms(3) [folded pipe_full_iff]
    by (subst pipewrite_from.simps) (simp add: kop get_pipe_def wakeup_ok mach_ok_lock_on sleep_ok)
qed

lemma piperead_copied:
  assumes "pipe_ok (pipes s p)"
  shows "\<exists>x. piperead_copy p k (lock_on l s) =
     Ret (take k (pipe_q (pipes s p))) (lock_on l (s\<lparr>pipes := (pipes s)(p := x)\<rparr>)) \<and>
     pipe_ok x \<and> pipe_q x = drop k (pipe_q (pipes s p)) \<and>
     pi_readopen x = pi_readopen (pipes s p) \<and> pi_writeopen x = pi_writeopen (pipes s p)"
  using assms
proof (induction k arbitrary: s)
  case 0
  have "s\<lparr>pipes := (pipes s)(p := pipes s p)\<rparr> = s" by simp
  with 0 show ?case by (intro exI [of _ "pipes s p"]) (simp add: ret_def)
next
  case (Suc k)
  show ?case
  proof (cases "pipe_q (pipes s p) = []")
    case True
    then have "piperead_copy p (Suc k) (lock_on l s) = Ret [] (lock_on l (s\<lparr>pipes := (pipes s)(p := pipes s p)\<rparr>))"
      by (simp add: kop get_pipe_def pipe_empty_iff)
    with True Suc.prems show ?thesis by (intro exI [of _ "pipes s p"]) simp
  next
    case False
    let ?x = "(pipes s p)\<lparr>pi_nread := pi_nread (pipes s p) + 1\<rparr>"
    let ?s = "s\<lparr>pipes := (pipes s)(p := ?x)\<rparr>"
    obtain y where y: "piperead_copy p k (lock_on l ?s) =
        Ret (take k (pipe_q ?x)) (lock_on l (s\<lparr>pipes := (pipes s)(p := y)\<rparr>))"
        "pipe_ok y" "pipe_q y = drop k (pipe_q ?x)" "pi_readopen y = pi_readopen ?x" "pi_writeopen y = pi_writeopen ?x"
      using Suc.IH [of ?s, unfolded pipes_again] pipe_get(1) [OF Suc.prems False] by auto
    have "piperead_copy p (Suc k) (lock_on l s) =
        Ret (ring_get 512 (pi_data (pipes s p)) (pi_nread (pipes s p)) # take k (pipe_q ?x))
          (lock_on l (s\<lparr>pipes := (pipes s)(p := y)\<rparr>))"
      using False y(1) by (simp add: kop get_pipe_def set_pipe_def pipe_empty_iff)
    then show ?thesis using y pipe_get(2) [OF Suc.prems False] by (intro exI [of _ y]) (simp del: piperead_copy.simps fun_upd_apply)
  qed
qed

lemma piperead_ready:
  assumes "quiet s c" and "pipe_ok (pipes s p)" and "pipe_q (pipes s p) \<noteq> [] \<or> \<not> pi_writeopen (pipes s p)"
  shows "\<exists>x. piperead p n s = Ret (int (min (nat n) (length (pipe_q (pipes s p)))), take (nat n) (pipe_q (pipes s p)))
       (settle (s\<lparr>pipes := (pipes s)(p := x), procs := woken (ChPipeWrite p) (procs s)\<rparr>)) \<and>
     pipe_ok x \<and> pipe_q x = drop (nat n) (pipe_q (pipes s p))"
proof -
  obtain x where "piperead_copy p (nat n) (lock_on (LPipe p) s) =
      Ret (take (nat n) (pipe_q (pipes s p))) (lock_on (LPipe p) (s\<lparr>pipes := (pipes s)(p := x)\<rparr>))"
      "pipe_ok x" "pipe_q x = drop (nat n) (pipe_q (pipes s p))"
    using piperead_copied [OF assms(2), of "nat n" "LPipe p"] by blast
  with assms(3) show ?thesis
    using quietD [OF assms(1)]
    by (intro exI [of _ x]) (auto simp: piperead_def piperead_loop_def kop acquire_ok get_pipe_def pipe_empty_iff
        wakeup_ok mach_ok_lock_on release_on min.commute)
qed

lemma piperead_waits:
  assumes "quiet s c" and "pipe_q (pipes s p) = []" and "pi_writeopen (pipes s p)" and "\<not> p_killed (procs s ! c)"
  shows "piperead p n s = Block (ChPipeRead p) (lock_on LPtable (s\<lparr>procs := list_upd (procs s) c
        (\<lambda>q. q\<lparr>p_chan := Some (ChPipeRead p), p_state := SLEEPING\<rparr>)\<rparr>))"
  using quietD [OF assms(1)] assms(2-4) my_killed_ok [OF assms(1)]
  by (simp add: piperead_def piperead_loop_def kop acquire_ok get_pipe_def pipe_empty_iff sleep_ok)



subsection \<open>A concrete pipe\<close>

text \<open>A pipe at page 0 that holds three bytes across the wrap of its counters.\<close>

definition pipe_wrapped :: pipe where
  "pipe_wrapped = \<lparr>pi_data = 1 # replicate 509 0 @ [3, 2], pi_nread = 0xFFFFFFFE, pi_nwrite = 1,
     pi_readopen = True, pi_writeopen = True\<rparr>"

definition pipe0 :: "'a \<Rightarrow> 'a pipe_st_scheme" where
  "pipe0 x = fs0 (\<lambda>_. zero_block) [] \<lparr>pipes = (\<lambda>_. pipe_wrapped), \<dots> = x\<rparr>"

lemma pipe_wrapped_ok: "pipe_ok pipe_wrapped" "pipe_q pipe_wrapped = [3, 2, 1]"
  by (simp_all add: pipe_ok_def pipe_q_def pipe_wrapped_def ring_list_def ring_get_def ring_ix_def upt_rec
      nth_append nth_Cons')

lemma pipe0_fields [simp]: "pipes (pipe0 x) p = pipe_wrapped" "procs (pipe0 x) = table0" "quiet (pipe0 x) 0"
proof -
  have "bio_ok (pipe0 x) 0 {}" by (simp add: pipe0_def)
  then show "quiet (pipe0 x) 0" by (rule bio_okD)
qed (simp_all add: pipe0_def fs0_def bio0_def slock0_def proc0_def kmem0_def mach0_def)



end
