(* ===== verification/File.thy ===== *)
theory File
  imports Pipe
begin

section \<open>Open files (file.c, and pipealloc of pipe.c)\<close>

text \<open>
  Extends the state with the table of open files. A file pointer is an index into the table. As in
  the layers below, a read returns its result with the bytes it stores at \<open>addr\<close>, a write takes the
  bytes from \<open>addr\<close> on as a function of the offset, and the device switch is an argument.
\<close>

subsection \<open>State and operations\<close>

abbreviation (input) NFILE :: nat where "NFILE \<equiv> 100"

datatype fdtype = FD_NONE | FD_PIPE | FD_INODE

record openfile =
  f_type :: fdtype
  f_ref :: int
  f_readable :: bool
  f_writable :: bool
  f_pipe :: u32
  f_ip :: nat
  f_off :: u32

record file_st = pipe_st +
  ftable :: "openfile list"

definition get_file :: "nat \<Rightarrow> (openfile, 'a file_st_scheme) kop" where
  "get_file f = gets (\<lambda>s. ftable s ! f)"

definition set_file :: "nat \<Rightarrow> (openfile \<Rightarrow> openfile) \<Rightarrow> (unit, 'a file_st_scheme) kop" where
  "set_file f g = upd (\<lambda>s. s\<lparr>ftable := list_upd (ftable s) f g\<rparr>)"

definition fileinit :: "(unit, 'a mach_scheme) kop" where
  "fileinit = initlock LFtable ''ftable''"

definition filealloc :: "(nat option, 'a file_st_scheme) kop" where
  "filealloc =
     thn (acquire LFtable)
     (bnd (gets (\<lambda>s. find_index (\<lambda>f. f_ref f = 0) (take NFILE (ftable s)))) (\<lambda>found.
     case found of
       None \<Rightarrow> thn (release LFtable) (ret None)
     | Some f \<Rightarrow>
         thn (set_file f (\<lambda>x. x\<lparr>f_ref := 1\<rparr>))
         (thn (release LFtable)
         (ret (Some f)))))"

definition filedup :: "nat \<Rightarrow> (nat, 'a file_st_scheme) kop" where
  "filedup f =
     thn (acquire LFtable)
     (bnd (get_file f) (\<lambda>x.
     if f_ref x < 1 then kpanic ''filedup'' else
     thn (set_file f (\<lambda>x. x\<lparr>f_ref := f_ref x + 1\<rparr>))
     (thn (release LFtable)
     (ret f))))"

definition fileclose :: "nat \<Rightarrow> (unit, 'a file_st_scheme) kop" where
  "fileclose f =
     thn (acquire LFtable)
     (bnd (get_file f) (\<lambda>x.
     if f_ref x < 1 then kpanic ''fileclose'' else
     thn (set_file f (\<lambda>x. x\<lparr>f_ref := f_ref x - 1\<rparr>))
     (bnd (get_file f) (\<lambda>ff.
     if f_ref ff > 0 then release LFtable else
     thn (set_file f (\<lambda>x. x\<lparr>f_ref := 0\<rparr>))
     (thn (set_file f (\<lambda>x. x\<lparr>f_type := FD_NONE\<rparr>))
     (thn (release LFtable)
     (if f_type ff = FD_PIPE then pipeclose (f_pipe ff) (f_writable ff)
      else kwhen (f_type ff = FD_INODE) (thn begin_op (thn (iput (f_ip ff)) end_op)))))))))"

definition filestat :: "nat \<Rightarrow> (stat option, 'a file_st_scheme) kop" where
  "filestat f =
     bnd (get_file f) (\<lambda>x.
     if f_type x = FD_INODE then
       thn (ilock (Some (f_ip x)))
       (bnd (stati (f_ip x)) (\<lambda>st.
       thn (iunlock (Some (f_ip x)))
       (ret (Some st))))
     else ret None)"

definition fileread :: "'a file_st_scheme devtab \<Rightarrow> nat \<Rightarrow> int \<Rightarrow> (int \<times> u8 list, 'a file_st_scheme) kop" where
  "fileread devsw f n =
     bnd (get_file f) (\<lambda>x.
     if \<not> f_readable x then ret (-1, []) else
     case f_type x of
       FD_PIPE \<Rightarrow> piperead (f_pipe x) n
     | FD_INODE \<Rightarrow>
         thn (ilock (Some (f_ip x)))
         (bnd (get_file f) (\<lambda>y.
         bnd (readi devsw (f_ip x) (f_off y) (word_of_int n)) (\<lambda>(r, bs).
         thn (kwhen (r > 0) (set_file f (\<lambda>x. x\<lparr>f_off := f_off x + word_of_int r\<rparr>)))
         (thn (iunlock (Some (f_ip x)))
         (ret (r, bs))))))
     | FD_NONE \<Rightarrow> kpanic ''fileread'')"

text \<open>
  The loop of \<open>filewrite\<close> that fills the gap between the end of the file and the offset with null
  bytes. It reads the size of the file anew in each turn, and adds the loop counter to it.
\<close>

definition filewrite_fill :: "'a file_st_scheme devtab \<Rightarrow> nat \<Rightarrow> u32 \<Rightarrow> (unit, 'a file_st_scheme) kop" where
  "filewrite_fill devsw ip difference =
     kfor [0..<unat difference] (\<lambda>i.
       thn begin_op
       (thn (ilock (Some ip))
       (bnd (get_inode ip) (\<lambda>x.
       bnd (writei devsw ip (\<lambda>_. 0) (i_size x + of_nat i) 1) (\<lambda>_.
       thn (iunlock (Some ip))
       end_op)))))"

text \<open>\<open>max\<close> is \<open>((MAXOPBLOCKS-1-1-2) / 2) * 512\<close>. The loop returns the number of bytes written.\<close>

definition filewrite_max :: int where
  "filewrite_max = ((10 - 1 - 1 - 2) div 2) * 512"

function filewrite_loop :: "'a file_st_scheme devtab \<Rightarrow> nat \<Rightarrow> (nat \<Rightarrow> u8) \<Rightarrow> int \<Rightarrow> int \<Rightarrow> (int, 'a file_st_scheme) kop" where
  "filewrite_loop devsw f addr sz i =
     (if i < sz then
        let n1 = (if sz - i > filewrite_max then filewrite_max else sz - i) in
        thn begin_op
        (bnd (get_file f) (\<lambda>x.
        thn (ilock (Some (f_ip x)))
        (bnd (get_file f) (\<lambda>y.
        bnd (writei devsw (f_ip x) (\<lambda>k. addr (nat i + k)) (f_off y) (word_of_int n1)) (\<lambda>r.
        thn (kwhen (r > 0) (set_file f (\<lambda>x. x\<lparr>f_off := f_off x + word_of_int r\<rparr>)))
        (thn (iunlock (Some (f_ip x)))
        (thn end_op
        (if r < 0 then ret i
         else if r \<noteq> n1 then kpanic ''short filewrite''
         else filewrite_loop devsw f addr sz (i + n1)))))))))
      else ret i)"
  by auto
termination
  by (relation "measure (\<lambda>(devsw, f, addr, sz, i). nat (sz - i))") (auto simp: filewrite_max_def Let_def)

declare filewrite_loop.simps [simp del]

definition filewrite :: "'a file_st_scheme devtab \<Rightarrow> nat \<Rightarrow> (nat \<Rightarrow> u8) \<Rightarrow> int \<Rightarrow> (int, 'a file_st_scheme) kop" where
  "filewrite devsw f addr sz =
     bnd (get_file f) (\<lambda>x.
     if \<not> f_writable x then ret (-1) else
     case f_type x of
       FD_PIPE \<Rightarrow> pipewrite (f_pipe x) addr sz
     | FD_INODE \<Rightarrow>
         bnd (get_inode (f_ip x)) (\<lambda>ip.
         thn (kwhen (i_size ip < f_off x \<and> sz \<noteq> 0) (filewrite_fill devsw (f_ip x) (f_off x - i_size ip)))
         (bnd (filewrite_loop devsw f addr sz 0) (\<lambda>i.
         ret (if i = sz then sz else -1))))
     | FD_NONE \<Rightarrow> kpanic ''filewrite'')"

text \<open>\<open>_off_t\<close> is a signed 32-bit integer.\<close>

definition filelseek :: "nat \<Rightarrow> u32 \<Rightarrow> (int, 'a file_st_scheme) kop" where
  "filelseek f offset =
     thn begin_op
     (bnd (get_file f) (\<lambda>x.
     let temp = f_off x + offset in
     if sint temp < 0 then kpanic (''lseek offset negative reach'' @ [CHR 0x0A]) else
     thn (set_file f (\<lambda>x. x\<lparr>f_off := temp\<rparr>))
     (thn end_op
     (bnd (get_file f) (\<lambda>y. ret (sint (f_off y)))))))"

text \<open>\<open>pipealloc\<close> returns the read end and the write end, or None for -1.\<close>

definition pipe_files :: "u32 \<Rightarrow> nat \<Rightarrow> nat \<Rightarrow> (unit, 'a file_st_scheme) kop" where
  "pipe_files p f0 f1 =
     thn (set_pipe p (\<lambda>x. x\<lparr>pi_readopen := True, pi_writeopen := True, pi_nwrite := 0, pi_nread := 0\<rparr>))
     (thn (initlock (LPipe p) ''pipe'')
     (thn (set_file f0 (\<lambda>x. x\<lparr>f_type := FD_PIPE, f_readable := True, f_writable := False, f_pipe := p\<rparr>))
     (set_file f1 (\<lambda>x. x\<lparr>f_type := FD_PIPE, f_readable := False, f_writable := True, f_pipe := p\<rparr>))))"

definition pipealloc :: "((nat \<times> nat) option, 'a file_st_scheme) kop" where
  "pipealloc =
     bnd filealloc (\<lambda>r0.
     case r0 of None \<Rightarrow> ret None | Some f0 \<Rightarrow>
     bnd filealloc (\<lambda>r1.
     case r1 of None \<Rightarrow> thn (fileclose f0) (ret None) | Some f1 \<Rightarrow>
     bnd kalloc (\<lambda>p.
     if p = 0 then thn (fileclose f0) (thn (fileclose f1) (ret None)) else
     thn (pipe_files p f0 f1) (ret (Some (f0, f1))))))"

subsection \<open>The layers below\<close>

lemma file_over_mach [simp]:
  "ftable (lock_on l s) = ftable s" "ftable (settle s) = ftable s" "ftable (cli_on s) = ftable s"
  by (simp_all add: mach_on_defs)

lemma file_me [simp]:
  "me (s\<lparr>ftable := x0\<rparr>) = me s"
  by (simp_all add: me_def cpu_ix_def lapicid_def)

lemma file_mach [simp]:
  "mach_ok (s\<lparr>ftable := x0\<rparr>) = mach_ok s" "lock_free l (s\<lparr>ftable := x0\<rparr>) = lock_free l s"
  by (simp_all add: mach_ok_def lock_free_def cpu_ix_def lapicid_def readeflags_IF_def)

lemma file_upd_on [simp]:
  "(lock_on l s)\<lparr>ftable := x0\<rparr> = lock_on l (s\<lparr>ftable := x0\<rparr>)"
  "(settle s)\<lparr>ftable := x0\<rparr> = settle (s\<lparr>ftable := x0\<rparr>)"
  by (simp_all add: lock_on_def settle_def cli_on_def set_cpu_def cli_def readeflags_IF_def cong: if_cong)

lemma quiet_ftable [simp]: "quiet (s\<lparr>ftable := x\<rparr>) p = quiet s p"
  by (simp add: quiet_def)

lemma bio_ok_ftable [simp]: "bio_ok (s\<lparr>ftable := x\<rparr>) p H = bio_ok s p H"
  by (simp add: bio_ok_def mypid_def)

lemma log_ok_ftable [simp]: "log_ok (s\<lparr>ftable := x\<rparr>) = log_ok s"
  by (simp add: log_ok_def log_wf_def dirty_blocks_def)

subsection \<open>The file table\<close>

lemma filealloc_ok:
  assumes "quiet s p"
  shows "filealloc s = (case find_index (\<lambda>f. f_ref f = 0) (take NFILE (ftable s)) of
       None \<Rightarrow> Ret None (settle s)
     | Some f \<Rightarrow> Ret (Some f) (settle (s\<lparr>ftable := list_upd (ftable s) f (\<lambda>x. x\<lparr>f_ref := 1\<rparr>)\<rparr>)))"
  using quietD [OF assms]
  by (simp add: filealloc_def kop acquire_ok release_on set_file_def split: option.split)

lemma filedup_ok:
  assumes "quiet s p"
  shows "filedup f s = (if f_ref (ftable s ! f) < 1 then Panic ''filedup''
     else Ret f (settle (s\<lparr>ftable := list_upd (ftable s) f (\<lambda>x. x\<lparr>f_ref := f_ref x + 1\<rparr>)\<rparr>)))"
  using quietD [OF assms]
  by (simp add: filedup_def kop acquire_ok release_on get_file_def set_file_def)

lemma fileclose_shared:
  assumes "quiet s p" and "1 < f_ref (ftable s ! f)" and "f < length (ftable s)"
  shows "fileclose f s = Ret () (settle (s\<lparr>ftable := list_upd (ftable s) f (\<lambda>x. x\<lparr>f_ref := f_ref x - 1\<rparr>)\<rparr>))"
  using quietD [OF assms(1)] assms(2,3)
  by (simp add: fileclose_def kop acquire_ok release_on get_file_def set_file_def)

lemma fileclose_free: "quiet s p \<Longrightarrow> f_ref (ftable s ! f) < 1 \<Longrightarrow> fileclose f s = Panic ''fileclose''"
  using quietD [of s p] by (simp add: fileclose_def kop acquire_ok get_file_def)

lemma fileclose_last_pipe:
  assumes "quiet s p" and "f_ref (ftable s ! f) = 1" and "f < length (ftable s)" and "f_type (ftable s ! f) = FD_PIPE"
  shows "fileclose f s = pipeclose (f_pipe (ftable s ! f)) (f_writable (ftable s ! f))
     (settle (s\<lparr>ftable := list_upd (ftable s) f (\<lambda>x. x\<lparr>f_type := FD_NONE, f_ref := 0\<rparr>)\<rparr>))"
proof -
  have "(f_type_update (\<lambda>_. FD_NONE) \<circ> (f_ref_update (\<lambda>_. 0) \<circ> (\<lambda>x. x\<lparr>f_ref := f_ref x - 1\<rparr>))) =
      (\<lambda>x :: openfile. x\<lparr>f_type := FD_NONE, f_ref := 0\<rparr>)"
    by (simp add: fun_eq_iff)
  then show ?thesis
    using quietD [OF assms(1)] assms(2-4)
    by (simp add: fileclose_def kop acquire_ok release_on get_file_def set_file_def)
qed

text \<open>A duplicate that is closed again leaves no trace.\<close>

lemma filedup_fileclose:
  assumes "quiet s p" and "1 \<le> f_ref (ftable s ! f)" and "f < length (ftable s)"
  shows "bnd (filedup f) fileclose s = Ret () (settle s)"
proof -
  let ?s = "s\<lparr>ftable := list_upd (ftable s) f (\<lambda>x. x\<lparr>f_ref := f_ref x + 1\<rparr>)\<rparr>"
  have "fileclose f (settle ?s) = Ret () (settle (settle (?s\<lparr>ftable := ftable s\<rparr>)))"
    using fileclose_shared [of "settle ?s" p f] assms by (simp add: comp_def list_upd_id)
  with assms quietD [OF assms(1)] show ?thesis by (simp add: bnd_def filedup_ok)
qed

text \<open>The offset of a file cannot be moved below zero: \<open>filelseek\<close> stops the kernel instead.\<close>

lemma filelseek_negative:
  assumes "quiet s p" and "\<not> lg_committing (lg s)" and "lh_n (lg s) + (lg_outstanding (lg s) + 1) * 10 \<le> 30"
    and "sint (f_off (ftable s ! f) + offset) < 0"
  shows "filelseek f offset s = Panic (''lseek offset negative reach'' @ [CHR 0x0A])"
  using assms by (simp add: filelseek_def kop begin_op_ok get_file_def Let_def)

end
