(* ===== verification/Devices.thy ===== *)
theory Devices
  imports File
begin

section \<open>Device registers: interrupt controllers, serial port, keyboard (lapic.c, ioapic.c, picirq.c, uart.c, kbd.c, kbd.h)\<close>

text \<open>
  Extends the state with the device registers that the drivers reach through port I/O and memory
  mapped I/O. \<open>outb\<close> and \<open>inb\<close> give the ports the behaviour the drivers rely on: the CRT controller
  has an index port and a data port for the two halves of its cursor register, the serial port shows
  the input it has not delivered yet and is ready to send, and the keyboard controller delivers its
  queue of scan codes. Every byte written to a port is recorded in \<open>port_out\<close>.
\<close>

subsection \<open>Ports\<close>

record dev_st = file_st +
  port_out :: "(nat \<times> u8) list"
  crtc_ix :: u8
  crtc_cursor :: u16
  uart :: bool
  uart_present :: bool
  uart_in :: "u8 list"
  kbd_in :: "u8 list"
  kbd_shift :: u32
  lapic :: bool
  lapic_regs :: "nat \<Rightarrow> nat \<Rightarrow> u32"
  ioapic_regs :: "u32 \<Rightarrow> u32"

abbreviation (input) CRTPORT :: nat where "CRTPORT \<equiv> 0x3d4"
abbreviation (input) COM1 :: nat where "COM1 \<equiv> 0x3f8"
abbreviation (input) KBSTATP :: nat where "KBSTATP \<equiv> 0x64"
abbreviation (input) KBDATAP :: nat where "KBDATAP \<equiv> 0x60"

definition crtc_write :: "u8 \<Rightarrow> u8 \<Rightarrow> u16 \<Rightarrow> u16" where
  "crtc_write ix v c =
     (if ix = 14 then (push_bit 8 (ucast v)) OR (c AND 0x00FF)
      else if ix = 15 then (c AND 0xFF00) OR ucast v else c)"

definition crtc_read :: "u8 \<Rightarrow> u16 \<Rightarrow> u8" where
  "crtc_read ix c = (if ix = 14 then ucast (drop_bit 8 c) else if ix = 15 then ucast c else 0)"

definition outb :: "nat \<Rightarrow> u8 \<Rightarrow> (unit, 'a dev_st_scheme) kop" where
  "outb p v = upd (\<lambda>s. s\<lparr>port_out := port_out s @ [(p, v)],
     crtc_ix := (if p = CRTPORT then v else crtc_ix s),
     crtc_cursor := (if p = CRTPORT + 1 then crtc_write (crtc_ix s) v (crtc_cursor s) else crtc_cursor s)\<rparr>)"

definition inb :: "nat \<Rightarrow> (u8, 'a dev_st_scheme) kop" where
  "inb p =
     (if p = CRTPORT + 1 then gets (\<lambda>s. crtc_read (crtc_ix s) (crtc_cursor s))
      else if p = COM1 + 5 then
        gets (\<lambda>s. if uart_present s then 0x20 OR (if uart_in s = [] then 0 else 1) else 0xFF)
      else if p = COM1 then
        bnd (gets uart_in) (\<lambda>q. case q of [] \<Rightarrow> ret 0 | c # cs \<Rightarrow> thn (upd (\<lambda>s. s\<lparr>uart_in := cs\<rparr>)) (ret c))
      else if p = KBSTATP then gets (\<lambda>s. if kbd_in s = [] then 0 else 1)
      else if p = KBDATAP then
        bnd (gets kbd_in) (\<lambda>q. case q of [] \<Rightarrow> ret 0 | c # cs \<Rightarrow> thn (upd (\<lambda>s. s\<lparr>kbd_in := cs\<rparr>)) (ret c))
      else ret 0)"

subsection \<open>Interrupt controllers\<close>

definition picinit :: "(unit, 'a dev_st_scheme) kop" where
  "picinit = thn (outb (0x20 + 1) 0xFF) (outb (0xA0 + 1) 0xFF)"

abbreviation (input) T_IRQ0 :: u32 where "T_IRQ0 \<equiv> 32"

definition ioapicread :: "u32 \<Rightarrow> (u32, 'a dev_st_scheme) kop" where
  "ioapicread reg = gets (\<lambda>s. ioapic_regs s reg)"

definition ioapicwrite :: "u32 \<Rightarrow> u32 \<Rightarrow> (unit, 'a dev_st_scheme) kop" where
  "ioapicwrite reg data = upd (\<lambda>s. s\<lparr>ioapic_regs := (ioapic_regs s)(reg := data)\<rparr>)"

definition ioapicenable :: "u32 \<Rightarrow> u32 \<Rightarrow> (unit, 'a dev_st_scheme) kop" where
  "ioapicenable irq cpunum =
     thn (ioapicwrite (0x10 + 2 * irq) (T_IRQ0 + irq))
     (ioapicwrite (0x10 + 2 * irq + 1) (push_bit 24 cpunum))"

text \<open>
  \<open>lapic\<close> tells whether the pointer is set. Each processor sees its own registers at the address.
  The register that reports whether an interrupt is still being delivered is read as idle.
\<close>

definition lapicw :: "nat \<Rightarrow> u32 \<Rightarrow> (unit, 'a dev_st_scheme) kop" where
  "lapicw index v = upd (\<lambda>s. s\<lparr>lapic_regs := (lapic_regs s)(cur s := (lapic_regs s (cur s))(index := v))\<rparr>)"

definition lapicinit :: "(unit, 'a dev_st_scheme) kop" where
  "lapicinit =
     bnd (gets lapic) (\<lambda>on.
     if \<not> on then ret () else
     thn (lapicw (0x00F0 div 4) (0x100 OR (T_IRQ0 + 31)))
     (thn (lapicw (0x03E0 div 4) 0xB)
     (thn (lapicw (0x0320 div 4) (0x20000 OR (T_IRQ0 + 0)))
     (thn (lapicw (0x0380 div 4) 10000000)
     (thn (lapicw (0x0350 div 4) 0x10000)
     (thn (lapicw (0x0360 div 4) 0x10000)
     (bnd (gets (\<lambda>s. lapic_regs s (cur s) (0x0030 div 4))) (\<lambda>ver.
     thn (kwhen (4 \<le> drop_bit 16 ver AND 0xFF) (lapicw (0x0340 div 4) 0x10000))
     (thn (lapicw (0x0370 div 4) (T_IRQ0 + 19))
     (thn (lapicw (0x0280 div 4) 0)
     (thn (lapicw (0x0280 div 4) 0)
     (thn (lapicw (0x00B0 div 4) 0)
     (thn (lapicw (0x0310 div 4) 0)
     (thn (lapicw (0x0300 div 4) (0x80000 OR 0x500 OR 0x8000))
     (lapicw (0x0080 div 4) 0)))))))))))))))"

definition lapiceoi :: "(unit, 'a dev_st_scheme) kop" where
  "lapiceoi = bnd (gets lapic) (\<lambda>on. kwhen on (lapicw (0x00B0 div 4) 0))"

definition lapicstartap :: "u8 \<Rightarrow> u32 \<Rightarrow> (unit, 'a dev_st_scheme) kop" where
  "lapicstartap ap addr =
     thn (outb 0x70 0xF)
     (thn (outb (0x70 + 1) 0x0A)
     (thn (upd (\<lambda>s. s\<lparr>mem := (mem s)(P2V 0x467 := 0, P2V 0x467 + 1 := 0)\<rparr>))
     (thn (upd (\<lambda>s. s\<lparr>mem := (mem s)(P2V 0x467 + 2 := ucast (drop_bit 4 addr),
       P2V 0x467 + 3 := ucast (drop_bit 12 addr))\<rparr>))
     (thn (lapicw (0x0310 div 4) (push_bit 24 (ucast ap)))
     (thn (lapicw (0x0300 div 4) (0x500 OR 0x8000 OR 0x4000))
     (thn (lapicw (0x0300 div 4) (0x500 OR 0x8000))
     (kfor [0..<2] (\<lambda>i :: nat.
       thn (lapicw (0x0310 div 4) (push_bit 24 (ucast ap)))
       (lapicw (0x0300 div 4) (0x600 OR drop_bit 12 addr))))))))))"

subsection \<open>The serial port\<close>

fun uart_wait :: "nat \<Rightarrow> (unit, 'a dev_st_scheme) kop" where
  "uart_wait 0 = ret ()"
| "uart_wait (Suc k) = bnd (inb (COM1 + 5)) (\<lambda>st. if st AND 0x20 = 0 then uart_wait k else ret ())"

definition uartputc :: "u8 \<Rightarrow> (unit, 'a dev_st_scheme) kop" where
  "uartputc c =
     bnd (gets uart) (\<lambda>on.
     if \<not> on then ret () else
     thn (uart_wait 128) (outb COM1 c))"

definition uartgetc :: "(int, 'a dev_st_scheme) kop" where
  "uartgetc =
     bnd (gets uart) (\<lambda>on.
     if \<not> on then ret (-1) else
     bnd (inb (COM1 + 5)) (\<lambda>st.
     if st AND 0x01 = 0 then ret (-1) else
     bnd (inb COM1) (\<lambda>c. ret (uint c))))"

definition uartinit :: "(unit, 'a dev_st_scheme) kop" where
  "uartinit =
     thn (outb (COM1 + 2) 0)
     (thn (outb (COM1 + 3) 0x80)
     (thn (outb COM1 (115200 div 9600))
     (thn (outb (COM1 + 1) 0)
     (thn (outb (COM1 + 3) 0x03)
     (thn (outb (COM1 + 4) 0)
     (thn (outb (COM1 + 1) 0x01)
     (bnd (inb (COM1 + 5)) (\<lambda>st.
     if st = 0xFF then ret () else
     thn (upd (\<lambda>s. s\<lparr>uart := True\<rparr>))
     (bnd (inb (COM1 + 2)) (\<lambda>_.
     bnd (inb COM1) (\<lambda>_.
     thn (ioapicenable 4 0)
     (kfor (map of_char ''xv6...'' @ [0x0A]) uartputc))))))))))))"

subsection \<open>The keyboard\<close>

abbreviation (input) SHIFT :: u32 where "SHIFT \<equiv> 1"
abbreviation (input) CTL :: u32 where "CTL \<equiv> 2"
abbreviation (input) ALT :: u32 where "ALT \<equiv> 4"
abbreviation (input) CAPSLOCK :: u32 where "CAPSLOCK \<equiv> 8"
abbreviation (input) NUMLOCK :: u32 where "NUMLOCK \<equiv> 16"
abbreviation (input) SCROLLLOCK :: u32 where "SCROLLLOCK \<equiv> 32"
abbreviation (input) E0ESC :: u32 where "E0ESC \<equiv> 64"

text \<open>A table of 256 bytes given by its first entries and the designated ones; the rest is zero.\<close>

definition keytab :: "u8 list \<Rightarrow> (nat \<times> u8) list \<Rightarrow> u8 list" where
  "keytab xs es = fold (\<lambda>(i, v) t. t[i := v]) es (xs @ replicate (256 - length xs) 0)"

definition shiftcode :: "u8 list" where
  "shiftcode = keytab [] [(0x1D, 2), (0x2A, 1), (0x36, 1), (0x38, 4), (0x9D, 2), (0xB8, 4)]"

definition togglecode :: "u8 list" where
  "togglecode = keytab [] [(0x3A, 8), (0x45, 16), (0x46, 32)]"

definition special_keys :: "(nat \<times> u8) list" where
  "special_keys = [(0xC8, 0xE2), (0xD0, 0xE3), (0xC9, 0xE6), (0xD1, 0xE7), (0xCB, 0xE4), (0xCD, 0xE5),
     (0x97, 0xE0), (0xCF, 0xE1), (0xD2, 0xE8), (0xD3, 0xE9)]"

definition normalmap :: "u8 list" where
  "normalmap = keytab
    [0, 0x1B, 0x31, 0x32, 0x33, 0x34, 0x35, 0x36,
     0x37, 0x38, 0x39, 0x30, 0x2d, 0x3d, 8, 9,
     0x71, 0x77, 0x65, 0x72, 0x74, 0x79, 0x75, 0x69,
     0x6f, 0x70, 0x5b, 0x5d, 10, 0, 0x61, 0x73,
     0x64, 0x66, 0x67, 0x68, 0x6a, 0x6b, 0x6c, 0x3b,
     0x27, 0x60, 0, 0x5c, 0x7a, 0x78, 0x63, 0x76,
     0x62, 0x6e, 0x6d, 0x2c, 0x2e, 0x2f, 0, 0x2a,
     0, 0x20, 0, 0, 0, 0, 0, 0,
     0, 0, 0, 0, 0, 0, 0, 0x37,
     0x38, 0x39, 0x2d, 0x34, 0x35, 0x36, 0x2b, 0x31,
     0x32, 0x33, 0x30, 0x2e, 0, 0, 0, 0]
    ((0x9C, 10) # (0xB5, 0x2f) # special_keys)"

definition shiftmap :: "u8 list" where
  "shiftmap = keytab
    [0, 0x1B, 0x21, 0x40, 0x23, 0x24, 0x25, 0x5e,
     0x26, 0x2a, 0x28, 0x29, 0x5f, 0x2b, 8, 9,
     0x51, 0x57, 0x45, 0x52, 0x54, 0x59, 0x55, 0x49,
     0x4f, 0x50, 0x7b, 0x7d, 10, 0, 0x41, 0x53,
     0x44, 0x46, 0x47, 0x48, 0x4a, 0x4b, 0x4c, 0x3a,
     0x22, 0x7e, 0, 0x7c, 0x5a, 0x58, 0x43, 0x56,
     0x42, 0x4e, 0x4d, 0x3c, 0x3e, 0x3f, 0, 0x2a,
     0, 0x20, 0, 0, 0, 0, 0, 0,
     0, 0, 0, 0, 0, 0, 0, 0x37,
     0x38, 0x39, 0x2d, 0x34, 0x35, 0x36, 0x2b, 0x31,
     0x32, 0x33, 0x30, 0x2e, 0, 0, 0, 0]
    ((0x9C, 10) # (0xB5, 0x2f) # special_keys)"

definition ctlmap :: "u8 list" where
  "ctlmap = keytab
    [0, 0, 0, 0, 0, 0, 0, 0,
     0, 0, 0, 0, 0, 0, 0, 0,
     0x11, 0x17, 0x5, 0x12, 0x14, 0x19, 0x15, 0x9,
     0xf, 0x10, 0, 0, 13, 0, 0x1, 0x13,
     0x4, 0x6, 0x7, 0x8, 0xa, 0xb, 0xc, 0,
     0, 0, 0, 0x1c, 0x1a, 0x18, 0x3, 0x16,
     0x2, 0xe, 0xd, 0, 0, 0xef, 0, 0]
    ((0x9C, 13) # (0xB5, 0xEF) # special_keys)"

definition charcode :: "u32 \<Rightarrow> u8 list" where
  "charcode i = (if i = 0 then normalmap else if i = 1 then shiftmap else ctlmap)"

text \<open>
  The translation of one scan code: the new shift state and the character, 0 for none. \<open>kbdgetc\<close>
  applies it to the next code of the controller.
\<close>

definition caps :: "u8 \<Rightarrow> u8" where
  "caps c = (if 0x61 \<le> c \<and> c \<le> 0x7A then c + (0x41 - 0x61)
     else if 0x41 \<le> c \<and> c \<le> 0x5A then c + (0x61 - 0x41) else c)"

definition kbd_press :: "u32 \<Rightarrow> u8 \<Rightarrow> u32 \<times> u8" where
  "kbd_press shift data =
     (let shift1 = shift OR ucast (shiftcode ! unat data);
          shift2 = shift1 XOR ucast (togglecode ! unat data);
          c = charcode (shift2 AND (CTL OR SHIFT)) ! unat data
      in (shift2, if shift2 AND CAPSLOCK \<noteq> 0 then caps c else c))"

definition kbd_code :: "u32 \<Rightarrow> u8 \<Rightarrow> u32 \<times> u8" where
  "kbd_code shift data =
     (if data = 0xE0 then (shift OR E0ESC, 0)
      else if data AND 0x80 \<noteq> 0 then
        (let d = (if shift AND E0ESC \<noteq> 0 then data else data AND 0x7F)
         in (shift AND NOT (ucast (shiftcode ! unat d) OR E0ESC), 0))
      else if shift AND E0ESC \<noteq> 0 then kbd_press (shift AND NOT E0ESC) (data OR 0x80)
      else kbd_press shift data)"

definition kbdgetc :: "(int, 'a dev_st_scheme) kop" where
  "kbdgetc =
     bnd (inb KBSTATP) (\<lambda>st.
     if st AND 0x01 = 0 then ret (-1) else
     bnd (inb KBDATAP) (\<lambda>data.
     bnd (gets kbd_shift) (\<lambda>shift.
     case kbd_code shift data of (shift', c) \<Rightarrow>
       thn (upd (\<lambda>s. s\<lparr>kbd_shift := shift'\<rparr>)) (ret (uint c)))))"

subsection \<open>The layers below\<close>

lemma dev_over_mach [simp]:
  "port_out (lock_on l s) = port_out s" "port_out (settle s) = port_out s" "port_out (cli_on s) = port_out s"
  "crtc_ix (lock_on l s) = crtc_ix s" "crtc_ix (settle s) = crtc_ix s" "crtc_ix (cli_on s) = crtc_ix s"
  "crtc_cursor (lock_on l s) = crtc_cursor s" "crtc_cursor (settle s) = crtc_cursor s" "crtc_cursor (cli_on s) = crtc_cursor s"
  "uart (lock_on l s) = uart s" "uart (settle s) = uart s" "uart (cli_on s) = uart s"
  "uart_present (lock_on l s) = uart_present s" "uart_present (settle s) = uart_present s" "uart_present (cli_on s) = uart_present s"
  "uart_in (lock_on l s) = uart_in s" "uart_in (settle s) = uart_in s" "uart_in (cli_on s) = uart_in s"
  "kbd_in (lock_on l s) = kbd_in s" "kbd_in (settle s) = kbd_in s" "kbd_in (cli_on s) = kbd_in s"
  "kbd_shift (lock_on l s) = kbd_shift s" "kbd_shift (settle s) = kbd_shift s" "kbd_shift (cli_on s) = kbd_shift s"
  "lapic (lock_on l s) = lapic s" "lapic (settle s) = lapic s" "lapic (cli_on s) = lapic s"
  "lapic_regs (lock_on l s) = lapic_regs s" "lapic_regs (settle s) = lapic_regs s" "lapic_regs (cli_on s) = lapic_regs s"
  "ioapic_regs (lock_on l s) = ioapic_regs s" "ioapic_regs (settle s) = ioapic_regs s" "ioapic_regs (cli_on s) = ioapic_regs s"
  by (simp_all add: mach_on_defs)

lemma dev_me [simp]:
  "me (s\<lparr>port_out := x0\<rparr>) = me s"
  "me (s\<lparr>crtc_ix := x1\<rparr>) = me s"
  "me (s\<lparr>crtc_cursor := x2\<rparr>) = me s"
  "me (s\<lparr>uart := x3\<rparr>) = me s"
  "me (s\<lparr>uart_present := x4\<rparr>) = me s"
  "me (s\<lparr>uart_in := x5\<rparr>) = me s"
  "me (s\<lparr>kbd_in := x6\<rparr>) = me s"
  "me (s\<lparr>kbd_shift := x7\<rparr>) = me s"
  "me (s\<lparr>lapic := x8\<rparr>) = me s"
  "me (s\<lparr>lapic_regs := x9\<rparr>) = me s"
  "me (s\<lparr>ioapic_regs := x10\<rparr>) = me s"
  by (simp_all add: me_def cpu_ix_def lapicid_def)

lemma dev_mach [simp]:
  "mach_ok (s\<lparr>port_out := x0\<rparr>) = mach_ok s" "lock_free l (s\<lparr>port_out := x0\<rparr>) = lock_free l s"
  "mach_ok (s\<lparr>crtc_ix := x1\<rparr>) = mach_ok s" "lock_free l (s\<lparr>crtc_ix := x1\<rparr>) = lock_free l s"
  "mach_ok (s\<lparr>crtc_cursor := x2\<rparr>) = mach_ok s" "lock_free l (s\<lparr>crtc_cursor := x2\<rparr>) = lock_free l s"
  "mach_ok (s\<lparr>uart := x3\<rparr>) = mach_ok s" "lock_free l (s\<lparr>uart := x3\<rparr>) = lock_free l s"
  "mach_ok (s\<lparr>uart_present := x4\<rparr>) = mach_ok s" "lock_free l (s\<lparr>uart_present := x4\<rparr>) = lock_free l s"
  "mach_ok (s\<lparr>uart_in := x5\<rparr>) = mach_ok s" "lock_free l (s\<lparr>uart_in := x5\<rparr>) = lock_free l s"
  "mach_ok (s\<lparr>kbd_in := x6\<rparr>) = mach_ok s" "lock_free l (s\<lparr>kbd_in := x6\<rparr>) = lock_free l s"
  "mach_ok (s\<lparr>kbd_shift := x7\<rparr>) = mach_ok s" "lock_free l (s\<lparr>kbd_shift := x7\<rparr>) = lock_free l s"
  "mach_ok (s\<lparr>lapic := x8\<rparr>) = mach_ok s" "lock_free l (s\<lparr>lapic := x8\<rparr>) = lock_free l s"
  "mach_ok (s\<lparr>lapic_regs := x9\<rparr>) = mach_ok s" "lock_free l (s\<lparr>lapic_regs := x9\<rparr>) = lock_free l s"
  "mach_ok (s\<lparr>ioapic_regs := x10\<rparr>) = mach_ok s" "lock_free l (s\<lparr>ioapic_regs := x10\<rparr>) = lock_free l s"
  by (simp_all add: mach_ok_def lock_free_def cpu_ix_def lapicid_def readeflags_IF_def)

lemma dev_upd_on [simp]:
  "(lock_on l s)\<lparr>port_out := x0\<rparr> = lock_on l (s\<lparr>port_out := x0\<rparr>)"
  "(settle s)\<lparr>port_out := x0\<rparr> = settle (s\<lparr>port_out := x0\<rparr>)"
  "(lock_on l s)\<lparr>crtc_ix := x1\<rparr> = lock_on l (s\<lparr>crtc_ix := x1\<rparr>)"
  "(settle s)\<lparr>crtc_ix := x1\<rparr> = settle (s\<lparr>crtc_ix := x1\<rparr>)"
  "(lock_on l s)\<lparr>crtc_cursor := x2\<rparr> = lock_on l (s\<lparr>crtc_cursor := x2\<rparr>)"
  "(settle s)\<lparr>crtc_cursor := x2\<rparr> = settle (s\<lparr>crtc_cursor := x2\<rparr>)"
  "(lock_on l s)\<lparr>uart := x3\<rparr> = lock_on l (s\<lparr>uart := x3\<rparr>)"
  "(settle s)\<lparr>uart := x3\<rparr> = settle (s\<lparr>uart := x3\<rparr>)"
  "(lock_on l s)\<lparr>uart_present := x4\<rparr> = lock_on l (s\<lparr>uart_present := x4\<rparr>)"
  "(settle s)\<lparr>uart_present := x4\<rparr> = settle (s\<lparr>uart_present := x4\<rparr>)"
  "(lock_on l s)\<lparr>uart_in := x5\<rparr> = lock_on l (s\<lparr>uart_in := x5\<rparr>)"
  "(settle s)\<lparr>uart_in := x5\<rparr> = settle (s\<lparr>uart_in := x5\<rparr>)"
  "(lock_on l s)\<lparr>kbd_in := x6\<rparr> = lock_on l (s\<lparr>kbd_in := x6\<rparr>)"
  "(settle s)\<lparr>kbd_in := x6\<rparr> = settle (s\<lparr>kbd_in := x6\<rparr>)"
  "(lock_on l s)\<lparr>kbd_shift := x7\<rparr> = lock_on l (s\<lparr>kbd_shift := x7\<rparr>)"
  "(settle s)\<lparr>kbd_shift := x7\<rparr> = settle (s\<lparr>kbd_shift := x7\<rparr>)"
  "(lock_on l s)\<lparr>lapic := x8\<rparr> = lock_on l (s\<lparr>lapic := x8\<rparr>)"
  "(settle s)\<lparr>lapic := x8\<rparr> = settle (s\<lparr>lapic := x8\<rparr>)"
  "(lock_on l s)\<lparr>lapic_regs := x9\<rparr> = lock_on l (s\<lparr>lapic_regs := x9\<rparr>)"
  "(settle s)\<lparr>lapic_regs := x9\<rparr> = settle (s\<lparr>lapic_regs := x9\<rparr>)"
  "(lock_on l s)\<lparr>ioapic_regs := x10\<rparr> = lock_on l (s\<lparr>ioapic_regs := x10\<rparr>)"
  "(settle s)\<lparr>ioapic_regs := x10\<rparr> = settle (s\<lparr>ioapic_regs := x10\<rparr>)"
  by (simp_all add: lock_on_def settle_def cli_on_def set_cpu_def cli_def readeflags_IF_def cong: if_cong)


lemma quiet_dev [simp]:
  "quiet (s\<lparr>port_out := x0\<rparr>) p = quiet s p" "quiet (s\<lparr>crtc_ix := x1\<rparr>) p = quiet s p"
  "quiet (s\<lparr>crtc_cursor := x2\<rparr>) p = quiet s p" "quiet (s\<lparr>uart := x3\<rparr>) p = quiet s p"
  "quiet (s\<lparr>uart_in := x4\<rparr>) p = quiet s p" "quiet (s\<lparr>kbd_in := x5\<rparr>) p = quiet s p"
  "quiet (s\<lparr>kbd_shift := x6\<rparr>) p = quiet s p" "quiet (s\<lparr>lapic_regs := x7\<rparr>) p = quiet s p"
  "quiet (s\<lparr>ioapic_regs := x8\<rparr>) p = quiet s p"
  by (simp_all add: quiet_def)

end
