(* ===== verification/Console.thy ===== *)
theory Console
  imports Devices
begin

section \<open>The console (console.c, and the interrupt entries of kbd.c, uart.c and ioapic.c)\<close>

text \<open>
  Extends the state with the text memory of the screen, the lock flag and panic flag, and the line
  buffer. The variable arguments of \<open>cprintf\<close> are a list: an integer or the characters of a string,
  None for a null pointer. An argument that is missing or of the wrong kind is undefined behaviour.

  The character sources of \<open>consoleintr\<close> are the drivers' \<open>getc\<close> functions. Its loop takes a bound on
  the number of calls, which for the keyboard and the serial port is the number of bytes waiting in
  the device and one more; it is shown below that the bound is never reached.
\<close>

subsection \<open>Output\<close>

record cons_st = dev_st +
  panicked :: bool
  cons_locking :: bool
  crt :: "nat \<Rightarrow> u16"
  in_buf :: "u8 list"
  in_r :: u32
  in_w :: u32
  in_e :: u32

abbreviation (input) BACKSPACE :: int where "BACKSPACE \<equiv> 0x100"

definition crt_scroll :: "nat \<Rightarrow> (nat \<Rightarrow> u16) \<Rightarrow> nat \<Rightarrow> u16" where
  "crt_scroll pos m k =
     (if pos \<le> k \<and> k < 24 * 80 then 0 else if k < 23 * 80 then m (k + 80) else m k)"

definition cga_advance :: "int \<Rightarrow> int \<Rightarrow> int" where
  "cga_advance c pos =
     (if c = 0x0A then pos + (80 - pos mod 80)
      else if c = BACKSPACE then (if pos > 0 then pos - 1 else pos)
      else pos + 1)"

text \<open>Reading and setting the cursor, the first and the last port accesses of \<open>cgaputc\<close>.\<close>

definition cga_getpos :: "(int, 'a cons_st_scheme) kop" where
  "cga_getpos =
     thn (outb CRTPORT 14)
     (bnd (inb (CRTPORT + 1)) (\<lambda>hi.
     thn (outb CRTPORT 15)
     (bnd (inb (CRTPORT + 1)) (\<lambda>lo.
     ret (uint hi * 256 + uint lo)))))"

definition cga_setpos :: "int \<Rightarrow> (unit, 'a cons_st_scheme) kop" where
  "cga_setpos pos =
     thn (outb CRTPORT 14)
     (thn (outb (CRTPORT + 1) (word_of_int (pos div 256)))
     (thn (outb CRTPORT 15)
     (outb (CRTPORT + 1) (word_of_int pos))))"

definition cgaputc :: "int \<Rightarrow> (unit, 'a cons_st_scheme) kop" where
  "cgaputc c =
     bnd cga_getpos (\<lambda>pos0.
     let pos = cga_advance c pos0 in
     thn (kwhen (c \<noteq> 0x0A \<and> c \<noteq> BACKSPACE)
        (upd (\<lambda>s. s\<lparr>crt := (crt s)(nat pos0 := ucast (word_of_int c :: u8) OR 0x0700)\<rparr>)))
     (if pos < 0 \<or> pos > 25 * 80 then kpanic ''pos under/overflow'' else
      let scroll = pos div 80 \<ge> 24; pos' = (if scroll then pos - 80 else pos) in
      thn (kwhen scroll (upd (\<lambda>s. s\<lparr>crt := crt_scroll (nat pos') (crt s)\<rparr>)))
      (thn (cga_setpos pos')
      (upd (\<lambda>s. s\<lparr>crt := (crt s)(nat pos' := 0x20 OR 0x0700)\<rparr>)))))"

text \<open>After a panic on another processor \<open>consputc\<close> stops this one too.\<close>

definition consputc :: "int \<Rightarrow> (unit, 'a cons_st_scheme) kop" where
  "consputc c =
     bnd (gets panicked) (\<lambda>b.
     if b then kpanic ''panicked'' else
     thn (if c = BACKSPACE then thn (uartputc 8) (thn (uartputc 0x20) (uartputc 8))
          else uartputc (word_of_int c))
     (cgaputc c))"

definition digits :: "u8 list" where
  "digits = map of_char ''0123456789abcdef''"

text \<open>The digits of a number, the least significant first: the loop that fills \<open>buf\<close>.\<close>

function printint_digits :: "nat \<Rightarrow> nat \<Rightarrow> u8 list" where
  "printint_digits base x =
     (digits ! (x mod base)) # (if 2 \<le> base \<and> x div base \<noteq> 0 then printint_digits base (x div base) else [])"
  by auto
termination
  by (relation "measure snd") (auto intro!: div_less_dividend intro: Nat.gr0I)

declare printint_digits.simps [simp del]

definition printint_text :: "u32 \<Rightarrow> nat \<Rightarrow> bool \<Rightarrow> u8 list" where
  "printint_text xx base sign =
     (let neg = (sign \<and> sint xx < 0); x = (if neg then - xx else xx)
      in rev (printint_digits base (unat x) @ (if neg then [0x2D] else [])))"

definition printint :: "u32 \<Rightarrow> nat \<Rightarrow> bool \<Rightarrow> (unit, 'a cons_st_scheme) kop" where
  "printint xx base sign = kfor (printint_text xx base sign) (\<lambda>c. consputc (uint c))"

datatype carg = CInt u32 | CStr "u8 list option"

definition null_text :: "u8 list" where
  "null_text = map of_char ''(null)''"

fun cprintf_loop :: "u8 list \<Rightarrow> carg list \<Rightarrow> (unit, 'a cons_st_scheme) kop" where
  "cprintf_loop [] args = ret ()"
| "cprintf_loop [c] args = (if c \<noteq> 0x25 then consputc (uint c) else ret ())"
| "cprintf_loop (c # d # cs) args =
     (if c \<noteq> 0x25 then thn (consputc (uint c)) (cprintf_loop (d # cs) args)
      else if d = 0x64 then
        (case args of CInt x # as \<Rightarrow> thn (printint x 10 True) (cprintf_loop cs as) | _ \<Rightarrow> kpanic ''undefined'')
      else if d = 0x78 \<or> d = 0x70 then
        (case args of CInt x # as \<Rightarrow> thn (printint x 16 False) (cprintf_loop cs as) | _ \<Rightarrow> kpanic ''undefined'')
      else if d = 0x73 then
        (case args of CStr t # as \<Rightarrow>
           thn (kfor (case t of None \<Rightarrow> null_text | Some xs \<Rightarrow> xs) (\<lambda>c. consputc (uint c))) (cprintf_loop cs as)
         | _ \<Rightarrow> kpanic ''undefined'')
      else if d = 0x25 then thn (consputc 0x25) (cprintf_loop cs args)
      else thn (consputc 0x25) (thn (consputc (uint d)) (cprintf_loop cs args)))"

definition cprintf :: "string \<Rightarrow> carg list \<Rightarrow> (unit, 'a cons_st_scheme) kop" where
  "cprintf fmt args =
     bnd (gets cons_locking) (\<lambda>locking.
     thn (kwhen locking (acquire LCons))
     (thn (cprintf_loop (map of_char fmt) args)
     (kwhen locking (release LCons))))"

text \<open>\<open>getcallerpcs\<close> walks the chain of saved frame pointers in memory.\<close>

fun callerpcs_from :: "nat \<Rightarrow> bytemem \<Rightarrow> u32 \<Rightarrow> u32 list" where
  "callerpcs_from 0 m ebp = []"
| "callerpcs_from (Suc n) m ebp =
     (if ebp = 0 \<or> ebp < KERNBASE \<or> ebp = 0xffffffff then replicate (Suc n) 0
      else load32 m (ebp + 4) # callerpcs_from n m (load32 m ebp))"

definition getcallerpcs :: "bytemem \<Rightarrow> u32 \<Rightarrow> u32 list" where
  "getcallerpcs m v = callerpcs_from 10 m (v - 8)"

text \<open>
  What \<open>panic\<close> does before its endless loop; \<open>sp\<close> is the address of its argument on the stack.
\<close>

definition panic :: "string \<Rightarrow> u32 \<Rightarrow> (unit, 'a cons_st_scheme) kop" where
  "panic msg sp =
     thn (upd cli)
     (thn (upd (\<lambda>s. s\<lparr>cons_locking := False\<rparr>))
     (bnd (gets lapicid) (\<lambda>i.
     thn (cprintf ''lapicid %d: panic: '' [CInt (ucast i)])
     (thn (cprintf msg [])
     (thn (cprintf [CHR 0x0A] [])
     (bnd (gets (\<lambda>s. getcallerpcs (mem s) sp)) (\<lambda>pcs.
     thn (kfor pcs (\<lambda>pc. cprintf '' %p'' [CInt pc]))
     (upd (\<lambda>s. s\<lparr>panicked := True\<rparr>)))))))))"

fun state_name :: "procstate \<Rightarrow> u8 list" where
  "state_name UNUSED = map of_char ''unused''"
| "state_name EMBRYO = map of_char ''embryo''"
| "state_name SLEEPING = map of_char ''sleep ''"
| "state_name RUNNABLE = map of_char ''runble''"
| "state_name RUNNING = map of_char ''run   ''"
| "state_name ZOMBIE = map of_char ''zombie''"

definition name_arg :: "u8 list \<Rightarrow> carg" where
  "name_arg xs = CStr (Some (takeWhile (\<lambda>c. c \<noteq> 0) xs))"

definition procdump_one :: "proc \<Rightarrow> (unit, 'a cons_st_scheme) kop" where
  "procdump_one p =
     (if p_state p = UNUSED then ret () else
      thn (cprintf ''%d %s %s'' [CInt (p_pid p), CStr (Some (state_name (p_state p))), name_arg (p_name p)])
      (thn (kwhen (p_state p = SLEEPING)
        (bnd (gets (\<lambda>s. getcallerpcs (mem s) (load32 (mem s) (p_context p + 12) + 8))) (\<lambda>pc.
        kfor (takeWhile (\<lambda>x. x \<noteq> 0) pc) (\<lambda>x. cprintf '' %p'' [CInt x]))))
      (cprintf [CHR 0x0A] [])))"

definition procdump :: "(unit, 'a cons_st_scheme) kop" where
  "procdump = bnd (gets procs) (\<lambda>ps. kfor ps procdump_one)"

subsection \<open>Input\<close>

abbreviation (input) INPUT_BUF :: nat where "INPUT_BUF \<equiv> 128"

text \<open>The loop of kill line, given the number \<open>input.e - input.w\<close> of characters it can erase.\<close>

fun kill_line :: "nat \<Rightarrow> (unit, 'a cons_st_scheme) kop" where
  "kill_line 0 = ret ()"
| "kill_line (Suc k) =
     bnd (gets (\<lambda>s. in_e s \<noteq> in_w s \<and> ring_get INPUT_BUF (in_buf s) (in_e s - 1) \<noteq> 0x0A)) (\<lambda>b.
     if b then
       thn (upd (\<lambda>s. s\<lparr>in_e := in_e s - 1\<rparr>))
       (thn (consputc BACKSPACE) (kill_line k))
     else ret ())"

definition console_char :: "int \<Rightarrow> (unit, 'a cons_st_scheme) kop" where
  "console_char c0 =
     bnd (gets (\<lambda>s. c0 \<noteq> 0 \<and> unat (in_e s - in_r s) < INPUT_BUF)) (\<lambda>b.
     if \<not> b then ret () else
     let c = (if c0 = 0x0D then 0x0A else c0) in
     thn (upd (\<lambda>s. s\<lparr>in_buf := ring_put INPUT_BUF (in_buf s) (in_e s) (word_of_int c), in_e := in_e s + 1\<rparr>))
     (thn (consputc c)
     (bnd (gets (\<lambda>s. c = 0x0A \<or> c = 4 \<or> in_e s = in_r s + of_nat INPUT_BUF)) (\<lambda>full.
     kwhen full (thn (upd (\<lambda>s. s\<lparr>in_w := in_e s\<rparr>)) (wakeup ChInput))))))"

definition console_key :: "int \<Rightarrow> (unit, 'a cons_st_scheme) kop" where
  "console_key c =
     (if c = 0x15 then bnd (gets (\<lambda>s. unat (in_e s - in_w s))) kill_line
      else if c = 8 \<or> c = 0x7F then
        bnd (gets (\<lambda>s. in_e s \<noteq> in_w s)) (\<lambda>b.
        kwhen b (thn (upd (\<lambda>s. s\<lparr>in_e := in_e s - 1\<rparr>)) (consputc BACKSPACE)))
      else console_char c)"

fun consoleintr_loop :: "nat \<Rightarrow> (int, 'a cons_st_scheme) kop \<Rightarrow> bool \<Rightarrow> (bool, 'a cons_st_scheme) kop" where
  "consoleintr_loop 0 getc doprocdump = kpanic ''fuel''"
| "consoleintr_loop (Suc n) getc doprocdump =
     bnd getc (\<lambda>c.
     if c < 0 then ret doprocdump
     else if c = 0x10 then consoleintr_loop n getc True
     else thn (console_key c) (consoleintr_loop n getc doprocdump))"

definition consoleintr :: "nat \<Rightarrow> (int, 'a cons_st_scheme) kop \<Rightarrow> (unit, 'a cons_st_scheme) kop" where
  "consoleintr n getc =
     thn (acquire LCons)
     (bnd (consoleintr_loop n getc False) (\<lambda>doprocdump.
     thn (release LCons)
     (kwhen doprocdump procdump)))"

definition kbdintr :: "(unit, 'a cons_st_scheme) kop" where
  "kbdintr = bnd (gets (\<lambda>s. length (kbd_in s))) (\<lambda>n. consoleintr (Suc n) kbdgetc)"

definition uartintr :: "(unit, 'a cons_st_scheme) kop" where
  "uartintr = bnd (gets (\<lambda>s. length (uart_in s))) (\<lambda>n. consoleintr (Suc n) uartgetc)"

subsection \<open>The console as a device\<close>

text \<open>
  \<open>consoleread_loop ip target n acc\<close> is the outer loop with \<open>n\<close> bytes still wanted and \<open>acc\<close> stored so
  far; \<open>consoleread_resume\<close> continues it after the sleep.
\<close>

definition consoleread_end :: "nat \<Rightarrow> int \<Rightarrow> nat \<Rightarrow> u8 list \<Rightarrow> (int \<times> u8 list, 'a cons_st_scheme) kop" where
  "consoleread_end ip target n acc =
     thn (release LCons)
     (thn (ilock (Some ip))
     (ret (target - int n, acc)))"

fun consoleread_loop :: "nat \<Rightarrow> nat \<Rightarrow> nat \<Rightarrow> u8 list \<Rightarrow> (int \<times> u8 list, 'a cons_st_scheme) kop" where
  "consoleread_loop ip target 0 acc = consoleread_end ip (int target) 0 acc"
| "consoleread_loop ip target (Suc n) acc =
     bnd (gets (\<lambda>s. in_r s = in_w s)) (\<lambda>empty.
     if empty then
       bnd my_killed (\<lambda>k.
       if k then thn (release LCons) (thn (ilock (Some ip)) (ret (-1, acc)))
       else sleep ChInput LCons)
     else
       bnd (gets (\<lambda>s. ring_get INPUT_BUF (in_buf s) (in_r s))) (\<lambda>c.
       thn (upd (\<lambda>s. s\<lparr>in_r := in_r s + 1\<rparr>))
       (if c = 4 then
          thn (kwhen (Suc n < target) (upd (\<lambda>s. s\<lparr>in_r := in_r s - 1\<rparr>)))
          (consoleread_end ip (int target) (Suc n) acc)
        else if c = 0x0A then consoleread_end ip (int target) n (acc @ [c])
        else consoleread_loop ip target n (acc @ [c]))))"

definition consoleread :: "nat \<Rightarrow> u32 \<Rightarrow> (int \<times> u8 list, 'a cons_st_scheme) kop" where
  "consoleread ip n =
     thn (iunlock (Some ip))
     (thn (acquire LCons)
     (consoleread_loop ip (nat (sint n)) (nat (sint n)) []))"

definition consoleread_resume ::
  "bool \<Rightarrow> nat \<Rightarrow> nat \<Rightarrow> nat \<Rightarrow> nat \<Rightarrow> u8 list \<Rightarrow> (int \<times> u8 list, 'a cons_st_scheme) kop" where
  "consoleread_resume b me_p ip target n acc =
     thn (sleep_resume b me_p LCons) (consoleread_loop ip target n acc)"

definition consolewrite :: "nat \<Rightarrow> (nat \<Rightarrow> u8) \<Rightarrow> u32 \<Rightarrow> (int, 'a cons_st_scheme) kop" where
  "consolewrite ip buf n =
     thn (iunlock (Some ip))
     (thn (acquire LCons)
     (thn (kfor [0..<nat (sint n)] (\<lambda>i. consputc (uint (buf i))))
     (thn (release LCons)
     (thn (ilock (Some ip))
     (ret (sint n))))))"

text \<open>The device switch as \<open>consoleinit\<close> leaves it: the console is device 1.\<close>

definition devsw :: "'a cons_st_scheme devtab" where
  "devsw i = (if i = 1 then (Some consoleread, Some consolewrite) else (None, None))"

definition consoleinit :: "(unit, 'a cons_st_scheme) kop" where
  "consoleinit =
     thn (initlock LCons ''console'')
     (thn (upd (\<lambda>s. s\<lparr>cons_locking := True\<rparr>))
     (ioapicenable 1 0))"

definition ioapicinit :: "u8 \<Rightarrow> (unit, 'a cons_st_scheme) kop" where
  "ioapicinit ioapicid =
     bnd (ioapicread 1) (\<lambda>ver.
     bnd (ioapicread 0) (\<lambda>rid.
     thn (kwhen (drop_bit 24 rid \<noteq> ucast ioapicid)
        (cprintf (''ioapicinit: id isn'' @ [CHR 0x27] @ ''t equal to ioapicid; not a MP'' @ [CHR 0x0A]) []))
     (kfor [0..<Suc (unat (drop_bit 16 ver AND 0xFF))] (\<lambda>i.
        thn (ioapicwrite (0x10 + 2 * of_nat i) (0x00010000 OR (T_IRQ0 + of_nat i)))
        (ioapicwrite (0x10 + 2 * of_nat i + 1) 0)))))"

subsection \<open>The layers below\<close>

lemma cons_over_mach [simp]:
  "panicked (lock_on l s) = panicked s" "panicked (settle s) = panicked s" "panicked (cli_on s) = panicked s"
  "cons_locking (lock_on l s) = cons_locking s" "cons_locking (settle s) = cons_locking s" "cons_locking (cli_on s) = cons_locking s"
  "crt (lock_on l s) = crt s" "crt (settle s) = crt s" "crt (cli_on s) = crt s"
  "in_buf (lock_on l s) = in_buf s" "in_buf (settle s) = in_buf s" "in_buf (cli_on s) = in_buf s"
  "in_r (lock_on l s) = in_r s" "in_r (settle s) = in_r s" "in_r (cli_on s) = in_r s"
  "in_w (lock_on l s) = in_w s" "in_w (settle s) = in_w s" "in_w (cli_on s) = in_w s"
  "in_e (lock_on l s) = in_e s" "in_e (settle s) = in_e s" "in_e (cli_on s) = in_e s"
  by (simp_all add: mach_on_defs)

lemma cons_me [simp]:
  "me (s\<lparr>panicked := x0\<rparr>) = me s"
  "me (s\<lparr>cons_locking := x1\<rparr>) = me s"
  "me (s\<lparr>crt := x2\<rparr>) = me s"
  "me (s\<lparr>in_buf := x3\<rparr>) = me s"
  "me (s\<lparr>in_r := x4\<rparr>) = me s"
  "me (s\<lparr>in_w := x5\<rparr>) = me s"
  "me (s\<lparr>in_e := x6\<rparr>) = me s"
  by (simp_all add: me_def cpu_ix_def lapicid_def)

lemma cons_mach [simp]:
  "mach_ok (s\<lparr>panicked := x0\<rparr>) = mach_ok s" "lock_free l (s\<lparr>panicked := x0\<rparr>) = lock_free l s"
  "mach_ok (s\<lparr>cons_locking := x1\<rparr>) = mach_ok s" "lock_free l (s\<lparr>cons_locking := x1\<rparr>) = lock_free l s"
  "mach_ok (s\<lparr>crt := x2\<rparr>) = mach_ok s" "lock_free l (s\<lparr>crt := x2\<rparr>) = lock_free l s"
  "mach_ok (s\<lparr>in_buf := x3\<rparr>) = mach_ok s" "lock_free l (s\<lparr>in_buf := x3\<rparr>) = lock_free l s"
  "mach_ok (s\<lparr>in_r := x4\<rparr>) = mach_ok s" "lock_free l (s\<lparr>in_r := x4\<rparr>) = lock_free l s"
  "mach_ok (s\<lparr>in_w := x5\<rparr>) = mach_ok s" "lock_free l (s\<lparr>in_w := x5\<rparr>) = lock_free l s"
  "mach_ok (s\<lparr>in_e := x6\<rparr>) = mach_ok s" "lock_free l (s\<lparr>in_e := x6\<rparr>) = lock_free l s"
  by (simp_all add: mach_ok_def lock_free_def cpu_ix_def lapicid_def readeflags_IF_def)

lemma cons_upd_on [simp]:
  "(lock_on l s)\<lparr>panicked := x0\<rparr> = lock_on l (s\<lparr>panicked := x0\<rparr>)"
  "(settle s)\<lparr>panicked := x0\<rparr> = settle (s\<lparr>panicked := x0\<rparr>)"
  "(lock_on l s)\<lparr>cons_locking := x1\<rparr> = lock_on l (s\<lparr>cons_locking := x1\<rparr>)"
  "(settle s)\<lparr>cons_locking := x1\<rparr> = settle (s\<lparr>cons_locking := x1\<rparr>)"
  "(lock_on l s)\<lparr>crt := x2\<rparr> = lock_on l (s\<lparr>crt := x2\<rparr>)"
  "(settle s)\<lparr>crt := x2\<rparr> = settle (s\<lparr>crt := x2\<rparr>)"
  "(lock_on l s)\<lparr>in_buf := x3\<rparr> = lock_on l (s\<lparr>in_buf := x3\<rparr>)"
  "(settle s)\<lparr>in_buf := x3\<rparr> = settle (s\<lparr>in_buf := x3\<rparr>)"
  "(lock_on l s)\<lparr>in_r := x4\<rparr> = lock_on l (s\<lparr>in_r := x4\<rparr>)"
  "(settle s)\<lparr>in_r := x4\<rparr> = settle (s\<lparr>in_r := x4\<rparr>)"
  "(lock_on l s)\<lparr>in_w := x5\<rparr> = lock_on l (s\<lparr>in_w := x5\<rparr>)"
  "(settle s)\<lparr>in_w := x5\<rparr> = settle (s\<lparr>in_w := x5\<rparr>)"
  "(lock_on l s)\<lparr>in_e := x6\<rparr> = lock_on l (s\<lparr>in_e := x6\<rparr>)"
  "(settle s)\<lparr>in_e := x6\<rparr> = settle (s\<lparr>in_e := x6\<rparr>)"
  by (simp_all add: lock_on_def settle_def cli_on_def set_cpu_def cli_def readeflags_IF_def cong: if_cong)


lemma quiet_cons [simp]:
  "quiet (s\<lparr>panicked := x0\<rparr>) p = quiet s p" "quiet (s\<lparr>cons_locking := x1\<rparr>) p = quiet s p"
  "quiet (s\<lparr>crt := x2\<rparr>) p = quiet s p" "quiet (s\<lparr>in_buf := x3\<rparr>) p = quiet s p"
  "quiet (s\<lparr>in_r := x4\<rparr>) p = quiet s p" "quiet (s\<lparr>in_w := x5\<rparr>) p = quiet s p"
  "quiet (s\<lparr>in_e := x6\<rparr>) p = quiet s p"
  by (simp_all add: quiet_def)

subsection \<open>Output keeps to the screen\<close>

text \<open>The part of the state that output changes.\<close>

definition put_screen :: "(nat \<times> u8) list \<times> u8 \<times> u16 \<times> (nat \<Rightarrow> u16) \<Rightarrow> 'a cons_st_scheme \<Rightarrow> 'a cons_st_scheme" where
  "put_screen x s = (case x of (po, ix, cu, m) \<Rightarrow> s\<lparr>crt := m, port_out := po, crtc_ix := ix, crtc_cursor := cu\<rparr>)"

declare split_paired_Ex [simp del] split_paired_All [simp del]

definition cga_ok :: "'a cons_st_scheme \<Rightarrow> bool" where
  "cga_ok s \<longleftrightarrow> unat (crtc_cursor s) < 24 * 80"

lemma crtc_halves: "uint (crtc_read 14 c) * 256 + uint (crtc_read 15 c) = uint c"
proof -
  have "uint c < 65536" by (rule order_less_le_trans [OF unsigned_less]) simp
  then have "uint c div 256 < 256" by (simp add: div_less_iff_less_mult)
  then have "uint c div 256 mod 256 = uint c div 256" by (simp add: mod_pos_pos_trivial pos_imp_zdiv_nonneg_iff)
  moreover have "uint (ucast (drop_bit 8 c) :: u8) = uint c div 256 mod 256"
    by (simp add: unsigned_ucast_eq take_bit_eq_mod drop_bit_eq_div uint_div)
  moreover have "uint (ucast c :: u8) = uint c mod 256"
    by (simp add: unsigned_ucast_eq take_bit_eq_mod)
  ultimately show ?thesis by (simp add: crtc_read_def)
qed

lemma crtc_set:
  assumes "0 \<le> pos" and "pos < 65536"
  shows "crtc_write 15 (word_of_int pos) (crtc_write 14 (word_of_int (pos div 256)) c) = word_of_int pos"
proof (rule bit_word_eqI)
  fix n assume "n < LENGTH(16)"
  then have n: "n < 16" by simp
  have d: "bit (pos div 256) m = bit pos (m + 8)" for m
    using bit_drop_bit_eq [of 8 pos] by (simp add: drop_bit_eq_div add.commute fun_eq_iff)
  have m: "(0xFF00 :: u16) = push_bit 8 (mask 8)" "(0x00FF :: u16) = mask 8"
    by (simp_all add: mask_eq_exp_minus_1 push_bit_eq_mult)
  show "bit (crtc_write 15 (word_of_int pos) (crtc_write 14 (word_of_int (pos div 256)) c)) n = bit (word_of_int pos :: u16) n"
    using n d [of "n - 8"] by (auto simp: crtc_write_def m bit_simps)
qed

lemma inb_crtc: "inb (CRTPORT + 1) s = Ret (crtc_read (crtc_ix s) (crtc_cursor s)) s"
  by (simp add: inb_def kop)

lemma cga_advance_bounds:
  assumes "0 \<le> pos" and "pos < 24 * 80"
  shows "0 \<le> cga_advance c pos" and "cga_advance c pos \<le> 24 * 80"
proof -
  have "pos mod 80 < 80" "0 \<le> pos mod 80" by simp_all
  moreover have "pos + (80 - pos mod 80) = 80 * (pos div 80 + 1)"
    by (simp add: minus_mod_eq_mult_div [symmetric] algebra_simps)
  moreover have "pos div 80 < 24" using assms(2) by (simp add: div_less_iff_less_mult)
  ultimately show "0 \<le> cga_advance c pos" "cga_advance c pos \<le> 24 * 80"
    using assms by (auto simp: cga_advance_def)
qed

lemma screen_order [simp]:
  fixes s :: "'a cons_st_scheme"
  shows "s\<lparr>port_out := a\<rparr>\<lparr>crt := m\<rparr> = s\<lparr>crt := m\<rparr>\<lparr>port_out := a\<rparr>"
    and "s\<lparr>crtc_ix := b\<rparr>\<lparr>crt := m\<rparr> = s\<lparr>crt := m\<rparr>\<lparr>crtc_ix := b\<rparr>"
    and "s\<lparr>crtc_cursor := c\<rparr>\<lparr>crt := m\<rparr> = s\<lparr>crt := m\<rparr>\<lparr>crtc_cursor := c\<rparr>"
  by (simp_all add: cons_st.equality)

lemma outb_crtc:
  "outb CRTPORT v s = Ret () (s\<lparr>port_out := port_out s @ [(CRTPORT, v)], crtc_ix := v\<rparr>)"
  "outb (CRTPORT + 1) v s = Ret () (s\<lparr>port_out := port_out s @ [(CRTPORT + 1, v)],
     crtc_cursor := crtc_write (crtc_ix s) v (crtc_cursor s)\<rparr>)"
  by (simp_all add: outb_def kop)

lemma put_screen_twice [simp]: "put_screen x (put_screen y s) = put_screen x s"
  by (simp add: put_screen_def split: prod.splits)

lemma put_screen_crt: "\<exists>x. s\<lparr>crt := m\<rparr> = put_screen x s \<and> crtc_cursor (put_screen x s) = crtc_cursor s"
  by (rule exI [of _ "(port_out s, crtc_ix s, crtc_cursor s, m)"]) (simp add: put_screen_def)

lemma cga_getpos_ok:
  "\<exists>x. cga_getpos s = Ret (uint (crtc_cursor s)) (put_screen x s) \<and> crtc_cursor (put_screen x s) = crtc_cursor s"
  using crtc_halves [of "crtc_cursor s"]
  by (intro exI [of _ "(port_out s @ [(CRTPORT, 14), (CRTPORT, 15)], 15, crtc_cursor s, crt s)"])
    (simp add: cga_getpos_def kop outb_crtc inb_crtc [simplified] put_screen_def)

lemma cga_setpos_ok:
  assumes "0 \<le> pos" and "pos < 65536"
  shows "\<exists>x. cga_setpos pos s = Ret () (put_screen x s) \<and> crtc_cursor (put_screen x s) = word_of_int pos"
  using crtc_set [OF assms, of "crtc_cursor s"]
  by (intro exI [of _ "(port_out s @ [(CRTPORT, 14), (CRTPORT + 1, word_of_int (pos div 256)), (CRTPORT, 15),
       (CRTPORT + 1, word_of_int pos)], 15, word_of_int pos, crt s)"])
    (simp add: cga_setpos_def kop outb_crtc outb_crtc [simplified] put_screen_def)

lemma cgaputc_ok:
  assumes "cga_ok s"
  shows "\<exists>x. cgaputc c s = Ret () (put_screen x s) \<and> cga_ok (put_screen x s)"
proof -
  define pos where "pos = cga_advance c (uint (crtc_cursor s))"
  define pos' where "pos' = (if pos div 80 \<ge> 24 then pos - 80 else pos)"
  have "uint (crtc_cursor s) < 24 * 80" using assms uint_nat [of "crtc_cursor s"] unfolding cga_ok_def by linarith
  then have pos: "0 \<le> pos" "pos \<le> 24 * 80"
    using cga_advance_bounds [of "uint (crtc_cursor s)"] by (simp_all add: pos_def)
  then have pos': "0 \<le> pos'" "pos' < 24 * 80" by (auto simp: pos'_def)
  obtain x1 where g: "cga_getpos s = Ret (uint (crtc_cursor s)) (put_screen x1 s)"
    using cga_getpos_ok [of s] by blast
  have draw: "\<exists>x. kwhen b (upd (\<lambda>s. s\<lparr>crt := f (crt s)\<rparr>)) (put_screen y s) = Ret () (put_screen x s)" for b f y
    using put_screen_crt [where s = "put_screen y s" and m = "f (crt (put_screen y s))"] unfolding put_screen_twice
    by (cases b) (auto simp add: kwhen_def upd_def ret_def)
  from draw [of "c \<noteq> 0x0A \<and> c \<noteq> BACKSPACE"
      "\<lambda>m. m(unat (crtc_cursor s) := ucast (word_of_int c :: u8) OR 0x0700)" x1]
  obtain x2 where d: "kwhen (c \<noteq> 0x0A \<and> c \<noteq> BACKSPACE) (upd (\<lambda>t. t\<lparr>crt := (crt t)
      (unat (crtc_cursor s) := ucast (word_of_int c :: u8) OR 0x0700)\<rparr>)) (put_screen x1 s) = Ret () (put_screen x2 s)" ..
  from draw [of "pos div 80 \<ge> 24" "crt_scroll (nat pos')" x2]
  obtain x3 where sc: "kwhen (pos div 80 \<ge> 24) (upd (\<lambda>t. t\<lparr>crt := crt_scroll (nat pos') (crt t)\<rparr>)) (put_screen x2 s) =
      Ret () (put_screen x3 s)" ..
  obtain x4 where st: "cga_setpos pos' (put_screen x3 s) = Ret () (put_screen x4 s)"
      "crtc_cursor (put_screen x4 s) = word_of_int pos'"
    using cga_setpos_ok [of pos' "put_screen x3 s"] pos' by auto
  obtain x5 where e: "(put_screen x4 s)\<lparr>crt := (crt (put_screen x4 s))(nat pos' := 0x20 OR 0x0700)\<rparr> = put_screen x5 s"
      "crtc_cursor (put_screen x5 s) = word_of_int pos'"
    using put_screen_crt [where s = "put_screen x4 s" and m = "(crt (put_screen x4 s))(nat pos' := 0x20 OR 0x0700)"] st(2)
    unfolding put_screen_twice by auto
  have "cgaputc c s = Ret () (put_screen x5 s)"
    using pos unfolding cgaputc_def bnd_def thn_def g
    by (simp add: Let_def pos_def [symmetric] pos'_def [symmetric] d sc st(1) upd_def) (use e(1) in simp)
  moreover have "uint (word_of_int pos' :: u16) = pos'" using pos' by (simp add: uint_word_of_int)
  then have "unat (word_of_int pos' :: u16) < 24 * 80"
    using pos' uint_nat [of "word_of_int pos' :: u16"] by linarith
  ultimately show ?thesis using e(2) by (auto simp: cga_ok_def)
qed

lemma put_screen_fields [simp]:
  "in_buf (put_screen x s) = in_buf s" "in_r (put_screen x s) = in_r s" "in_w (put_screen x s) = in_w s"
  "in_e (put_screen x s) = in_e s" "panicked (put_screen x s) = panicked s" "cons_locking (put_screen x s) = cons_locking s"
  "uart (put_screen x s) = uart s" "uart_present (put_screen x s) = uart_present s" "uart_in (put_screen x s) = uart_in s"
  "kbd_in (put_screen x s) = kbd_in s" "kbd_shift (put_screen x s) = kbd_shift s" "procs (put_screen x s) = procs s"
  "mach_ok (put_screen x s) = mach_ok s" "lock_free l (put_screen x s) = lock_free l s" "quiet (put_screen x s) p = quiet s p"
  by (simp_all add: put_screen_def split: prod.splits)

lemma put_screen_on [simp]: "put_screen x (lock_on l s) = lock_on l (put_screen x s)"
  by (simp add: put_screen_def split: prod.splits)

lemma cga_ok_on [simp]: "cga_ok (lock_on l s) = cga_ok s" "cga_ok (settle s) = cga_ok s"
  by (simp_all add: cga_ok_def)

lemma put_screen_port: "\<exists>x. s\<lparr>port_out := po\<rparr> = put_screen x s \<and> crtc_cursor (put_screen x s) = crtc_cursor s"
  by (rule exI [of _ "(po, crtc_ix s, crtc_cursor s, crt s)"]) (simp add: put_screen_def)

lemma uart_wait_ok: "uart_wait n s = Ret () s"
  by (induction n) (simp_all add: kop inb_def)

lemma uartputc_ok:
  "\<exists>x. uartputc c s = Ret () (put_screen x s) \<and> crtc_cursor (put_screen x s) = crtc_cursor s"
proof (cases "uart s")
  case True
  then have "uartputc c s = Ret () (s\<lparr>port_out := port_out s @ [(COM1, c)]\<rparr>)"
    by (simp add: uartputc_def kop uart_wait_ok outb_def)
  then show ?thesis using put_screen_port [where s = s] by (metis (no_types))
next
  case False
  then have "uartputc c s = Ret () (s\<lparr>port_out := port_out s\<rparr>)" by (simp add: uartputc_def kop)
  then show ?thesis using put_screen_port [where s = s] by (metis (no_types))
qed

text \<open>
  A character never stops the kernel as long as the cursor is on the 24 rows that are used, and
  leaves the cursor there.
\<close>

lemma consputc_ok:
  fixes s :: "'a cons_st_scheme"
  assumes "cga_ok s" and "\<not> panicked s"
  shows "\<exists>x. consputc c s = Ret () (put_screen x s) \<and> cga_ok (put_screen x s)"
proof -
  have uart: "\<exists>x. m s = Ret () (put_screen x s) \<and> cga_ok (put_screen x s)"
    if "m = thn (uartputc 8) (thn (uartputc 0x20) (uartputc 8)) \<or> m = uartputc (word_of_int c)"
    for m :: "(unit, 'a cons_st_scheme) kop"
  proof -
    obtain x where x: "uartputc 8 s = Ret () (put_screen x s)" "crtc_cursor (put_screen x s) = crtc_cursor s"
      using uartputc_ok by blast
    obtain y where y: "uartputc 0x20 (put_screen x s) = Ret () (put_screen y s)" "crtc_cursor (put_screen y s) = crtc_cursor s"
      using uartputc_ok [of "0x20" "put_screen x s"] x by auto
    obtain z where z: "uartputc 8 (put_screen y s) = Ret () (put_screen z s)" "crtc_cursor (put_screen z s) = crtc_cursor s"
      using uartputc_ok [of 8 "put_screen y s"] y by auto
    obtain w where w: "uartputc (word_of_int c) s = Ret () (put_screen w s)" "crtc_cursor (put_screen w s) = crtc_cursor s"
      using uartputc_ok by blast
    show ?thesis using that x y z w assms(1) by (auto simp: kop cga_ok_def)
  qed
  define m :: "(unit, 'a cons_st_scheme) kop" where "m = (if c = BACKSPACE then thn (uartputc 8) (thn (uartputc 0x20) (uartputc 8)) else uartputc (word_of_int c))"
  obtain x where x: "m s = Ret () (put_screen x s)" "cga_ok (put_screen x s)"
    using uart [of m] unfolding m_def by (cases "c = BACKSPACE") auto
  then obtain y where "cgaputc c (put_screen x s) = Ret () (put_screen y s)" "cga_ok (put_screen y s)"
    using cgaputc_ok [of "put_screen x s" c] by auto
  with x assms(2) show ?thesis by (auto simp: consputc_def kop m_def [symmetric])
qed

lemma kputs_ok:
  assumes "cga_ok s" and "\<not> panicked s"
  shows "\<exists>x. kfor cs (\<lambda>c. consputc (f c)) s = Ret () (put_screen x s) \<and> cga_ok (put_screen x s)"
  using assms
proof (induction cs arbitrary: s)
  case Nil
  then show ?case
    by (intro exI [of _ "(port_out s, crtc_ix s, crtc_cursor s, crt s)"]) (simp add: ret_def put_screen_def cga_ok_def)
next
  case (Cons c cs)
  obtain x where x: "consputc (f c) s = Ret () (put_screen x s)" "cga_ok (put_screen x s)"
    using consputc_ok [OF Cons.prems, of "f c"] by blast
  obtain y where "kfor cs (\<lambda>c. consputc (f c)) (put_screen x s) = Ret () (put_screen y s)" "cga_ok (put_screen y s)"
    using Cons.IH [OF x(2)] Cons.prems(2) by auto
  with x show ?case by (intro exI [of _ y]) (simp add: kop)
qed

text \<open>A format and arguments that match: \<open>cprintf\<close> then returns.\<close>

fun fmt_ok :: "u8 list \<Rightarrow> carg list \<Rightarrow> bool" where
  "fmt_ok [] args = True"
| "fmt_ok [c] args = True"
| "fmt_ok (c # d # cs) args =
     (if c \<noteq> 0x25 then fmt_ok (d # cs) args
      else if d = 0x64 \<or> d = 0x78 \<or> d = 0x70 then (case args of CInt x # as \<Rightarrow> fmt_ok cs as | _ \<Rightarrow> False)
      else if d = 0x73 then (case args of CStr t # as \<Rightarrow> fmt_ok cs as | _ \<Rightarrow> False)
      else fmt_ok cs args)"

definition prints :: "(unit, 'a cons_st_scheme) kop \<Rightarrow> 'a cons_st_scheme \<Rightarrow> bool" where
  "prints m s \<longleftrightarrow> (\<exists>x. m s = Ret () (put_screen x s) \<and> cga_ok (put_screen x s))"

lemma prints_thn:
  assumes "prints m s" and "\<And>x. cga_ok (put_screen x s) \<Longrightarrow> prints k (put_screen x s)"
  shows "prints (thn m k) s"
proof -
  obtain x where x: "m s = Ret () (put_screen x s)" "cga_ok (put_screen x s)" using assms(1) by (auto simp: prints_def)
  obtain y where "k (put_screen x s) = Ret () (put_screen y s)" "cga_ok (put_screen y s)"
    using assms(2) [OF x(2)] by (auto simp: prints_def)
  with x show ?thesis by (auto simp: prints_def kop)
qed

lemma prints_ret: "cga_ok s \<Longrightarrow> prints (ret ()) s"
  unfolding prints_def
  by (intro exI [of _ "(port_out s, crtc_ix s, crtc_cursor s, crt s)"]) (simp add: ret_def put_screen_def cga_ok_def)

lemma prints_putc: "cga_ok s \<Longrightarrow> \<not> panicked s \<Longrightarrow> prints (consputc c) s"
  using consputc_ok [of s c] by (simp add: prints_def)

lemma cprintf_loop_ok: "fmt_ok fmt args \<Longrightarrow> cga_ok s \<Longrightarrow> \<not> panicked s \<Longrightarrow> prints (cprintf_loop fmt args) s"
proof (induction fmt args arbitrary: s rule: cprintf_loop.induct)
  case (3 c d cs args)
  have puts: "prints (kfor es (\<lambda>c. consputc (uint c))) u" if "cga_ok u" "\<not> panicked u" for es :: "u8 list" and u :: "'a cons_st_scheme"
    using kputs_ok [OF that] by (simp add: prints_def)
  show ?case
    using 3 by (auto intro!: prints_thn prints_putc puts simp: printint_def split: list.splits carg.splits if_splits)
qed (auto intro: prints_ret prints_putc)

lemma cprintf_ok:
  assumes "mach_ok s" and "lock_free LCons s" and "cga_ok s" and "\<not> panicked s" and "fmt_ok (map of_char fmt) args"
  shows "\<exists>x. cprintf fmt args s = Ret () (if cons_locking s then settle (put_screen x s) else put_screen x s) \<and>
     cga_ok (put_screen x s)"
proof (cases "cons_locking s")
  case True
  obtain x where "cprintf_loop (map of_char fmt) args (lock_on LCons s) = Ret () (put_screen x (lock_on LCons s))"
      "cga_ok (put_screen x (lock_on LCons s))"
    using cprintf_loop_ok [OF assms(5), of "lock_on LCons s"] assms(3,4) by (auto simp: prints_def)
  with True assms(1,2) show ?thesis by (intro exI [of _ x]) (simp add: cprintf_def kop acquire_ok release_on)
next
  case False
  obtain x where "cprintf_loop (map of_char fmt) args s = Ret () (put_screen x s)" "cga_ok (put_screen x s)"
    using cprintf_loop_ok [OF assms(5), of s] assms(3,4) by (auto simp: prints_def)
  with False show ?thesis by (intro exI [of _ x]) (simp add: cprintf_def kop)
qed

subsection \<open>The line editor\<close>

text \<open>
  What the input half of the console implements: the characters that are ready to be read, and the
  line being edited. \<open>edit_key\<close> is the effect of one key.
\<close>

interpretation input_ring: ring INPUT_BUF
  by unfold_locales simp_all

definition edit_key :: "int \<Rightarrow> u8 list \<times> u8 list \<Rightarrow> u8 list \<times> u8 list" where
  "edit_key c x = (case x of (ready, edit) \<Rightarrow>
     if c = 0x15 then (ready, rev (dropWhile (\<lambda>b. b \<noteq> 0x0A) (rev edit)))
     else if c = 8 \<or> c = 0x7F then (ready, butlast edit)
     else if c \<noteq> 0 \<and> length ready + length edit < INPUT_BUF then
       let d = (if c = 0x0D then 0x0A else c); line = edit @ [word_of_int d] in
       if d = 0x0A \<or> d = 4 \<or> length ready + length line = INPUT_BUF then (ready @ line, []) else (ready, line)
     else (ready, edit))"

definition lines :: "'a cons_st_scheme \<Rightarrow> u8 list \<times> u8 list" where
  "lines s = (ring_list INPUT_BUF (in_buf s) (in_r s) (in_w s), ring_list INPUT_BUF (in_buf s) (in_w s) (in_e s))"

definition input_ok :: "'a cons_st_scheme \<Rightarrow> bool" where
  "input_ok s \<longleftrightarrow> length (in_buf s) = INPUT_BUF \<and> unat (in_e s - in_r s) \<le> INPUT_BUF \<and>
     unat (in_w s - in_r s) + unat (in_e s - in_w s) = unat (in_e s - in_r s)"

text \<open>What the console handler needs of the machine, and what it leaves alone.\<close>

definition cons_ready :: "'a cons_st_scheme \<Rightarrow> bool" where
  "cons_ready s \<longleftrightarrow> mach_ok s \<and> (\<forall>l. lock_free l s) \<and> input_ok s \<and> cga_ok s \<and> \<not> panicked s"

definition same_input :: "'a cons_st_scheme \<Rightarrow> 'a cons_st_scheme \<Rightarrow> bool" where
  "same_input s t \<longleftrightarrow> kbd_in t = kbd_in s \<and> kbd_shift t = kbd_shift s \<and> uart t = uart s \<and>
     uart_present t = uart_present s \<and> uart_in t = uart_in s"

lemma cons_readyD:
  assumes "cons_ready s"
  shows "mach_ok s" and "lock_free l s" and "input_ok s" and "cga_ok s" and "\<not> panicked s"
  using assms by (simp_all add: cons_ready_def)

lemma cons_ready_screen: "cons_ready s \<Longrightarrow> cga_ok (put_screen x s) \<Longrightarrow> cons_ready (put_screen x s)"
  by (simp add: cons_ready_def input_ok_def)

lemma lines_screen [simp]: "lines (put_screen x s) = lines s" "same_input s (put_screen x t) = same_input s t"
  by (simp_all add: lines_def same_input_def)

lemma lines_erase:
  assumes "input_ok s" and "in_e s \<noteq> in_w s"
  shows "input_ok (s\<lparr>in_e := in_e s - 1\<rparr>)" and "lines (s\<lparr>in_e := in_e s - 1\<rparr>) = (fst (lines s), butlast (snd (lines s)))"
    and "last (snd (lines s)) = ring_get INPUT_BUF (in_buf s) (in_e s - 1)" and "snd (lines s) \<noteq> []"
proof -
  have ew: "unat (in_e s - in_w s) = Suc (unat (in_e s - 1 - in_w s))"
    using unat_diff_pred [OF assms(2)] by (simp add: algebra_simps)
  then have "in_e s \<noteq> in_r s" using assms(1) by (auto simp: input_ok_def)
  then have "unat (in_e s - in_r s) = Suc (unat (in_e s - 1 - in_r s))"
    using unat_diff_pred [of "in_e s" "in_r s"] by (simp add: algebra_simps)
  with ew assms(1) show "input_ok (s\<lparr>in_e := in_e s - 1\<rparr>)" by (simp add: input_ok_def)
  show "lines (s\<lparr>in_e := in_e s - 1\<rparr>) = (fst (lines s), butlast (snd (lines s)))"
    "last (snd (lines s)) = ring_get INPUT_BUF (in_buf s) (in_e s - 1)" "snd (lines s) \<noteq> []"
    using ring_list_last [OF assms(2), of 128 "in_buf s"] assms(2) by (simp_all add: lines_def)
qed

lemma lines_append:
  fixes s :: "'a cons_st_scheme" and c :: u8
  assumes "input_ok s" and "unat (in_e s - in_r s) < INPUT_BUF"
  defines "t \<equiv> s\<lparr>in_buf := ring_put INPUT_BUF (in_buf s) (in_e s) c, in_e := in_e s + 1\<rparr>"
  shows "input_ok t" and "lines t = (fst (lines s), snd (lines s) @ [c])"
proof -
  let ?b = "ring_put INPUT_BUF (in_buf s) (in_e s) c"
  have len: "length (in_buf s) = 128" and wn: "unat (in_e s - in_w s) < 128" "unat (in_w s - in_r s) + unat (in_e s - in_w s) = unat (in_e s - in_r s)"
    using assms(1,2) by (simp_all add: input_ok_def)
  have sizes: "unat (in_e s + 1 - in_r s) = Suc (unat (in_e s - in_r s))" "unat (in_e s + 1 - in_w s) = Suc (unat (in_e s - in_w s))"
    using unat_diff_Suc [OF assms(2)] unat_diff_Suc [OF wn(1)] by simp_all
  with wn assms(2) len show "input_ok t" by (simp add: input_ok_def t_def)
  have "ring_list 128 ?b (in_r s) (in_w s) @ ring_list 128 ?b (in_w s) (in_e s + 1) = ring_list 128 ?b (in_r s) (in_e s + 1)"
    using sizes wn by (intro ring_list_append [symmetric]) simp
  also have "\<dots> = ring_list 128 (in_buf s) (in_r s) (in_w s) @ (ring_list 128 (in_buf s) (in_w s) (in_e s) @ [c])"
    using input_ring.ring_list_put [OF len assms(2)] ring_list_append [OF wn(2)] by simp
  finally show "lines t = (fst (lines s), snd (lines s) @ [c])"
    by (simp add: lines_def t_def append_eq_append_conv)
qed

lemma lines_commit:
  assumes "input_ok s"
  shows "input_ok (s\<lparr>in_w := in_e s\<rparr>)" and "lines (s\<lparr>in_w := in_e s\<rparr>) = (fst (lines s) @ snd (lines s), [])"
  using assms by (simp_all add: input_ok_def lines_def ring_list_append)

lemma cons_putc:
  assumes "cons_ready s"
  shows "\<exists>x. consputc c (lock_on l s) = Ret () (lock_on l (put_screen x s)) \<and> cons_ready (put_screen x s)"
proof -
  obtain x where "consputc c (lock_on l s) = Ret () (put_screen x (lock_on l s))" "cga_ok (put_screen x s)"
    using consputc_ok [of "lock_on l s" c] cons_readyD [OF assms] by auto
  with cons_ready_screen [OF assms this(2)] show ?thesis by (intro exI [of _ x]) simp
qed

lemma kill_line_ok:
  assumes "cons_ready s" and "k = length (snd (lines s))"
  shows "\<exists>t. kill_line k (lock_on l s) = Ret () (lock_on l t) \<and> cons_ready t \<and> same_input s t \<and>
     lines t = (fst (lines s), rev (dropWhile (\<lambda>b. b \<noteq> 0x0A) (rev (snd (lines s)))))"
  using assms
proof (induction k arbitrary: s)
  case 0
  then show ?case by (intro exI [of _ s]) (simp add: ret_def same_input_def prod_eq_iff)
next
  case (Suc k)
  then have e: "in_e s \<noteq> in_w s" by (auto simp: lines_def)
  note er = lines_erase [OF cons_readyD(3) [OF Suc.prems(1)] e]
  define u where "u = s\<lparr>in_e := in_e s - 1\<rparr>"
  have u: "cons_ready u" "same_input s u" "k = length (snd (lines u))"
    using Suc.prems er(1,2) by (simp_all add: u_def cons_ready_def cga_ok_def same_input_def)
  have split: "rev (snd (lines s)) = last (snd (lines s)) # rev (butlast (snd (lines s)))"
    using append_butlast_last_id [OF er(4)] by (metis rev_eq_Cons_iff rev_rev_ident)
  show ?case
  proof (cases "last (snd (lines s)) = 0x0A")
    case True
    then have "kill_line (Suc k) (lock_on l s) = Ret () (lock_on l s)" using er(3) by (simp add: kop)
    moreover have "dropWhile (\<lambda>b. b \<noteq> 0x0A) (rev (snd (lines s))) = rev (snd (lines s))"
      using True by (simp add: split)
    ultimately show ?thesis using Suc.prems by (intro exI [of _ s]) (simp add: same_input_def)
  next
    case False
    obtain x where x: "consputc BACKSPACE (lock_on l u) = Ret () (lock_on l (put_screen x u))" "cons_ready (put_screen x u)"
      using cons_putc [OF u(1)] by blast
    obtain t where t: "kill_line k (lock_on l (put_screen x u)) = Ret () (lock_on l t)" "cons_ready t" "same_input (put_screen x u) t"
        "lines t = (fst (lines u), rev (dropWhile (\<lambda>b. b \<noteq> 0x0A) (rev (snd (lines u)))))"
      using Suc.IH [OF x(2)] u(3) by auto
    have "kill_line (Suc k) (lock_on l s) = Ret () (lock_on l t)"
      using False er(3) e x(1) t(1) by (simp add: kop u_def)
    moreover have "same_input s t" using t(3) u(2) by (simp add: same_input_def)
    moreover have "dropWhile (\<lambda>b. b \<noteq> 0x0A) (rev (snd (lines s))) = dropWhile (\<lambda>b. b \<noteq> 0x0A) (rev (butlast (snd (lines s))))"
      using False by (simp add: split)
    ultimately show ?thesis using t(2,4) er(2) by (intro exI [of _ t]) (simp add: u_def del: kill_line.simps)
  qed
qed

lemma console_char_ok:
  assumes "cons_ready s"
  shows "\<exists>t. console_char c (lock_on LCons s) = Ret () (lock_on LCons t) \<and> cons_ready t \<and> same_input s t \<and>
     lines t = (if c \<noteq> 0 \<and> length (fst (lines s)) + length (snd (lines s)) < INPUT_BUF then
       let d = (if c = 0x0D then 0x0A else c); line = snd (lines s) @ [word_of_int d] in
       if d = 0x0A \<or> d = 4 \<or> length (fst (lines s)) + length line = INPUT_BUF then (fst (lines s) @ line, []) else (fst (lines s), line)
     else lines s)"
proof -
  note r = cons_readyD [OF assms]
  have len: "length (fst (lines s)) + length (snd (lines s)) = unat (in_e s - in_r s)"
    using r(3) by (simp add: lines_def input_ok_def)
  show ?thesis
  proof (cases "c \<noteq> 0 \<and> unat (in_e s - in_r s) < 128")
    case False
    then show ?thesis using assms by (intro exI [of _ s]) (auto simp: console_char_def kop len same_input_def)
  next
    case True
    define d where "d = (if c = 0x0D then 0x0A else c)"
    define u where "u = s\<lparr>in_buf := ring_put INPUT_BUF (in_buf s) (in_e s) (word_of_int d), in_e := in_e s + 1\<rparr>"
    have l: "input_ok u" "lines u = (fst (lines s), snd (lines s) @ [word_of_int d])"
      using lines_append [OF r(3), of "word_of_int d"] True by (simp_all add: u_def)
    have u: "cons_ready u" "same_input s u" using assms l(1) by (simp_all add: u_def cons_ready_def cga_ok_def same_input_def)
    obtain x where x: "consputc d (lock_on LCons u) = Ret () (lock_on LCons (put_screen x u))" "cons_ready (put_screen x u)"
      using cons_putc [OF u(1)] by blast
    define full where "full \<longleftrightarrow> d = 0x0A \<or> d = 4 \<or> in_e u = in_r u + 128"
    have fulleq: "full \<longleftrightarrow> d = 0x0A \<or> d = 4 \<or> length (fst (lines s)) + length (snd (lines s) @ [word_of_int d :: u8]) = 128"
    proof -
      have "in_e u = in_r u + 128 \<longleftrightarrow> unat (in_e u - in_r u) = 128"
        using input_ring.full_iff [of "in_e u" "in_r u"] by simp
      moreover have "unat (in_e u - in_r u) = Suc (unat (in_e s - in_r s))"
        using True unat_diff_Suc [of "in_e s" "in_r s" 128] by (simp add: u_def)
      ultimately show ?thesis using len by (simp add: full_def)
    qed
    have run: "console_char c (lock_on LCons s) = kwhen full (thn (upd (\<lambda>s. s\<lparr>in_w := in_e s\<rparr>)) (wakeup ChInput)) (lock_on LCons (put_screen x u))"
      using True x(1) by (simp add: console_char_def kop Let_def d_def [symmetric] u_def [symmetric] full_def)
    define v where "v = (if full then (put_screen x u)\<lparr>in_w := in_e u, procs := woken ChInput (procs u)\<rparr> else put_screen x u)"
    have "console_char c (lock_on LCons s) = Ret () (lock_on LCons v)"
      using cons_readyD(1,2) [OF x(2)] unfolding run by (simp add: kop wakeup_ok mach_ok_lock_on v_def)
    moreover have "cons_ready v" "lines v = (if full then (fst (lines u) @ snd (lines u), []) else lines u)"
      using x(2) lines_commit [OF cons_readyD(3) [OF x(2)]] by (auto simp: v_def cons_ready_def cga_ok_def input_ok_def lines_def)
    moreover have "same_input s v" using u(2) by (simp add: v_def same_input_def)
    ultimately show ?thesis
      using True len l(2) unfolding fulleq by (intro exI [of _ v]) (auto simp: Let_def d_def [symmetric])
  qed
qed

lemma console_key_ok:
  fixes s :: "'a cons_st_scheme"
  assumes "cons_ready s"
  shows "\<exists>t. console_key c (lock_on LCons s) = Ret () (lock_on LCons t) \<and> cons_ready t \<and> same_input s t \<and>
     lines t = edit_key c (lines s)"
proof -
  obtain ready edit where x: "lines s = (ready, edit)" by force
  consider "c = 0x15" | "c = 8 \<or> c = 0x7F" | "c \<noteq> 0x15" "c \<noteq> 8" "c \<noteq> 0x7F" by blast
  then show ?thesis
  proof cases
    case 1
    have "length edit = unat (in_e s - in_w s)" using x by (auto simp: lines_def)
    with 1 kill_line_ok [OF assms refl, of LCons] x show ?thesis by (simp add: console_key_def kop edit_key_def)
  next
    case 2
    show ?thesis
    proof (cases "in_e s = in_w s")
      case True
      then have "edit = []" using x by (simp add: lines_def)
      with 2 True x assms show ?thesis
        by (intro exI [of _ s]) (auto simp: console_key_def kop edit_key_def same_input_def)
    next
      case False
      note er = lines_erase [OF cons_readyD(3) [OF assms] False]
      define u where "u = s\<lparr>in_e := in_e s - 1\<rparr>"
      have u: "cons_ready u" "same_input s u" using assms er(1) by (simp_all add: u_def cons_ready_def cga_ok_def same_input_def)
      obtain y where "consputc BACKSPACE (lock_on LCons u) = Ret () (lock_on LCons (put_screen y u))" "cons_ready (put_screen y u)"
        using cons_putc [OF u(1)] by blast
      with 2 False u x er(2) show ?thesis
        by (intro exI [of _ "put_screen y u"]) (auto simp: console_key_def kop edit_key_def u_def)
    qed
  next
    case 3
    then have k: "console_key c = (console_char c :: (unit, 'a cons_st_scheme) kop)" by (simp add: console_key_def)
    have e: "edit_key c (lines s) = (if c \<noteq> 0 \<and> length (fst (lines s)) + length (snd (lines s)) < INPUT_BUF then
       let d = (if c = 0x0D then 0x0A else c); line = snd (lines s) @ [word_of_int d] in
       if d = 0x0A \<or> d = 4 \<or> length (fst (lines s)) + length line = INPUT_BUF then (fst (lines s) @ line, []) else (fst (lines s), line)
       else lines s)"
      using 3 by (simp add: edit_key_def case_prod_beta)
    show ?thesis unfolding k e by (rule console_char_ok [OF assms])
  qed
qed

text \<open>
  What \<open>consoleintr\<close> relies on in a driver: \<open>pending\<close> are the characters it will deliver, \<open>eat\<close> its state
  change when it delivers one, \<open>good\<close> what it needs of its device.
\<close>

locale char_source =
  fixes getc :: "(int, 'a cons_st_scheme) kop"
    and pending :: "'a cons_st_scheme \<Rightarrow> int list"
    and eat :: "'a cons_st_scheme \<Rightarrow> 'a cons_st_scheme"
    and good :: "'a cons_st_scheme \<Rightarrow> bool"
  assumes none: "good s \<Longrightarrow> pending s = [] \<Longrightarrow> getc (lock_on LCons s) = Ret (-1) (lock_on LCons s)"
    and some: "good s \<Longrightarrow> pending s = c # cs \<Longrightarrow> getc (lock_on LCons s) = Ret c (lock_on LCons (eat s)) \<and>
       0 \<le> c \<and> pending (eat s) = cs \<and> good (eat s)"
    and ready: "cons_ready (eat s) = cons_ready s"
    and lines: "lines (eat s) = lines s"
    and same: "same_input s t \<Longrightarrow> pending t = pending s \<and> good t = good s"
begin

lemma loop_edits:
  assumes "cons_ready s" and "good s" and "0x10 \<notin> set (pending s)" and "length (pending s) < n"
  shows "\<exists>t. consoleintr_loop n getc b (lock_on LCons s) = Ret b (lock_on LCons t) \<and> cons_ready t \<and>
     pending t = [] \<and> lines t = fold edit_key (pending s) (lines s)"
  using assms
proof (induction "pending s" arbitrary: s n)
  case Nil
  then obtain m where "n = Suc m" by (cases n) auto
  with Nil none [of s] show ?case by (intro exI [of _ s]) (simp add: kop)
next
  case (Cons c cs)
  then obtain m where n: "n = Suc m" by (cases n) auto
  from some [OF Cons.prems(2) Cons.hyps(2) [symmetric]]
  have g: "getc (lock_on LCons s) = Ret c (lock_on LCons (eat s))" "0 \<le> c" "pending (eat s) = cs" "good (eat s)" by auto
  have "cons_ready (eat s)" using ready Cons.prems(1) by simp
  then obtain u where u: "console_key c (lock_on LCons (eat s)) = Ret () (lock_on LCons u)" "cons_ready u"
      "same_input (eat s) u" "lines u = edit_key c (lines s)"
    using console_key_ok [of "eat s" c] lines by auto
  have p: "pending u = cs" "good u" using same [OF u(3)] g by auto
  have c: "c \<noteq> 0x10" and rest: "0x10 \<notin> set cs" "length cs < m"
    using Cons.prems(3,4) Cons.hyps(2) [symmetric] n by auto
  obtain t where t: "consoleintr_loop m getc b (lock_on LCons u) = Ret b (lock_on LCons t)" "cons_ready t"
      "pending t = []" "lines t = fold edit_key cs (lines u)"
    using Cons.hyps(1) [of u m] u(2) p rest by auto
  have "consoleintr_loop n getc b (lock_on LCons s) = Ret b (lock_on LCons t)"
    using g(1,2) c u(1) t(1) by (simp add: n kop)
  then show ?case using t(2-4) u(4) Cons.hyps(2) [symmetric] by (intro exI [of _ t]) simp
qed

lemma intr_edits:
  assumes "cons_ready s" and "good s" and "0x10 \<notin> set (pending s)" and "length (pending s) < n"
  shows "\<exists>t. consoleintr n getc s = Ret () (settle t) \<and> cons_ready t \<and> pending t = [] \<and>
     lines t = fold edit_key (pending s) (lines s)"
proof -
  obtain t where t: "consoleintr_loop n getc False (lock_on LCons s) = Ret False (lock_on LCons t)" "cons_ready t"
      "pending t = []" "lines t = fold edit_key (pending s) (lines s)"
    using loop_edits [OF assms] by blast
  have "consoleintr n getc s = Ret () (settle t)"
    using t(1) cons_readyD [OF assms(1)] cons_readyD [OF t(2)] by (simp add: consoleintr_def kop acquire_ok release_on)
  with t show ?thesis by blast
qed

end

text \<open>The characters the keyboard driver makes of the scan codes that wait in the controller.\<close>

fun kbd_chars :: "u32 \<Rightarrow> u8 list \<Rightarrow> int list" where
  "kbd_chars shift [] = []"
| "kbd_chars shift (d # ds) = uint (snd (kbd_code shift d)) # kbd_chars (fst (kbd_code shift d)) ds"

definition kbd_eat :: "'a cons_st_scheme \<Rightarrow> 'a cons_st_scheme" where
  "kbd_eat s = s\<lparr>kbd_in := tl (kbd_in s), kbd_shift := fst (kbd_code (kbd_shift s) (hd (kbd_in s)))\<rparr>"

definition uart_eat :: "'a cons_st_scheme \<Rightarrow> 'a cons_st_scheme" where
  "uart_eat s = s\<lparr>uart_in := tl (uart_in s)\<rparr>"

lemma length_kbd_chars [simp]: "length (kbd_chars shift ds) = length ds"
  by (induction ds arbitrary: shift) simp_all

lemma uart_status [simp]: "(0x20 OR (if b then 0 else 1)) AND 0x01 = (0 :: u8) \<longleftrightarrow> b" "(0x21 :: u8) AND 1 \<noteq> 0"
  by simp_all

interpretation kbd: char_source kbdgetc "\<lambda>s. kbd_chars (kbd_shift s) (kbd_in s)" kbd_eat "\<lambda>_. True"
proof
  fix s t :: "'a cons_st_scheme" and c cs
  show "kbdgetc (lock_on LCons s) = Ret (-1) (lock_on LCons s)" if "kbd_chars (kbd_shift s) (kbd_in s) = []"
    using that by (cases "kbd_in s") (simp_all add: kbdgetc_def kop inb_def)
  show "kbdgetc (lock_on LCons s) = Ret c (lock_on LCons (kbd_eat s)) \<and> 0 \<le> c \<and>
      kbd_chars (kbd_shift (kbd_eat s)) (kbd_in (kbd_eat s)) = cs \<and> True"
    if "kbd_chars (kbd_shift s) (kbd_in s) = c # cs"
    using that by (cases "kbd_in s") (auto simp: kbdgetc_def kop inb_def kbd_eat_def split: prod.splits)
  show "cons_ready (kbd_eat s) = cons_ready s" "lines (kbd_eat s) = lines s"
    by (simp_all add: kbd_eat_def cons_ready_def input_ok_def cga_ok_def lines_def)
  show "kbd_chars (kbd_shift t) (kbd_in t) = kbd_chars (kbd_shift s) (kbd_in s) \<and> True = True" if "same_input s t"
    using that by (simp add: same_input_def)
qed

interpretation uart: char_source uartgetc "\<lambda>s. if uart s then map uint (uart_in s) else []" uart_eat
  "\<lambda>s. uart s \<longrightarrow> uart_present s"
proof
  fix s t :: "'a cons_st_scheme" and c cs
  show "uartgetc (lock_on LCons s) = Ret (-1) (lock_on LCons s)"
    if "uart s \<longrightarrow> uart_present s" "(if uart s then map uint (uart_in s) else []) = []"
    using that by (auto simp: uartgetc_def kop inb_def split: if_splits)
  show "uartgetc (lock_on LCons s) = Ret c (lock_on LCons (uart_eat s)) \<and> 0 \<le> c \<and>
      (if uart (uart_eat s) then map uint (uart_in (uart_eat s)) else []) = cs \<and> (uart (uart_eat s) \<longrightarrow> uart_present (uart_eat s))"
    if "uart s \<longrightarrow> uart_present s" "(if uart s then map uint (uart_in s) else []) = c # cs"
    using that by (cases "uart_in s") (auto simp: uartgetc_def kop inb_def uart_eat_def split: if_splits)
  show "cons_ready (uart_eat s) = cons_ready s" "lines (uart_eat s) = lines s"
    by (simp_all add: uart_eat_def cons_ready_def input_ok_def cga_ok_def lines_def)
  show "(if uart t then map uint (uart_in t) else []) = (if uart s then map uint (uart_in s) else []) \<and>
      (uart t \<longrightarrow> uart_present t) = (uart s \<longrightarrow> uart_present s)" if "same_input s t"
    using that by (simp add: same_input_def)
qed

text \<open>
  C26. The keyboard interrupt implements the line editor and always ends. It takes every scan code that
  waits in the controller, and afterwards the ready characters and the line under construction are
  what the editing keys make of them, one after the other: erase, kill line, and line end. The
  buffer never holds more than 128 characters and its indices may wrap. (Without control-P, which
  lists the processes.)
\<close>

theorem kbdintr_edits:
  assumes "cons_ready s" and "0x10 \<notin> set (kbd_chars (kbd_shift s) (kbd_in s))"
  shows "\<exists>t. kbdintr s = Ret () t \<and> kbd_in t = [] \<and> input_ok t \<and>
     lines t = fold edit_key (kbd_chars (kbd_shift s) (kbd_in s)) (lines s)"
proof -
  obtain t where t: "consoleintr (Suc (length (kbd_in s))) kbdgetc s = Ret () (settle t)" "cons_ready t"
      "kbd_chars (kbd_shift t) (kbd_in t) = []" "lines t = fold edit_key (kbd_chars (kbd_shift s) (kbd_in s)) (lines s)"
    using kbd.intr_edits [OF assms(1) _ assms(2), of "Suc (length (kbd_in s))"] by auto
  have "kbd_in t = []" using t(3) by (cases "kbd_in t") simp_all
  moreover have "input_ok (settle t)" "lines (settle t) = lines t"
    using cons_readyD(3) [OF t(2)] by (simp_all add: input_ok_def lines_def)
  ultimately show ?thesis using t by (intro exI [of _ "settle t"]) (simp add: kbdintr_def kop)
qed

text \<open>
  Console output stays on the screen: as long as the cursor register points into the 24 rows in
  use, printing any character, newline and backspace included, neither panics nor moves the cursor
  out of them.
\<close>

lemma consputc_on_screen:
  assumes "unat (crtc_cursor s) < 24 * 80" and "\<not> panicked s"
  shows "\<exists>t. consputc c s = Ret () t \<and> unat (crtc_cursor t) < 24 * 80"
  using consputc_ok [of s c] assms by (auto simp: cga_ok_def)

subsection \<open>A concrete console\<close>

text \<open>An empty console whose buffer indices are about to wrap, with the keys h, i and enter pressed.\<close>

definition cons0 :: "'a \<Rightarrow> 'a cons_st_scheme" where
  "cons0 x = pipe0 \<lparr>ftable = replicate 100 \<lparr>f_type = FD_NONE, f_ref = 0, f_readable = False, f_writable = False,
       f_pipe = 0, f_ip = 0, f_off = 0\<rparr>,
     port_out = [], crtc_ix = 0, crtc_cursor = 1919, uart = True, uart_present = True, uart_in = [],
     kbd_in = [0x23, 0x17, 0x1C], kbd_shift = 0, lapic = True, lapic_regs = (\<lambda>_ _. 0), ioapic_regs = (\<lambda>_. 0),
     panicked = False, cons_locking = True, crt = (\<lambda>_. 0), in_buf = replicate 128 0,
     in_r = 0xFFFFFFFF, in_w = 0xFFFFFFFF, in_e = 0xFFFFFFFF, \<dots> = x\<rparr>"

lemma cons0_fields [simp]:
  "kbd_in (cons0 x) = [0x23, 0x17, 0x1C]" "kbd_shift (cons0 x) = 0" "crtc_cursor (cons0 x) = 1919" "\<not> panicked (cons0 x)"
  "in_buf (cons0 x) = replicate 128 0" "in_r (cons0 x) = 0xFFFFFFFF" "in_w (cons0 x) = 0xFFFFFFFF" "in_e (cons0 x) = 0xFFFFFFFF"
  "quiet (cons0 x) 0" "procs (cons0 x) = table0" "ftable (cons0 x) = replicate 100 \<lparr>f_type = FD_NONE, f_ref = 0, f_readable = False,
     f_writable = False, f_pipe = 0, f_ip = 0, f_off = 0\<rparr>" "lapic (cons0 x)" "cons_locking (cons0 x)"
  by (simp_all add: cons0_def) (simp_all add: pipe0_def fs0_def bio0_def slock0_def proc0_def kmem0_def mach0_def)

lemma cons0_ready [simp]: "cons_ready (cons0 x)"
  using quietD [of "cons0 x" 0] by (simp add: cons_ready_def input_ok_def cga_ok_def)

lemma cons0_keys: "kbd_chars 0 [0x23, 0x17, 0x1C] = [0x68, 0x69, 0x0A]"
  by code_simp

theorem kbdintr_edits_witness:
  "\<exists>t. kbdintr (cons0 ()) = Ret () t \<and> kbd_in t = [] \<and> lines t = ([0x68, 0x69, 0x0A], [])"
proof -
  have "fold edit_key [0x68, 0x69, 0x0A] ([], []) = ([0x68, 0x69, 0x0A], [])" by (simp add: edit_key_def)
  moreover have "lines (cons0 ()) = ([], [])" by (simp add: lines_def)
  ultimately show ?thesis using kbdintr_edits [of "cons0 ()"] by (auto simp: cons0_keys simp del: kbd_chars.simps)
qed

lemma consputc_on_screen_example:
  "\<exists>t. consputc 0x0A (cons0 ()) = Ret () t \<and> unat (crtc_cursor t) < 24 * 80"
  using consputc_on_screen [of "cons0 ()" "0x0A"] by simp

end
