(* ===== verification/Usermem.thy ===== *)
theory Usermem
  imports Console
begin

section \<open>Page faults, user memory and system call arguments (trap.c, syscall.c)\<close>

text \<open>
  How the kernel reaches the memory of the running process: an access to a virtual address is
  translated by the page directory in the processor's page-table register. An access to an address
  without a (writable) entry is a page fault, which the trap handler services as in trap.c.
  \<open>lazy_fault\<close> and \<open>locality_fault\<close> are the page-fault cases of the two builds of \<open>trap\<close>; the Makefile
  selects the LAZY build, and user memory is accessed with it. They tell whether the handler returns
  directly or reaches the label \<open>bad\<close>. A kernel access whose page fault reaches \<open>bad\<close> is repeated and
  faults again until a page is freed; it ends with the outcome \<open>Spin\<close> on the allocator.

  System calls move data between user memory and the routines of the file layer before or after the
  call of the routine, not from within it.
\<close>

subsection \<open>Page faults\<close>

definition fault_bad :: "(bool, 'a proc_st_scheme) kop" where
  "fault_bad = bnd curproc (\<lambda>p. thn (set_proc p (\<lambda>q. q\<lparr>p_killed := True\<rparr>)) (ret False))"

definition lazy_fault :: "u32 \<Rightarrow> (bool, 'a cons_st_scheme) kop" where
  "lazy_fault faulting_virtual_address =
     bnd kalloc (\<lambda>m.
     if m = 0 then fault_bad else
     thn (zero_page m)
     (let va = PGROUNDDOWN faulting_virtual_address in
      bnd curproc (\<lambda>p.
      bnd (get_proc p) (\<lambda>q.
      thn (cprintf (''From Lazy Allocation : %s --- page fault occurred at 0x%x-page '' @ [CHR 0x0A]) [name_arg (p_name q), CInt va])
      (bnd curproc (\<lambda>p.
      bnd (get_proc p) (\<lambda>q.
      bnd (mappages (p_pgdir q) va PGSIZE (V2P m) (PTE_W OR PTE_U)) (\<lambda>r.
      if r < 0 then thn (kfree m) fault_bad
      else ret True))))))))"

fun locality_pages :: "u32 \<Rightarrow> nat list \<Rightarrow> (bool, 'a cons_st_scheme) kop" where
  "locality_pages start_addr [] = ret True"
| "locality_pages start_addr (i # is) =
     bnd kalloc (\<lambda>m.
     if m = 0 then fault_bad else
     thn (zero_page m)
     (let va = start_addr + of_nat i * PGSIZE in
      bnd curproc (\<lambda>p.
      bnd (get_proc p) (\<lambda>q.
      bnd (mappages (p_pgdir q) va PGSIZE (V2P m) (PTE_W OR PTE_U)) (\<lambda>r.
      if r < 0 then thn (kfree m) fault_bad
      else
        thn (cprintf (''Allocated page %d at virtual address: 0x%x'' @ [CHR 0x0A]) [CInt (of_nat i + 1), CInt va])
        (locality_pages start_addr is))))))"

definition locality_fault :: "u32 \<Rightarrow> (bool, 'a cons_st_scheme) kop" where
  "locality_fault faulting_virtual_address =
     bnd curproc (\<lambda>p.
     bnd (get_proc p) (\<lambda>q.
     thn (cprintf (''From Localilty Allocation : %s --- page fault occurred at  0x%x - page address'' @ [CHR 0x0A])
        [name_arg (p_name q), CInt faulting_virtual_address])
     (locality_pages (PGROUNDDOWN faulting_virtual_address) [0..<3])))"

subsection \<open>User memory\<close>

text \<open>The memory cell a virtual address stands for, if the access is allowed in kernel mode.\<close>

definition user_cell :: "'a kmem_st_scheme \<Rightarrow> u32 \<Rightarrow> bool \<Rightarrow> u32 option" where
  "user_cell s va write =
     (case translate (mem s) (P2V (r_cr3 (regs s (cur s)))) va of
        None \<Rightarrow> None
      | Some e \<Rightarrow> if write \<and> e AND PTE_W = 0 then None else Some (P2V (PTE_ADDR e) + va mod PGSIZE))"

definition uaddr :: "u32 \<Rightarrow> bool \<Rightarrow> (u32, 'a cons_st_scheme) kop" where
  "uaddr va write =
     bnd (gets (\<lambda>s. user_cell s va write)) (\<lambda>c.
     case c of Some a \<Rightarrow> ret a | None \<Rightarrow>
       bnd (lazy_fault va) (\<lambda>handled.
       bnd (gets (\<lambda>s. user_cell s va write)) (\<lambda>c.
       case c of Some a \<Rightarrow> ret a | None \<Rightarrow> (\<lambda>s. Spin LKmem s))))"

definition uread8 :: "u32 \<Rightarrow> (u8, 'a cons_st_scheme) kop" where
  "uread8 va = bnd (uaddr va False) (\<lambda>a. gets (\<lambda>s. mem s a))"

definition uwrite8 :: "u32 \<Rightarrow> u8 \<Rightarrow> (unit, 'a cons_st_scheme) kop" where
  "uwrite8 va b = bnd (uaddr va True) (\<lambda>a. upd (\<lambda>s. s\<lparr>mem := (mem s)(a := b)\<rparr>))"

fun uread :: "u32 \<Rightarrow> nat \<Rightarrow> (u8 list, 'a cons_st_scheme) kop" where
  "uread va 0 = ret []"
| "uread va (Suc n) = bnd (uread8 va) (\<lambda>b. bnd (uread (va + 1) n) (\<lambda>bs. ret (b # bs)))"

fun uwrite :: "u32 \<Rightarrow> u8 list \<Rightarrow> (unit, 'a cons_st_scheme) kop" where
  "uwrite va [] = ret ()"
| "uwrite va (b # bs) = thn (uwrite8 va b) (uwrite (va + 1) bs)"

definition uread32 :: "u32 \<Rightarrow> (u32, 'a cons_st_scheme) kop" where
  "uread32 va = bnd (uread va 4) (\<lambda>bs. ret (get32 bs 0))"

subsection \<open>The trap frame\<close>

text \<open>The trap frame of the current system call is in kernel memory; these are offsets of its fields.\<close>

abbreviation (input) TF_ebp :: u32 where "TF_ebp \<equiv> 8"
abbreviation (input) TF_eax :: u32 where "TF_eax \<equiv> 28"
abbreviation (input) TF_es :: u32 where "TF_es \<equiv> 40"
abbreviation (input) TF_ds :: u32 where "TF_ds \<equiv> 44"
abbreviation (input) TF_trapno :: u32 where "TF_trapno \<equiv> 48"
abbreviation (input) TF_err :: u32 where "TF_err \<equiv> 52"
abbreviation (input) TF_eip :: u32 where "TF_eip \<equiv> 56"
abbreviation (input) TF_cs :: u32 where "TF_cs \<equiv> 60"
abbreviation (input) TF_eflags :: u32 where "TF_eflags \<equiv> 64"
abbreviation (input) TF_esp :: u32 where "TF_esp \<equiv> 68"
abbreviation (input) TF_ss :: u32 where "TF_ss \<equiv> 72"

subsection \<open>System call arguments\<close>

text \<open>A result of \<open>None\<close> is the return value -1; \<open>Some\<close> carries what the source stores at the pointer.\<close>

definition fetchint :: "u32 \<Rightarrow> (u32 option, 'a cons_st_scheme) kop" where
  "fetchint addr =
     bnd curproc (\<lambda>p.
     bnd (get_proc p) (\<lambda>q.
     if addr \<ge> p_sz q \<or> addr + 4 > p_sz q then ret None
     else bnd (uread32 addr) (\<lambda>v. ret (Some v))))"

text \<open>The scan of \<open>fetchstr\<close> over the \<open>n\<close> bytes from \<open>s\<close> to the end of the process.\<close>

fun fetchstr_from :: "nat \<Rightarrow> u32 \<Rightarrow> (u8 list option, 'a cons_st_scheme) kop" where
  "fetchstr_from 0 s = ret None"
| "fetchstr_from (Suc n) s =
     bnd (uread8 s) (\<lambda>c.
     if c = 0 then ret (Some [])
     else bnd (fetchstr_from n (s + 1)) (\<lambda>r. ret (map_option (\<lambda>cs. c # cs) r)))"

definition fetchstr :: "u32 \<Rightarrow> (u8 list option, 'a cons_st_scheme) kop" where
  "fetchstr addr =
     bnd curproc (\<lambda>p.
     bnd (get_proc p) (\<lambda>q.
     if addr \<ge> p_sz q then ret None
     else fetchstr_from (unat (p_sz q - addr)) addr))"

definition argint :: "u32 \<Rightarrow> (u32 option, 'a cons_st_scheme) kop" where
  "argint n =
     bnd curproc (\<lambda>p.
     bnd (get_proc p) (\<lambda>q.
     bnd (ld32 (p_tf q + TF_esp)) (\<lambda>esp.
     fetchint (esp + 4 + 4 * n))))"

definition argptr :: "u32 \<Rightarrow> u32 \<Rightarrow> (u32 option, 'a cons_st_scheme) kop" where
  "argptr n sz =
     bnd curproc (\<lambda>p.
     bnd (argint n) (\<lambda>r.
     case r of None \<Rightarrow> ret None | Some i \<Rightarrow>
     bnd (get_proc p) (\<lambda>q.
     if sint sz < 0 \<or> i \<ge> p_sz q \<or> i + sz > p_sz q then ret None
     else ret (Some i))))"

definition argstr :: "u32 \<Rightarrow> (u8 list option, 'a cons_st_scheme) kop" where
  "argstr n = bnd (argint n) (\<lambda>r. case r of None \<Rightarrow> ret None | Some addr \<Rightarrow> fetchstr addr)"

subsection \<open>What the page fault handlers do\<close>

lemma quiet_kmem [simp]:
  "quiet (s\<lparr>mem := x\<rparr>) p = quiet s p" "quiet (s\<lparr>freelist := y\<rparr>) p = quiet s p"
  "quiet s p \<Longrightarrow> quiet (kdone s) p"
  by (simp_all add: quiet_def kdone_def mach_ok_settle)

lemma quiet_ready: "quiet s p \<Longrightarrow> kmem_ready s"
  using quietD [of s p] by (simp add: kmem_ready_def)

lemma put_screen_kmem [simp]:
  "mem (put_screen x s) = mem s" "freelist (put_screen x s) = freelist s" "kend (put_screen x s) = kend s"
  by (simp_all add: put_screen_def split: prod.splits)

lemma kdone_layers [simp]:
  "mem (kdone s) = mem s" "freelist (kdone s) = freelist s" "kend (kdone s) = kend s" "procs (kdone s) = procs s"
  "crtc_cursor (kdone s) = crtc_cursor s" "panicked (kdone s) = panicked s"
  by (simp_all add: kdone_def)

text \<open>Clearing the first free page keeps the page tables and the rest of the free list.\<close>

lemma zero_free_page:
  assumes fr: "free_pages s (q # ps)" and wf: "pt_wf (mem s) d (q # ps)"
  defines "m \<equiv> memset (mem s) q 0 PGSIZE"
  shows "free_pages (s\<lparr>freelist := load32 (mem s) q, mem := m\<rparr>) ps" and "pt_wf m d ps" and "translate m d = translate (mem s) d"
proof -
  have q: "page_aligned q" "q \<notin> set ps" and dq: "page_aligned d" "d \<noteq> q" "d \<notin> set ps"
    using fr wf by (auto simp: free_pages_def page_ok_def pt_wf_def)
  have same: "m b = mem s b" if "PGROUNDDOWN b \<noteq> q" for b
    using that q by (simp add: m_def memset_page)
  have "free_pages (s\<lparr>freelist := load32 (mem s) q\<rparr>) ps" using fr by (simp add: free_pages_def)
  from free_pages_other_mem [OF this, of m] show "free_pages (s\<lparr>freelist := load32 (mem s) q, mem := m\<rparr>) ps"
    using same q by fastforce
  have pde: "pde_of m d i = pde_of (mem s) d i" if "i < 1024" for i
    using that dq same by (intro pde_of_cong) auto
  then have tab: "table_of m d i = table_of (mem s) d i" if "i < 1024" for i
    using that by (simp add: table_of_def)
  show "pt_wf m d ps" using wf dq unfolding pt_wf_def by (auto simp: pde tab)
  show "translate m d = translate (mem s) d"
  proof
    fix va
    have "load32 m (table_of (mem s) d (PDX va) + 4 * PTX va) = load32 (mem s) (table_of (mem s) d (PDX va) + 4 * PTX va)"
      if "present (pde_of (mem s) d (PDX va))"
      using that wf same by (intro load32_page_cong) (auto simp: entry_word entry_page PTX_less PDX_less pt_wf_def)
    then show "translate m d va = translate (mem s) d va"
      by (simp add: translate_def Let_def pde tab PDX_less)
  qed
qed

text \<open>What a handler needs: process \<open>p\<close> runs with page directory \<open>d\<close>, and \<open>ps\<close> are the free pages.\<close>

definition fault_ready :: "'a cons_st_scheme \<Rightarrow> nat \<Rightarrow> u32 \<Rightarrow> u32 list \<Rightarrow> bool" where
  "fault_ready s p d ps \<longleftrightarrow> quiet s p \<and> cga_ok s \<and> \<not> panicked s \<and> p_pgdir (procs s ! p) = d \<and>
     free_pages s ps \<and> pt_wf (mem s) d ps"

lemma fault_readyD:
  assumes "fault_ready s p d ps"
  shows "quiet s p" and "cga_ok s" and "\<not> panicked s" and "p_pgdir (procs s ! p) = d" and "free_pages s ps" and "pt_wf (mem s) d ps"
  using assms by (simp_all add: fault_ready_def)

lemma fault_alloc:
  assumes "fault_ready s p d (q # ps)"
  shows "\<exists>u. thn kalloc (zero_page q) s = Ret () u \<and> kalloc s = Ret q (kdone (s\<lparr>freelist := load32 (mem s) q\<rparr>)) \<and> q \<noteq> 0 \<and>
     fault_ready u p d ps \<and> translate (mem u) d = translate (mem s) d \<and> procs u = procs s"
proof -
  note r = fault_readyD [OF assms]
  have q: "freelist s = q" "q \<noteq> 0" using r(5) by (auto simp: free_pages_def)
  define m where "m = memset (mem s) q 0 PGSIZE"
  define u where "u = (kdone (s\<lparr>freelist := load32 (mem s) q\<rparr>))\<lparr>mem := m\<rparr>"
  have k: "kalloc s = Ret q (kdone (s\<lparr>freelist := load32 (mem s) q\<rparr>))"
    using quiet_ready [OF r(1)] q by (simp add: kalloc_ok)
  note z = zero_free_page [OF r(5,6), folded m_def]
  have "free_pages u ps" using z(1) by (simp add: u_def free_pages_def)
  moreover have "quiet u p" using r(1) by (simp add: u_def)
  ultimately have "fault_ready u p d ps"
    using z(2) r(2-4) by (simp add: fault_ready_def u_def cga_ok_def)
  moreover have "thn kalloc (zero_page q) s = Ret () u" by (simp add: kop k zero_page_def u_def m_def)
  ultimately show ?thesis using k q(2) z(3) by (intro exI [of _ u]) (simp add: u_def)
qed

lemma fault_prints:
  assumes "fault_ready s p d ps" and "fmt_ok (map of_char fmt) args"
  shows "\<exists>t. cprintf fmt args s = Ret () t \<and> fault_ready t p d ps \<and> mem t = mem s \<and> procs t = procs s"
proof -
  note r = fault_readyD [OF assms(1)]
  obtain x where x: "cprintf fmt args s = Ret () (if cons_locking s then settle (put_screen x s) else put_screen x s)"
      "cga_ok (put_screen x s)"
    using cprintf_ok [OF _ _ r(2,3) assms(2)] quietD [OF r(1)] by auto
  let ?t = "if cons_locking s then settle (put_screen x s) else put_screen x s"
  have "fault_ready ?t p d ps" using r x(2) by (simp add: fault_ready_def free_pages_def)
  with x show ?thesis by (intro exI [of _ ?t]) simp
qed

lemma fault_curproc: "fault_ready s p d ps \<Longrightarrow> curproc s = Ret p (settle s) \<and> fault_ready (settle s) p d ps"
  using quietD [of s p] by (simp add: fault_ready_def curproc_ok free_pages_def)

lemma fmt_lazy: "fmt_ok (map of_char (''From Lazy Allocation : %s --- page fault occurred at 0x%x-page '' @ [CHR 0x0A])) [name_arg n, CInt v]"
  by (simp add: name_arg_def)

lemma fmt_locality:
  "fmt_ok (map of_char (''From Localilty Allocation : %s --- page fault occurred at  0x%x - page address'' @ [CHR 0x0A])) [name_arg n, CInt v]"
  "fmt_ok (map of_char (''Allocated page %d at virtual address: 0x%x'' @ [CHR 0x0A])) [CInt v, CInt w]"
  by (simp_all add: name_arg_def)

lemma lazy_fault_run:
  assumes "fault_ready s p d (q # ps)"
  shows "\<exists>u. lazy_fault va s = bnd (mappages d (PGROUNDDOWN va) PGSIZE (V2P q) (PTE_W OR PTE_U))
       (\<lambda>r. if r < 0 then thn (kfree q) fault_bad else ret True) u \<and>
     fault_ready u p d ps \<and> translate (mem u) d = translate (mem s) d \<and> procs u = procs s"
proof -
  obtain u1 where u1: "thn kalloc (zero_page q) s = Ret () u1" "kalloc s = Ret q (kdone (s\<lparr>freelist := load32 (mem s) q\<rparr>))" "q \<noteq> 0"
      "fault_ready u1 p d ps" "translate (mem u1) d = translate (mem s) d" "procs u1 = procs s"
    using fault_alloc [OF assms] by blast
  note c1 = fault_curproc [OF u1(4)]
  obtain u2 where u2: "cprintf (''From Lazy Allocation : %s --- page fault occurred at 0x%x-page '' @ [CHR 0x0A])
        [name_arg (p_name (procs s ! p)), CInt (PGROUNDDOWN va)] (settle u1) = Ret () u2"
      "fault_ready u2 p d ps" "mem u2 = mem u1" "procs u2 = procs s"
    using fault_prints [OF _ fmt_lazy, of "settle u1" p d ps "p_name (procs s ! p)" "PGROUNDDOWN va"] c1 u1(6) by auto
  note c2 = fault_curproc [OF u2(2)]
  have z: "zero_page q (kdone (s\<lparr>freelist := load32 (mem s) q\<rparr>)) = Ret () u1" using u1(1,2) by (simp add: kop)
  have "lazy_fault va s = bnd (mappages d (PGROUNDDOWN va) PGSIZE (V2P q) (PTE_W OR PTE_U))
       (\<lambda>r. if r < 0 then thn (kfree q) fault_bad else ret True) (settle u2)"
    using u1(2,3,6) c1 u2(1,4) c2 z fault_readyD(4) [OF c2 [THEN conjunct2]]
    unfolding lazy_fault_def bnd_def thn_def get_proc_def gets_def Let_def by simp
  then show ?thesis using c2 u2 u1(5) by (intro exI [of _ "settle u2"]) simp
qed

text \<open>
  A page fault on a page that is already mapped stops the kernel. The LAZY handler does not look
  at the cause of the fault: for a user access to kernel memory, to the guard page below the stack,
  or any other page that is present, it tries to map a new page over it and panics.
\<close>

lemma lazy_fault_on_mapped_page:
  assumes "fault_ready s p d (q # ps)" and "translate (mem s) d va = Some e"
  shows "lazy_fault va s = Panic ''remap''"
proof -
  obtain u where u: "lazy_fault va s = bnd (mappages d (PGROUNDDOWN va) PGSIZE (V2P q) (PTE_W OR PTE_U))
       (\<lambda>r. if r < 0 then thn (kfree q) fault_bad else ret True) u"
      "fault_ready u p d ps" "translate (mem u) d = translate (mem s) d"
    using lazy_fault_run [OF assms(1)] by blast
  have "PDX (PGROUNDDOWN va) = PDX va" "PTX (PGROUNDDOWN va) = PTX va"
    using page_index [of "PGROUNDDOWN va" va] by simp_all
  then have "translate (mem s) d (PGROUNDDOWN va) = translate (mem s) d va" by (simp only: translate_def)
  then have "translate (mem u) d (PGROUNDDOWN va) = Some e" using assms(2) u(3) by simp
  then show ?thesis
    unfolding u(1) using mappages_remap [OF _ fault_readyD(6) [OF u(2)]] by (simp add: bnd_def)
qed


subsection \<open>Fetching arguments\<close>

lemma user_cell_settle [simp]: "user_cell (settle s) va w = user_cell s va w"
  by (simp add: user_cell_def settle_def set_cpu_def)

lemma uread8_ok: "user_cell s va False = Some a \<Longrightarrow> uread8 va s = Ret (mem s a) s"
  by (simp add: uread8_def uaddr_def kop)

lemma uread32_ok:
  assumes "\<forall>j < 4. user_cell s (va + of_nat j) False = Some (a + of_nat j)"
  shows "uread32 va s = Ret (load32 (mem s) a) s"
proof -
  have "user_cell s va False = Some a" "user_cell s (va + 1) False = Some (a + 1)"
      "user_cell s (va + 2) False = Some (a + 2)" "user_cell s (va + 3) False = Some (a + 3)"
    using assms [rule_format, of 0] assms [rule_format, of 1] assms [rule_format, of 2] assms [rule_format, of 3] by simp_all
  then show ?thesis
    by (simp add: uread32_def numeral_eq_Suc uread8_ok kop get32_def load32_def add.commute)
qed

text \<open>The kernel address of the argument of the current system call.\<close>

definition arg_addr :: "'a proc_st_scheme \<Rightarrow> nat \<Rightarrow> u32 \<Rightarrow> u32" where
  "arg_addr s p n = load32 (mem s) (p_tf (procs s ! p) + TF_esp) + 4 + 4 * n"

lemma argint_ok:
  assumes "quiet s p" and "arg_addr s p n < p_sz (procs s ! p)" and "arg_addr s p n + 4 \<le> p_sz (procs s ! p)"
    and "\<forall>j < 4. user_cell s (arg_addr s p n + of_nat j) False = Some (a + of_nat j)"
  shows "argint n s = Ret (Some (load32 (mem s) a)) (settle s)"
proof -
  note ok = quietD [OF assms(1)] quietD [OF quiet_settle [OF assms(1)]]
  have "uread32 (arg_addr s p n) (settle s) = Ret (load32 (mem s) a) (settle s)"
    using assms(4) uread32_ok [of "settle s"] by simp
  then show ?thesis
    using ok assms(2,3) by (simp add: argint_def fetchint_def kop curproc_ok get_proc_def ld32_def arg_addr_def not_le not_less)
qed

lemma sint_nonneg_small: "0 \<le> sint (n :: u32) \<Longrightarrow> unat n < 2 ^ 31"
proof (rule ccontr)
  assume "0 \<le> sint n" and big: "\<not> unat n < 2 ^ 31"
  then have "\<not> bit n 31" using bit_last_iff [of n] by simp
  have "0x80000000 \<le> n" using big by (simp add: word_le_nat_alt)
  then have n: "2 ^ 31 \<le> uint n" "uint n < 2 ^ 32" using uint_lt2p [of n] by (simp_all add: word_le_def)
  have "even (uint n div 2 ^ 31)" using \<open>\<not> bit n 31\<close> bit_uint_iff [of n 31] by (simp add: bit_iff_odd)
  moreover have "(uint n - 2 ^ 31) div 2 ^ 31 = 0" using n by (intro div_pos_pos_trivial) simp_all
  ultimately show False using n div_pos_geq [of "2 ^ 31" "uint n"] by simp
qed

lemma argptr_run:
  assumes "argptr k n s = Ret (Some i) t" and "curproc s = Ret p u"
  shows "0 \<le> sint n" and "i < p_sz (procs t ! p)" and "i + n \<le> p_sz (procs t ! p)"
  using assms
  by (auto simp: argptr_def kop get_proc_def bnd_eq_Ret split: outcome.splits option.splits if_splits)

lemma curproc_quiet: "quiet s p \<Longrightarrow> curproc s = Ret p (settle s)"
  by (rule curproc_ok) (simp_all add: quietD(1,4))

lemma argint_settle: "quiet s p \<Longrightarrow> argint n (settle s) = argint n s"
  using curproc_quiet [of s p] curproc_quiet [of "settle s" p] by (simp add: argint_def kop quietD)

text \<open>
  C30. A buffer that a system call accepts lies inside the process: if \<open>argptr\<close> returns a pointer and
  the size of the process does not exceed the start of the kernel, the \<open>n\<close> bytes at the pointer end
  within the process, without wrapping around the end of the address space.
\<close>

theorem argptr_in_process:
  assumes "argptr k n s = Ret (Some i) t" and "curproc s = Ret p u" and "p_sz (procs t ! p) \<le> KERNBASE"
  shows "unat i + unat n \<le> unat (p_sz (procs t ! p))"
proof -
  note r = argptr_run [OF assms(1,2)]
  have "unat n < 2 ^ 31" using r(1) by (rule sint_nonneg_small)
  moreover have "unat i < 2 ^ 31" "unat (i + n) \<le> unat (p_sz (procs t ! p))"
    using r(2,3) assms(3) by (simp_all add: word_less_nat_alt word_le_nat_alt)
  ultimately show ?thesis by (simp add: unat_word_ariths)
qed

subsection \<open>A concrete process\<close>

text \<open>The running process has an empty page directory; in the second state its first page is mapped.\<close>

definition user0 :: "'a \<Rightarrow> 'a cons_st_scheme" where
  "user0 x = (cons0 x)\<lparr>procs := list_upd table0 0 (\<lambda>q. q\<lparr>p_pgdir := 0x80500000\<rparr>)\<rparr>"

definition mem1 :: bytemem where
  "mem1 = store32 (new_table (mem (kmem0 ())) 0x80500000 0 0x80600000) 0x80600000 0x700007"

definition user1 :: "'a \<Rightarrow> 'a cons_st_scheme" where
  "user1 x = (user0 x)\<lparr>mem := mem1\<rparr>"

lemma user0_kmem: "mem (user0 x) = mem (kmem0 ())" "freelist (user0 x) = freelist (kmem0 ())" "kend (user0 x) = kend (kmem0 ())"
  by (simp_all add: user0_def cons0_def pipe0_def fs0_def bio0_def slock0_def proc0_def kmem0_def mach0_def)

lemma user0_ready: "fault_ready (user0 x) 0 0x80500000 [0x80400000, 0x80401000]"
proof -
  have "free_pages (kmem0 ()) [0x80400000, 0x80401000]" by simp
  then have "free_pages (user0 x) [0x80400000, 0x80401000]" by (simp add: free_pages_def user0_kmem)
  moreover have "quiet (user0 x) 0" by (simp add: user0_def quiet_procs)
  moreover have "p_pgdir (procs (user0 x) ! 0) = 0x80500000" by (simp add: user0_def list_upd_def table0_def)
  moreover have "cga_ok (user0 x)" "\<not> panicked (user0 x)" by (simp_all add: user0_def cga_ok_def)
  ultimately show ?thesis by (simp add: fault_ready_def user0_kmem)
qed


lemma user1_ready: "fault_ready (user1 x) 0 0x80500000 [0x80400000, 0x80401000]"
    and user1_maps: "translate (mem (user1 x)) 0x80500000 0 = Some 0x700007"
proof -
  let ?base = "mem (kmem0 ())"
  let ?m = "new_table ?base 0x80500000 0 0x80600000"
  have "pt_wf ?base 0x80500000 [0x80600000, 0x80400000, 0x80401000]"
    by (simp add: pt_wf_def kmem0_pgdir present_def page_aligned_def)
  moreover have "\<not> present (pde_of ?base 0x80500000 (PDX 0))"
    by (simp add: kmem0_pgdir present_def PDX_less)
  ultimately have m: "pt_wf ?m 0x80500000 [0x80400000, 0x80401000]" "table_of ?m 0x80500000 (PDX 0) = 0x80600000"
      "present (pde_of ?m 0x80500000 (PDX 0))"
    using pt_wf_new_table [of ?base "0x80500000" "0x80600000" "[0x80400000, 0x80401000]" 0]
    by (simp_all add: page_aligned_def)
  have p: "PTX 0 = 0" by (simp add: PTX_def)
  have wf: "pt_wf mem1 0x80500000 [0x80400000, 0x80401000]"
    using pt_wf_store_entry [OF m(1,3) PDX_less PTX_less, of 0 "0x700007"] m(2) p by (simp add: mem1_def)
  show "translate (mem (user1 x)) 0x80500000 0 = Some 0x700007"
    using translate_store_entry [OF m(1,3), of "0x700007" 0] m(2) p by (simp add: user1_def mem1_def present_def)
  have "mem1 b = ?base b" if "PGROUNDDOWN b \<in> {0x80400000, 0x80401000}" for b
  proof -
    have "mem1 b = ?m b"
      using that unfolding mem1_def by (intro store32_other_page) (auto simp: word_aligned_def PGROUNDDOWN_def)
    also have "\<dots> = ?base b" using that by (intro new_table_other) (auto simp: page_aligned_def)
    finally show ?thesis .
  qed
  then have "free_pages ((user0 x)\<lparr>mem := mem1\<rparr>) [0x80400000, 0x80401000]"
    using fault_readyD(5) [OF user0_ready] by (intro free_pages_other_mem) (auto simp: user0_kmem)
  with wf show "fault_ready (user1 x) 0 0x80500000 [0x80400000, 0x80401000]"
    using fault_readyD [OF user0_ready [of x]] by (simp add: fault_ready_def user1_def cga_ok_def)
qed

lemma lazy_fault_on_mapped_page_example: "lazy_fault 0 (user1 ()) = Panic ''remap''"
  using lazy_fault_on_mapped_page [OF user1_ready user1_maps] .

text \<open>
  A process of one page in a system call or interrupt: its page is at 0x80700000, its trap frame at
  0x80300000, its stack pointer 0x100; the first two arguments are 0x90000000 and 0xF00. The number in
  the trap frame is that of the clock interrupt; interrupts are off.
\<close>

definition mem2 :: bytemem where
  "mem2 = store32 (store32 (store32 (store32 (store32 (store32 (\<lambda>_. 0)
     0x80500000 0x600007) 0x80600000 0x700007) 0x80300030 32) 0x80300044 0x100) 0x80700104 0x90000000) 0x80700108 0xF00"

definition user2 :: "'a \<Rightarrow> 'a cons_st_scheme" where
  "user2 x = (cons0 x)\<lparr>mem := mem2, regs := (\<lambda>_. \<lparr>r_lapicid = 0, r_if = False, r_cr3 = 0x500000\<rparr>),
     procs := list_upd table0 0 (\<lambda>q. q\<lparr>p_sz := 0x1000, p_tf := 0x80300000\<rparr>)\<rparr>"

lemma user2_fields [simp]:
  "mem (user2 x) = mem2" "procs (user2 x) = list_upd table0 0 (\<lambda>q. q\<lparr>p_sz := 0x1000, p_tf := 0x80300000\<rparr>)"
  "\<not> readeflags_IF (user2 x)" "me (user2 x) = 0" "r_cr3 (regs (user2 x) (cur (user2 x))) = 0x500000"
  "quiet (user2 x) 0"
  by (simp_all add: user2_def readeflags_IF_def quiet_def mach_ok_def lock_free_def me_def cpu_ix_def lapicid_def)
    (simp_all add: cons0_def pipe0_def fs0_def bio0_def slock0_def proc0_def kmem0_def mach0_def)

lemma mem2_loads:
  "load32 mem2 0x80300030 = 32" "load32 mem2 0x80300044 = 0x100" "load32 mem2 0x80700104 = 0x90000000" "load32 mem2 0x80700108 = 0xF00"
  "load32 mem2 0x80500000 = 0x600007" "load32 mem2 0x80600000 = 0x700007"
  by (simp_all add: mem2_def load32_store32 word_aligned_def) 

lemma user2_cell: "va < 0x1000 \<Longrightarrow> user_cell (user2 x) va False = Some (0x80700000 + va)"
proof -
  assume va: "va < 0x1000"
  then have "PDX va = 0" "PTX va = 0" by (auto simp: word_unat_eq_iff unat_PDX unat_PTX word_less_nat_alt)
  then have "translate mem2 0x80500000 va = Some 0x700007"
    by (simp add: translate_def pde_of_def table_of_def mem2_loads present_def PTE_ADDR_def P2V_def)
  moreover have "va mod PGSIZE = va" using va by (simp add: word_unat_eq_iff unat_mod word_less_nat_alt)
  ultimately show ?thesis by (simp add: user_cell_def P2V_def PTE_ADDR_def)
qed

lemma user2_argint: "argint 0 (user2 x) = Ret (Some 0x90000000) (settle (user2 x))"
    "argint 1 (user2 x) = Ret (Some 0xF00) (settle (user2 x))"
proof -
  have a: "arg_addr (user2 x) 0 0 = 0x104" "arg_addr (user2 x) 0 1 = 0x108"
    by (simp_all add: arg_addr_def mem2_loads)
  have c: "\<forall>j < 4. user_cell (user2 x) (0x104 + of_nat j) False = Some (0x80700104 + of_nat j)"
      "\<forall>j < 4. user_cell (user2 x) (0x108 + of_nat j) False = Some (0x80700108 + of_nat j)"
    by (auto simp: less_Suc_eq numeral_eq_Suc) (simp_all add: user2_cell)
  show "argint 0 (user2 x) = Ret (Some 0x90000000) (settle (user2 x))"
    using argint_ok [of "user2 x" 0 0 "0x80700104"] a c by (simp add: mem2_loads)
  show "argint 1 (user2 x) = Ret (Some 0xF00) (settle (user2 x))"
    using argint_ok [of "user2 x" 0 1 "0x80700108"] a c by (simp add: mem2_loads)
qed

theorem argptr_in_process_witness:
  "argptr 1 0x100 (user2 ()) = Ret (Some 0xF00) (settle (user2 ())) \<and> unat (0xF00 :: u32) + unat (0x100 :: u32) \<le> 0x1000"
proof -
  have c: "curproc (user2 ()) = Ret 0 (settle (user2 ()))" by (rule curproc_quiet) (rule user2_fields)
  have "argint 1 (settle (user2 ())) = Ret (Some 0xF00) (settle (user2 ()))"
    using user2_argint(2) [of "()"] argint_settle [OF user2_fields(6), of 1 "()"] by simp
  then have r: "argptr 1 0x100 (user2 ()) = Ret (Some 0xF00) (settle (user2 ()))"
    using c by (simp add: argptr_def kop get_proc_def)
  from argptr_in_process [OF r c] r show ?thesis by simp
qed

end
