(* ===== verification/Process.thy ===== *)
theory Process
  imports Usermem
begin

section \<open>Processes with files: userinit, fork, exit, forkret (proc.c), and exec (exec.c, vm.c)\<close>

text \<open>
  The routines of proc.c that also use the file system, and \<open>exec\<close> with the two routines of vm.c it
  needs. Extends the state with the static flag \<open>first\<close> of \<open>forkret\<close> and the processor's register for
  the address of the last page fault. The strings that \<open>exec\<close> finds through its pointers are lists of
  characters.
\<close>

subsection \<open>Creating and ending processes\<close>

record kern_st = cons_st +
  fork_first :: bool
  r_cr2 :: u32

abbreviation (input) NOFILE :: nat where "NOFILE \<equiv> 16"

text \<open>\<open>safestrcpy\<close> into the field \<open>name\<close>.\<close>

definition set_name :: "cptr \<Rightarrow> proc \<Rightarrow> proc" where
  "set_name t q = (let w = safestrcpy t 16 in q\<lparr>p_name := w @ drop (length w) (p_name q)\<rparr>)"

text \<open>The selectors are stored as words; the padding beside them is zero after \<open>memset\<close>.\<close>

definition userinit :: "u32 \<Rightarrow> u32 \<Rightarrow> (unit, 'a kern_st_scheme) kop" where
  "userinit initcode_start initcode_size =
     bnd allocproc (\<lambda>r.
     thn (upd (\<lambda>s. s\<lparr>initproc := r\<rparr>))
     (case r of None \<Rightarrow> kpanic ''trap'' | Some p \<Rightarrow>
     bnd setupkvm (\<lambda>d.
     thn (set_proc p (\<lambda>q. q\<lparr>p_pgdir := d\<rparr>))
     (if d = 0 then kpanic ''userinit: out of memory?'' else
      thn (inituvm d initcode_start initcode_size)
      (thn (set_proc p (\<lambda>q. q\<lparr>p_sz := PGSIZE\<rparr>))
      (bnd (get_proc p) (\<lambda>q.
      let tf = p_tf q in
      thn (upd (\<lambda>s. s\<lparr>mem := memset (mem s) tf 0 76\<rparr>))
      (thn (st32 (tf + TF_cs) (push_bit 3 3 OR 3))
      (thn (st32 (tf + TF_ds) (push_bit 3 4 OR 3))
      (thn (st32 (tf + TF_es) (push_bit 3 4 OR 3))
      (thn (st32 (tf + TF_ss) (push_bit 3 4 OR 3))
      (thn (st32 (tf + TF_eflags) 0x200)
      (thn (st32 (tf + TF_esp) PGSIZE)
      (thn (st32 (tf + TF_eip) 0)
      (thn (set_proc p (set_name (bytes (map of_char ''initcode''))))
      (bnd (namei devsw [SLASH]) (\<lambda>ip.
      thn (set_proc p (\<lambda>q. q\<lparr>p_cwd := ip\<rparr>))
      (thn (acquire LPtable)
      (thn (set_proc p (\<lambda>q. q\<lparr>p_state := RUNNABLE\<rparr>))
      (release LPtable))))))))))))))))))))"

definition fork_files :: "nat \<Rightarrow> nat \<Rightarrow> (unit, 'a kern_st_scheme) kop" where
  "fork_files cp np =
     kfor [0..<NOFILE] (\<lambda>i.
       bnd (get_proc cp) (\<lambda>c.
       case p_ofile c ! i of
         None \<Rightarrow> ret ()
       | Some f \<Rightarrow> bnd (filedup f) (\<lambda>f. set_proc np (\<lambda>q. q\<lparr>p_ofile := (p_ofile q)[i := Some f]\<rparr>))))"

definition fork :: "(int, 'a kern_st_scheme) kop" where
  "fork =
     bnd curproc (\<lambda>cp.
     bnd allocproc (\<lambda>r.
     case r of None \<Rightarrow> ret (-1) | Some np \<Rightarrow>
     bnd (get_proc cp) (\<lambda>c.
     bnd (copyuvm (p_pgdir c) (p_sz c)) (\<lambda>d.
     thn (set_proc np (\<lambda>q. q\<lparr>p_pgdir := d\<rparr>))
     (bnd (get_proc np) (\<lambda>n.
     if d = 0 then
       thn (kfree (p_kstack n))
       (thn (set_proc np (\<lambda>q. q\<lparr>p_kstack := 0\<rparr>))
       (thn (set_proc np (\<lambda>q. q\<lparr>p_state := UNUSED\<rparr>))
       (ret (-1))))
     else
       thn (set_proc np (\<lambda>q. q\<lparr>p_sz := p_sz c\<rparr>))
       (thn (set_proc np (\<lambda>q. q\<lparr>p_parent := Some cp\<rparr>))
       (thn (upd (\<lambda>s. s\<lparr>mem := memmove (mem s) (p_tf n) (p_tf c) 76\<rparr>))
       (thn (st32 (p_tf n + TF_eax) 0)
       (thn (fork_files cp np)
       (bnd (case p_cwd c of None \<Rightarrow> kpanic ''trap'' | Some i \<Rightarrow> idup i) (\<lambda>ip.
       thn (set_proc np (\<lambda>q. q\<lparr>p_cwd := Some ip\<rparr>))
       (thn (set_proc np (set_name (bytes (p_name c))))
       (bnd (get_proc np) (\<lambda>n.
       thn (kwhen (p_priority n \<noteq> LOW \<and> p_priority n \<noteq> MEDIUM \<and> p_priority n \<noteq> HIGH)
         (set_proc np (\<lambda>q. q\<lparr>p_priority := MEDIUM\<rparr>)))
       (thn (acquire LPtable)
       (thn (bnd (gets ticks) (\<lambda>tk. set_proc np (\<lambda>q. q\<lparr>p_start_time := tk\<rparr>)))
       (thn (set_proc np (\<lambda>q. q\<lparr>p_state := RUNNABLE\<rparr>))
       (thn (release LPtable)
       (ret (sint (p_pid n))))))))))))))))))))))"

definition exit_files :: "nat \<Rightarrow> (unit, 'a kern_st_scheme) kop" where
  "exit_files cp =
     kfor [0..<NOFILE] (\<lambda>fd.
       bnd (get_proc cp) (\<lambda>c.
       case p_ofile c ! fd of
         None \<Rightarrow> ret ()
       | Some f \<Rightarrow> thn (fileclose f) (set_proc cp (\<lambda>q. q\<lparr>p_ofile := (p_ofile q)[fd := None]\<rparr>))))"

definition exit :: "('b, 'a kern_st_scheme) kop" where
  "exit =
     bnd curproc (\<lambda>cp.
     bnd (gets initproc) (\<lambda>i.
     if i = Some cp then kpanic ''init exiting'' else
     thn (exit_files cp)
     (thn begin_op
     (bnd (get_proc cp) (\<lambda>c.
     thn (case p_cwd c of None \<Rightarrow> kpanic ''trap'' | Some ip \<Rightarrow> iput ip)
     (thn end_op
     (thn (set_proc cp (\<lambda>q. q\<lparr>p_cwd := None\<rparr>))
     (exit_ptable cp))))))))"

definition forkret :: "(unit, 'a kern_st_scheme) kop" where
  "forkret =
     thn (release LPtable)
     (bnd (gets fork_first) (\<lambda>first.
     kwhen first
       (thn (upd (\<lambda>s. s\<lparr>fork_first := False\<rparr>))
       (thn (iinit 1) (initlog 1)))))"

subsection \<open>Loading a program\<close>

text \<open>Storing a sequence of bytes in kernel memory.\<close>

definition mem_put :: "bytemem \<Rightarrow> u32 \<Rightarrow> u8 list \<Rightarrow> bytemem" where
  "mem_put m a bs = (\<lambda>x. let k = unat (x - a) in if k < length bs then bs ! k else m x)"

fun loaduvm_pages :: "u32 \<Rightarrow> u32 \<Rightarrow> nat \<Rightarrow> u32 \<Rightarrow> u32 \<Rightarrow> u32 list \<Rightarrow> (int, 'a kern_st_scheme) kop" where
  "loaduvm_pages pgdir addr ip offset sz [] = ret 0"
| "loaduvm_pages pgdir addr ip offset sz (i # is) =
     bnd (walkpgdir pgdir (addr + i) False) (\<lambda>pte.
     if pte = 0 then kpanic ''loaduvm: address should exist'' else
     bnd (ld32 pte) (\<lambda>e.
     let pa = PTE_ADDR e; n = (if sz - i < PGSIZE then sz - i else PGSIZE) in
     bnd (readi devsw ip (offset + i) n) (\<lambda>(r, bs).
     thn (upd (\<lambda>s. s\<lparr>mem := mem_put (mem s) (P2V pa) bs\<rparr>))
     (if word_of_int r \<noteq> n then ret (-1) else loaduvm_pages pgdir addr ip offset sz is))))"

definition loaduvm :: "u32 \<Rightarrow> u32 \<Rightarrow> nat \<Rightarrow> u32 \<Rightarrow> u32 \<Rightarrow> (int, 'a kern_st_scheme) kop" where
  "loaduvm pgdir addr ip offset sz =
     (if addr mod PGSIZE \<noteq> 0 then kpanic ''loaduvm: addr must be page aligned''
      else loaduvm_pages pgdir addr ip offset sz (pg_range 0 sz))"

text \<open>\<open>copyout\<close> of bytes that are given as a list, for a source that is not in kernel memory.\<close>

function copyout_bytes :: "u32 \<Rightarrow> u32 \<Rightarrow> u8 list \<Rightarrow> (int, 'a kern_st_scheme) kop" where
  "copyout_bytes pgdir va bs =
     (if bs \<noteq> [] then
        (let va0 = PGROUNDDOWN va in
         bnd (uva2ka pgdir va0) (\<lambda>pa0.
         if pa0 = 0 then ret (-1) else
         (let n = min (unat (PGSIZE - (va - va0))) (length bs) in
          thn (upd (\<lambda>s. s\<lparr>mem := mem_put (mem s) (pa0 + (va - va0)) (take n bs)\<rparr>))
          (copyout_bytes pgdir (va0 + PGSIZE) (drop n bs)))))
      else ret 0)"
  by auto
termination
proof (relation "measure (\<lambda>(pgdir, va, bs). length bs)")
  fix pgdir va va0 :: u32 and bs :: "u8 list" and n :: nat
  assume "bs \<noteq> []" and va0: "va0 = PGROUNDDOWN va" and n: "n = min (unat (PGSIZE - (va - va0))) (length bs)"
  have "va - va0 < PGSIZE" by (simp add: va0 in_page_iff)
  then have "0 < unat (PGSIZE - (va - va0))" by (auto simp: word_less_nat_alt unat_sub word_le_nat_alt)
  then show "((pgdir, va0 + PGSIZE, drop n bs), (pgdir, va, bs)) \<in> measure (\<lambda>(pgdir, va, bs). length bs)"
    using \<open>bs \<noteq> []\<close> by (simp add: n)
qed simp

declare copyout_bytes.simps [simp del]

text \<open>
  The program headers: the loop that loads the segments returns the size of the image, None for the
  label \<open>bad\<close>. An ELF header has 52 bytes and a program header 32.
\<close>

fun exec_segments :: "nat \<Rightarrow> u32 \<Rightarrow> nat \<Rightarrow> u32 \<Rightarrow> u32 \<Rightarrow> (u32 option, 'a kern_st_scheme) kop" where
  "exec_segments 0 pgdir ip off sz = ret (Some sz)"
| "exec_segments (Suc k) pgdir ip off sz =
     bnd (readi devsw ip off 32) (\<lambda>(r, ph).
     if r \<noteq> 32 then ret None else
     let vaddr = get32 ph 8; filesz = get32 ph 16; memsz = get32 ph 20 in
     if get32 ph 0 \<noteq> 1 then exec_segments k pgdir ip (off + 32) sz else
     if memsz < filesz then ret None else
     if vaddr + memsz < vaddr then ret None else
     bnd (allocuvm pgdir sz (vaddr + memsz)) (\<lambda>sz.
     if sz = 0 then ret None else
     if vaddr mod PGSIZE \<noteq> 0 then ret None else
     bnd (loaduvm pgdir vaddr ip (get32 ph 4) filesz) (\<lambda>r.
     if r < 0 then ret None else
     exec_segments k pgdir ip (off + 32) sz)))"

text \<open>
  Checking the header and loading the image: the page directory, with the entry point and the size if
  nothing fails.
\<close>

definition exec_load :: "nat \<Rightarrow> (u32 \<times> (u32 \<times> u32) option, 'a kern_st_scheme) kop" where
  "exec_load ip =
     bnd (readi devsw ip 0 52) (\<lambda>(r, elf).
     if r \<noteq> 52 then ret (0, None) else
     if get32 elf 0 \<noteq> 0x464C457F then ret (0, None) else
     bnd setupkvm (\<lambda>pgdir.
     if pgdir = 0 then ret (0, None) else
     bnd (exec_segments (unat (get16 elf 44)) pgdir ip (get32 elf 28) 0) (\<lambda>r.
     ret (pgdir, map_option (\<lambda>sz. (get32 elf 24, sz)) r))))"

definition exec_bad :: "u32 \<Rightarrow> nat option \<Rightarrow> (int, 'a kern_st_scheme) kop" where
  "exec_bad pgdir ip =
     thn (kwhen (pgdir \<noteq> 0) (freevm pgdir))
     (thn (case ip of None \<Rightarrow> ret () | Some i \<Rightarrow> thn (iunlockput i) end_op)
     (ret (-1)))"

text \<open>Pushing the argument strings: the final stack pointer and the addresses of the strings.\<close>

fun exec_args :: "u32 \<Rightarrow> u32 \<Rightarrow> nat \<Rightarrow> u8 list list \<Rightarrow> ((u32 \<times> u32 list) option, 'a kern_st_scheme) kop" where
  "exec_args pgdir sp argc [] = ret (Some (sp, []))"
| "exec_args pgdir sp argc (a # argv) =
     (if argc \<ge> 32 then ret None else
      let sp = (sp - (of_nat (length a) + 1)) AND NOT 3 in
      bnd (copyout_bytes pgdir sp (a @ [0])) (\<lambda>r.
      if r < 0 then ret None else
      bnd (exec_args pgdir sp (Suc argc) argv) (\<lambda>rest.
      ret (map_option (\<lambda>(e, sps). (e, sp # sps)) rest))))"

definition last_elem :: "u8 list \<Rightarrow> u8 list" where
  "last_elem path = rev (takeWhile (\<lambda>c. c \<noteq> SLASH) (rev path))"

definition exec_ustack :: "u32 \<Rightarrow> u32 list \<Rightarrow> u32 list" where
  "exec_ustack sp sps =
     (let argc = of_nat (length sps) in [0xffffffff, argc, sp - (argc + 1) * 4] @ sps @ [0])"

definition exec_commit :: "nat \<Rightarrow> u8 list \<Rightarrow> u32 \<Rightarrow> u32 \<Rightarrow> u32 \<Rightarrow> u32 \<Rightarrow> (int, 'a kern_st_scheme) kop" where
  "exec_commit cp path pgdir sz entry sp =
     thn (set_proc cp (set_name (bytes (last_elem path))))
     (bnd (get_proc cp) (\<lambda>c.
     thn (set_proc cp (\<lambda>q. q\<lparr>p_pgdir := pgdir\<rparr>))
     (thn (set_proc cp (\<lambda>q. q\<lparr>p_sz := sz\<rparr>))
     (thn (st32 (p_tf c + TF_eip) entry)
     (thn (st32 (p_tf c + TF_esp) sp)
     (thn (set_proc cp (\<lambda>q. q\<lparr>p_priority := LOW\<rparr>))
     (thn (switchuvm (Some (p_kstack c, pgdir)))
     (thn (freevm (p_pgdir c))
     (ret 0)))))))))"

definition exec_image :: "nat \<Rightarrow> u8 list \<Rightarrow> u8 list list \<Rightarrow> u32 \<Rightarrow> u32 \<Rightarrow> u32 \<Rightarrow> (int, 'a kern_st_scheme) kop" where
  "exec_image cp path argv pgdir entry sz0 =
     (let sz1 = PGROUNDUP sz0 in
      bnd (allocuvm pgdir sz1 (sz1 + 2 * PGSIZE)) (\<lambda>sz.
      if sz = 0 then exec_bad pgdir None else
      thn (clearpteu pgdir (sz - 2 * PGSIZE))
      (bnd (exec_args pgdir sz 0 argv) (\<lambda>r.
      case r of None \<Rightarrow> exec_bad pgdir None | Some (sp, sps) \<Rightarrow>
      let ustack = exec_ustack sp sps; sp' = sp - of_nat (length ustack) * 4 in
      bnd (copyout_bytes pgdir sp' (concat (map le32 ustack))) (\<lambda>r.
      if r < 0 then exec_bad pgdir None else
      exec_commit cp path pgdir sz entry sp')))))"

definition exec :: "u8 list \<Rightarrow> u8 list list \<Rightarrow> (int, 'a kern_st_scheme) kop" where
  "exec path argv =
     bnd curproc (\<lambda>cp.
     thn begin_op
     (bnd (namei devsw path) (\<lambda>r.
     case r of
       None \<Rightarrow> thn end_op (thn (cprintf (''exec: fail'' @ [CHR 0x0A]) []) (ret (-1)))
     | Some ip \<Rightarrow>
         thn (ilock (Some ip))
         (bnd (exec_load ip) (\<lambda>(pgdir, l).
         case l of
           None \<Rightarrow> exec_bad pgdir (Some ip)
         | Some (entry, sz) \<Rightarrow>
             thn (iunlockput ip)
             (thn end_op
             (exec_image cp path argv pgdir entry sz)))))))"

end
