(* ===== verification/Sysfile.thy ===== *)
theory Sysfile
  imports Process
begin

section \<open>System calls on files (sysfile.c)\<close>

text \<open>
  Each system call fetches its arguments from the user stack and returns the value for \<open>eax\<close>. Paths are
  the characters \<open>argstr\<close> found. A result of -1 of the source's helpers is \<open>None\<close>.
\<close>

subsection \<open>Descriptors\<close>

definition argfd :: "u32 \<Rightarrow> ((nat \<times> nat) option, 'a kern_st_scheme) kop" where
  "argfd n =
     bnd (argint n) (\<lambda>r.
     case r of None \<Rightarrow> ret None | Some fd \<Rightarrow>
     if sint fd < 0 \<or> sint fd \<ge> 16 then ret None else
     bnd curproc (\<lambda>p.
     bnd (get_proc p) (\<lambda>q.
     case p_ofile q ! unat fd of
       None \<Rightarrow> ret None
     | Some f \<Rightarrow> ret (Some (unat fd, f)))))"

definition fdalloc :: "nat \<Rightarrow> (nat option, 'a kern_st_scheme) kop" where
  "fdalloc f =
     bnd curproc (\<lambda>p.
     bnd (get_proc p) (\<lambda>q.
     case find_index (\<lambda>x. x = None) (take NOFILE (p_ofile q)) of
       None \<Rightarrow> ret None
     | Some fd \<Rightarrow>
         thn (set_proc p (\<lambda>q. q\<lparr>p_ofile := (p_ofile q)[fd := Some f]\<rparr>))
         (ret (Some fd))))"

definition clear_fd :: "nat \<Rightarrow> (unit, 'a kern_st_scheme) kop" where
  "clear_fd fd = bnd curproc (\<lambda>p. set_proc p (\<lambda>q. q\<lparr>p_ofile := (p_ofile q)[fd := None]\<rparr>))"

definition sys_dup :: "(int, 'a kern_st_scheme) kop" where
  "sys_dup =
     bnd (argfd 0) (\<lambda>r.
     case r of None \<Rightarrow> ret (-1) | Some (_, f) \<Rightarrow>
     bnd (fdalloc f) (\<lambda>r.
     case r of None \<Rightarrow> ret (-1) | Some fd \<Rightarrow>
     bnd (filedup f) (\<lambda>_. ret (int fd))))"

text \<open>The common argument check of \<open>sys_read\<close> and \<open>sys_write\<close>: the file, the count and the buffer.\<close>

definition arg_io :: "((nat \<times> u32 \<times> u32) option, 'a kern_st_scheme) kop" where
  "arg_io =
     bnd (argfd 0) (\<lambda>r.
     case r of None \<Rightarrow> ret None | Some (_, f) \<Rightarrow>
     bnd (argint 2) (\<lambda>r.
     case r of None \<Rightarrow> ret None | Some n \<Rightarrow>
     bnd (argptr 1 n) (\<lambda>r.
     ret (map_option (\<lambda>p. (f, n, p)) r))))"

definition sys_read :: "(int, 'a kern_st_scheme) kop" where
  "sys_read =
     bnd arg_io (\<lambda>r.
     case r of None \<Rightarrow> ret (-1) | Some (f, n, p) \<Rightarrow>
     bnd (fileread devsw f (sint n)) (\<lambda>(r, bs).
     thn (uwrite p bs) (ret r)))"

definition sys_write :: "(int, 'a kern_st_scheme) kop" where
  "sys_write =
     bnd arg_io (\<lambda>r.
     case r of None \<Rightarrow> ret (-1) | Some (f, n, p) \<Rightarrow>
     bnd (uread p (nat (sint n))) (\<lambda>bs.
     filewrite devsw f (bytes bs) (sint n)))"

definition sys_close :: "(int, 'a kern_st_scheme) kop" where
  "sys_close =
     bnd (argfd 0) (\<lambda>r.
     case r of None \<Rightarrow> ret (-1) | Some (fd, f) \<Rightarrow>
     thn (clear_fd fd)
     (thn (fileclose f)
     (ret 0)))"

text \<open>\<open>struct stat\<close> in memory: type and padding, dev, ino, nlink and padding, size; 20 bytes.\<close>

definition stat_fields :: "stat \<Rightarrow> (u32 \<times> u8 list) list" where
  "stat_fields st = [(0, take 2 (le32 (ucast (st_type st)))), (4, le32 (st_dev st)), (8, le32 (st_ino st)),
     (12, take 2 (le32 (ucast (st_nlink st)))), (16, le32 (st_size st))]"

definition sys_fstat :: "(int, 'a kern_st_scheme) kop" where
  "sys_fstat =
     bnd (argfd 0) (\<lambda>r.
     case r of None \<Rightarrow> ret (-1) | Some (_, f) \<Rightarrow>
     bnd (argptr 1 20) (\<lambda>r.
     case r of None \<Rightarrow> ret (-1) | Some p \<Rightarrow>
     bnd (filestat f) (\<lambda>r.
     case r of None \<Rightarrow> ret (-1) | Some st \<Rightarrow>
     thn (kfor (stat_fields st) (\<lambda>(o', bs). uwrite (p + o') bs)) (ret 0))))"

definition sys_lseek :: "(int, 'a kern_st_scheme) kop" where
  "sys_lseek =
     bnd (argfd 0) (\<lambda>r.
     case r of None \<Rightarrow> ret (-1) | Some (_, f) \<Rightarrow>
     bnd (argint 1) (\<lambda>r.
     case r of None \<Rightarrow> ret (-1) | Some offset \<Rightarrow>
     filelseek f offset))"

definition sys_pipe :: "(int, 'a kern_st_scheme) kop" where
  "sys_pipe =
     bnd (argptr 0 8) (\<lambda>r.
     case r of None \<Rightarrow> ret (-1) | Some fd \<Rightarrow>
     bnd pipealloc (\<lambda>r.
     case r of None \<Rightarrow> ret (-1) | Some (rd, wr) \<Rightarrow>
     bnd (fdalloc rd) (\<lambda>r.
     case r of None \<Rightarrow> thn (fileclose rd) (thn (fileclose wr) (ret (-1))) | Some fd0 \<Rightarrow>
     bnd (fdalloc wr) (\<lambda>r.
     case r of None \<Rightarrow> thn (clear_fd fd0) (thn (fileclose rd) (thn (fileclose wr) (ret (-1)))) | Some fd1 \<Rightarrow>
     thn (uwrite fd (le32 (of_nat fd0)))
     (thn (uwrite (fd + 4) (le32 (of_nat fd1)))
     (ret 0))))))"

subsection \<open>Links\<close>

definition add_nlink :: "nat \<Rightarrow> u16 \<Rightarrow> (unit, 'a kern_st_scheme) kop" where
  "add_nlink ip d = thn (set_inode ip (\<lambda>x. x\<lparr>i_nlink := i_nlink x + d\<rparr>)) (iupdate ip)"

definition link_bad :: "nat \<Rightarrow> (int, 'a kern_st_scheme) kop" where
  "link_bad ip =
     thn (ilock (Some ip))
     (thn (add_nlink ip (-1))
     (thn (iunlockput ip)
     (thn end_op
     (ret (-1)))))"

definition link_into :: "nat \<Rightarrow> u8 list \<Rightarrow> (int, 'a kern_st_scheme) kop" where
  "link_into ip new =
     bnd (nameiparent devsw new) (\<lambda>r.
     case r of None \<Rightarrow> link_bad ip | Some (dp, name) \<Rightarrow>
     thn (ilock (Some dp))
     (bnd (get_inode dp) (\<lambda>d.
     bnd (get_inode ip) (\<lambda>x.
     bnd (if i_dev d \<noteq> i_dev x then ret (-1) else dirlink devsw dp name (i_inum x)) (\<lambda>r.
     if r < 0 then thn (iunlockput dp) (link_bad ip) else
     thn (iunlockput dp)
     (thn (iput ip)
     (thn end_op
     (ret 0))))))))"

definition sys_link :: "(int, 'a kern_st_scheme) kop" where
  "sys_link =
     bnd (argstr 0) (\<lambda>r.
     case r of None \<Rightarrow> ret (-1) | Some old \<Rightarrow>
     bnd (argstr 1) (\<lambda>r.
     case r of None \<Rightarrow> ret (-1) | Some new \<Rightarrow>
     thn begin_op
     (bnd (namei devsw old) (\<lambda>r.
     case r of None \<Rightarrow> thn end_op (ret (-1)) | Some ip \<Rightarrow>
     thn (ilock (Some ip))
     (bnd (get_inode ip) (\<lambda>x.
     if i_type x = T_DIR then thn (iunlockput ip) (thn end_op (ret (-1))) else
     thn (add_nlink ip 1)
     (thn (iunlock (Some ip))
     (link_into ip new))))))))"

fun isdirempty_from :: "nat \<Rightarrow> nat list \<Rightarrow> (bool, 'a kern_st_scheme) kop" where
  "isdirempty_from dp [] = ret True"
| "isdirempty_from dp (off # offs) =
     bnd (readi devsw dp (of_nat off) 16) (\<lambda>(r, de).
     if r \<noteq> 16 then kpanic ''isdirempty: readi'' else
     if de_inum de \<noteq> 0 then ret False else isdirempty_from dp offs)"

definition isdirempty :: "nat \<Rightarrow> (bool, 'a kern_st_scheme) kop" where
  "isdirempty dp = bnd (get_inode dp) (\<lambda>x. isdirempty_from dp (drop 2 (de_offsets (i_size x))))"

definition unlink_bad :: "nat \<Rightarrow> (int, 'a kern_st_scheme) kop" where
  "unlink_bad dp = thn (iunlockput dp) (thn end_op (ret (-1)))"

definition unlink_entry :: "nat \<Rightarrow> nat \<Rightarrow> u32 \<Rightarrow> (int, 'a kern_st_scheme) kop" where
  "unlink_entry dp ip off =
     bnd (get_inode ip) (\<lambda>x.
     bnd (writei devsw dp (\<lambda>_. 0) off 16) (\<lambda>r.
     if r \<noteq> 16 then kpanic ''unlink: writei'' else
     thn (kwhen (i_type x = T_DIR) (add_nlink dp (-1)))
     (thn (iunlockput dp)
     (thn (add_nlink ip (-1))
     (thn (iunlockput ip)
     (thn end_op
     (ret 0)))))))"

definition sys_unlink :: "(int, 'a kern_st_scheme) kop" where
  "sys_unlink =
     bnd (argstr 0) (\<lambda>r.
     case r of None \<Rightarrow> ret (-1) | Some path \<Rightarrow>
     thn begin_op
     (bnd (nameiparent devsw path) (\<lambda>r.
     case r of None \<Rightarrow> thn end_op (ret (-1)) | Some (dp, name) \<Rightarrow>
     thn (ilock (Some dp))
     (if namecmp (bytes name) (bytes [0x2E]) = 0 \<or> namecmp (bytes name) (bytes [0x2E, 0x2E]) = 0 then unlink_bad dp else
      bnd (dirlookup devsw dp name) (\<lambda>r.
      case r of None \<Rightarrow> unlink_bad dp | Some (ip, off) \<Rightarrow>
      thn (ilock (Some ip))
      (bnd (get_inode ip) (\<lambda>x.
      if sint (i_nlink x) < 1 then kpanic ''unlink: nlink < 1'' else
      bnd (if i_type x = T_DIR then isdirempty ip else ret True) (\<lambda>e.
      if \<not> e then thn (iunlockput ip) (unlink_bad dp) else
      unlink_entry dp ip off))))))))"

subsection \<open>Creating and opening\<close>

definition create_new :: "nat \<Rightarrow> u8 list \<Rightarrow> u16 \<Rightarrow> u16 \<Rightarrow> u16 \<Rightarrow> (nat, 'a kern_st_scheme) kop" where
  "create_new dp name type major minor =
     bnd (get_inode dp) (\<lambda>d.
     bnd (ialloc (i_dev d) type) (\<lambda>ip.
     thn (ilock (Some ip))
     (thn (set_inode ip (\<lambda>x. x\<lparr>i_major := major, i_minor := minor, i_nlink := 1\<rparr>))
     (thn (iupdate ip)
     (bnd (get_inode ip) (\<lambda>x.
     thn (kwhen (type = T_DIR)
       (thn (add_nlink dp 1)
       (bnd (dirlink devsw ip [0x2E] (i_inum x)) (\<lambda>r.
       if r < 0 then kpanic ''create dots'' else
       bnd (dirlink devsw ip [0x2E, 0x2E] (i_inum d)) (\<lambda>r.
       if r < 0 then kpanic ''create dots'' else ret ())))))
     (bnd (dirlink devsw dp name (i_inum x)) (\<lambda>r.
     if r < 0 then kpanic ''create: dirlink'' else
     thn (iunlockput dp)
     (ret ip)))))))))"

definition create :: "u8 list \<Rightarrow> u16 \<Rightarrow> u16 \<Rightarrow> u16 \<Rightarrow> (nat option, 'a kern_st_scheme) kop" where
  "create path type major minor =
     bnd (nameiparent devsw path) (\<lambda>r.
     case r of None \<Rightarrow> ret None | Some (dp, name) \<Rightarrow>
     thn (ilock (Some dp))
     (bnd (dirlookup devsw dp name) (\<lambda>r.
     case r of
       Some (ip, _) \<Rightarrow>
         thn (iunlockput dp)
         (thn (ilock (Some ip))
         (bnd (get_inode ip) (\<lambda>x.
         if type = T_FILE \<and> i_type x = T_FILE then ret (Some ip)
         else thn (iunlockput ip) (ret None))))
     | None \<Rightarrow> bnd (create_new dp name type major minor) (\<lambda>ip. ret (Some ip)))))"

abbreviation (input) O_RDONLY :: u32 where "O_RDONLY \<equiv> 0x000"
abbreviation (input) O_WRONLY :: u32 where "O_WRONLY \<equiv> 0x001"
abbreviation (input) O_RDWR :: u32 where "O_RDWR \<equiv> 0x002"
abbreviation (input) O_CREATE :: u32 where "O_CREATE \<equiv> 0x200"
abbreviation (input) O_EXTENT :: u32 where "O_EXTENT \<equiv> 0x200"

text \<open>
  \<open>open_existing\<close> is the branch without \<open>O_CREATE\<close>. For a symbolic link it prints up to 20 bytes of the
  link as a string; without a terminator among the bytes read that is undefined behaviour. Both
  branches return the locked inode, or None when the call has already failed.
\<close>

definition open_existing :: "u8 list \<Rightarrow> u32 \<Rightarrow> (nat option, 'a kern_st_scheme) kop" where
  "open_existing path omode =
     bnd (namei devsw path) (\<lambda>r.
     case r of None \<Rightarrow> thn end_op (ret None) | Some ip \<Rightarrow>
     thn (ilock (Some ip))
     (thn (cprintf ([CHR 0x5B, CHR 0xC2, CHR 0xB1, CHR 0x5D] @ '' can lock inode'' @ [CHR 0x0A]) [])
     (bnd (get_inode ip) (\<lambda>x.
     thn (kwhen (i_type x = T_SYMLINK)
       (bnd (readi devsw ip 0 20) (\<lambda>(r, bs).
       if 0 \<notin> set bs then kpanic ''undefined'' else
       cprintf (''%s this is the date in the node'' @ [CHR 0x0A]) [name_arg bs])))
     (if i_type x = T_DIR \<and> omode \<noteq> O_RDONLY
      then thn (iunlockput ip) (thn end_op (ret None))
      else ret (Some ip))))))"

definition open_create :: "u8 list \<Rightarrow> u32 \<Rightarrow> (nat option, 'a kern_st_scheme) kop" where
  "open_create path omode =
     bnd (if omode AND O_EXTENT \<noteq> 0 then create path T_EXTENT 0 0 else create path T_FILE 0 0) (\<lambda>r.
     case r of None \<Rightarrow> thn end_op (ret None) | Some ip \<Rightarrow> ret (Some ip))"

definition open_file :: "nat \<Rightarrow> u32 \<Rightarrow> (int, 'a kern_st_scheme) kop" where
  "open_file ip omode =
     bnd filealloc (\<lambda>r.
     case r of None \<Rightarrow> thn (iunlockput ip) (thn end_op (ret (-1))) | Some f \<Rightarrow>
     bnd (fdalloc f) (\<lambda>r.
     case r of None \<Rightarrow> thn (fileclose f) (thn (iunlockput ip) (thn end_op (ret (-1)))) | Some fd \<Rightarrow>
     thn (iunlock (Some ip))
     (thn end_op
     (thn (set_file f (\<lambda>x. x\<lparr>f_type := FD_INODE, f_ip := ip, f_off := 0,
        f_readable := (omode AND O_WRONLY = 0), f_writable := (omode AND O_WRONLY \<noteq> 0 \<or> omode AND O_RDWR \<noteq> 0)\<rparr>))
     (ret (int fd))))))"

definition sys_open :: "(int, 'a kern_st_scheme) kop" where
  "sys_open =
     bnd (argstr 0) (\<lambda>r.
     case r of None \<Rightarrow> ret (-1) | Some path \<Rightarrow>
     bnd (argint 1) (\<lambda>r.
     case r of None \<Rightarrow> ret (-1) | Some omode \<Rightarrow>
     thn begin_op
     (bnd (if omode AND O_CREATE \<noteq> 0 then open_create path omode else open_existing path omode) (\<lambda>r.
     case r of None \<Rightarrow> ret (-1) | Some ip \<Rightarrow> open_file ip omode))))"

definition end_made :: "nat option \<Rightarrow> (int, 'a kern_st_scheme) kop" where
  "end_made r = (case r of None \<Rightarrow> thn end_op (ret (-1)) | Some ip \<Rightarrow> thn (iunlockput ip) (thn end_op (ret 0)))"

definition sys_mkdir :: "(int, 'a kern_st_scheme) kop" where
  "sys_mkdir =
     thn begin_op
     (bnd (argstr 0) (\<lambda>r.
     bnd (case r of None \<Rightarrow> ret None | Some path \<Rightarrow> create path T_DIR 0 0)
     end_made))"

definition sys_mknod :: "(int, 'a kern_st_scheme) kop" where
  "sys_mknod =
     thn begin_op
     (bnd (argstr 0) (\<lambda>r.
     case r of None \<Rightarrow> end_made None | Some path \<Rightarrow>
     bnd (argint 1) (\<lambda>r.
     case r of None \<Rightarrow> end_made None | Some major \<Rightarrow>
     bnd (argint 2) (\<lambda>r.
     case r of None \<Rightarrow> end_made None | Some minor \<Rightarrow>
     bnd (create path T_DEV (ucast major) (ucast minor)) end_made))))"

definition sys_chdir :: "(int, 'a kern_st_scheme) kop" where
  "sys_chdir =
     bnd curproc (\<lambda>cp.
     thn begin_op
     (bnd (argstr 0) (\<lambda>r.
     bnd (case r of None \<Rightarrow> ret None | Some path \<Rightarrow> namei devsw path) (\<lambda>r.
     case r of None \<Rightarrow> thn end_op (ret (-1)) | Some ip \<Rightarrow>
     thn (ilock (Some ip))
     (bnd (get_inode ip) (\<lambda>x.
     if i_type x \<noteq> T_DIR then thn (iunlockput ip) (thn end_op (ret (-1))) else
     thn (iunlock (Some ip))
     (bnd (get_proc cp) (\<lambda>q.
     thn (case p_cwd q of None \<Rightarrow> kpanic ''trap'' | Some old \<Rightarrow> iput old)
     (thn end_op
     (thn (set_proc cp (\<lambda>q. q\<lparr>p_cwd := Some ip\<rparr>))
     (ret 0)))))))))))"

subsection \<open>exec and symlink\<close>

fun exec_argv :: "nat \<Rightarrow> u32 \<Rightarrow> (u8 list list option, 'a kern_st_scheme) kop" where
  "exec_argv 0 uargv = ret None"
| "exec_argv (Suc k) uargv =
     bnd (fetchint uargv) (\<lambda>r.
     case r of None \<Rightarrow> ret None | Some uarg \<Rightarrow>
     if uarg = 0 then ret (Some []) else
     bnd (fetchstr uarg) (\<lambda>r.
     case r of None \<Rightarrow> ret None | Some a \<Rightarrow>
     bnd (exec_argv k (uargv + 4)) (\<lambda>r.
     ret (map_option (\<lambda>as. a # as) r))))"

definition sys_exec :: "(int, 'a kern_st_scheme) kop" where
  "sys_exec =
     bnd (argstr 0) (\<lambda>r.
     case r of None \<Rightarrow> ret (-1) | Some path \<Rightarrow>
     bnd (argint 1) (\<lambda>r.
     case r of None \<Rightarrow> ret (-1) | Some uargv \<Rightarrow>
     bnd (exec_argv 32 uargv) (\<lambda>r.
     case r of None \<Rightarrow> ret (-1) | Some argv \<Rightarrow> exec path argv)))"

definition getStringLength :: "u8 list \<Rightarrow> nat" where
  "getStringLength string = length (takeWhile (\<lambda>c. c \<noteq> 0) string)"

text \<open>
  The part of \<open>sys_symlink\<close> after the inode is created. The test \<open>filewrite < 0\<close> compares the address
  of the function and is false. Closing the null pointer when no file is free is undefined behaviour.
\<close>

definition symlink_file :: "nat \<Rightarrow> u8 list \<Rightarrow> (int, 'a kern_st_scheme) kop" where
  "symlink_file ip target =
     bnd filealloc (\<lambda>r.
     case r of None \<Rightarrow> kpanic ''undefined'' | Some f \<Rightarrow>
     thn (set_file f (\<lambda>x. x\<lparr>f_type := FD_INODE, f_ip := ip, f_off := 0, f_readable := False, f_writable := True\<rparr>))
     (bnd (filewrite devsw f (bytes target) (int (getStringLength target) + 1)) (\<lambda>_.
     thn (fileclose f)
     (thn end_op
     (ret 0)))))"

definition sys_symlink :: "(int, 'a kern_st_scheme) kop" where
  "sys_symlink =
     bnd (argstr 0) (\<lambda>r0.
     bnd (case r0 of None \<Rightarrow> ret None | Some _ \<Rightarrow> argstr 1) (\<lambda>r1.
     case (r0, r1) of
       (Some target, Some path) \<Rightarrow>
         thn begin_op
         (bnd (create path T_SYMLINK 0 0) (\<lambda>r.
         case r of
           None \<Rightarrow> thn (cprintf (''[-] cant create a new inode'' @ [CHR 0x0A]) []) (ret (-1))
         | Some ip \<Rightarrow> symlink_file ip target))
     | _ \<Rightarrow>
         thn (cprintf (''[-] cant get user Parameter are u sure you privovided them correctly'' @ [CHR 0x0A]) [])
         (ret (-1))))"

subsection \<open>Symbolic links\<close>


text \<open>The inode that \<open>create\<close> made is the first of the table, with one reference and locked.\<close>

definition linking0 :: kern_st where
  "linking0 = (cons0 \<lparr>fork_first = False, r_cr2 = 0\<rparr>)\<lparr>inodes := inode0\<lparr>i_ref := 1, i_valid := True, i_type := T_SYMLINK\<rparr> # replicate 49 inode0,
     slocks := (\<lambda>l. \<lparr>lk_locked = (l = SLInode 0), lk_pid = (if l = SLInode 0 then 1 else 0)\<rparr>)\<rparr>"

lemma linking0_fields:
  "quiet linking0 0" "inodes linking0 ! 0 = inode0\<lparr>i_ref := 1, i_valid := True, i_type := T_SYMLINK\<rparr>"
  "slocks linking0 (SLInode 0) = \<lparr>lk_locked = True, lk_pid = 1\<rparr>"
  "find_index (\<lambda>f. f_ref f = 0) (take NFILE (ftable linking0)) = Some 0"
  "\<not> lg_committing (lg linking0)" "lh_n (lg linking0) = 0" "lg_outstanding (lg linking0) = 1"
proof -
  have "quiet (cons0 \<lparr>fork_first = False, r_cr2 = 0\<rparr>) 0" by simp
  then show "quiet linking0 0" by (simp add: linking0_def quiet_def)
  have "find_index (\<lambda>f. f_ref f = 0) (replicate 100 f) = Some 0" if "f_ref f = 0" for f :: openfile
    using that by (simp add: find_index_Some_iff)
  then show "find_index (\<lambda>f. f_ref f = 0) (take NFILE (ftable linking0)) = Some 0" by (simp add: linking0_def)
qed (simp_all add: linking0_def, simp_all add: cons0_def pipe0_def)


end
