(* ===== verification/Syscall.thy ===== *)
theory Syscall
  imports Sysfile
begin

section \<open>Process system calls, dispatch and traps (sysproc.c, syscall.c, proc.c, trap.c)\<close>

text \<open>
  The remaining system calls, the table that \<open>syscall\<close> dispatches on, and the two builds of \<open>trap\<close>. The
  trap frame is in kernel memory at the address \<open>tf\<close>.
\<close>

subsection \<open>System calls on processes\<close>

definition arg1 :: "(u32 \<Rightarrow> (int, 'a kern_st_scheme) kop) \<Rightarrow> (int, 'a kern_st_scheme) kop" where
  "arg1 f = bnd (argint 0) (\<lambda>r. case r of None \<Rightarrow> ret (-1) | Some x \<Rightarrow> f x)"

definition sys_fork :: "(int, 'a kern_st_scheme) kop" where
  "sys_fork = fork"

definition sys_exit :: "(int, 'a kern_st_scheme) kop" where
  "sys_exit = exit"

definition sys_wait :: "(int, 'a kern_st_scheme) kop" where
  "sys_wait = wait"

definition sys_kill :: "(int, 'a kern_st_scheme) kop" where
  "sys_kill = arg1 kill"

definition sys_getpid :: "(int, 'a kern_st_scheme) kop" where
  "sys_getpid = bnd curproc (\<lambda>p. bnd (get_proc p) (\<lambda>q. ret (sint (p_pid q))))"

definition sys_sbrk :: "(int, 'a kern_st_scheme) kop" where
  "sys_sbrk = arg1 (\<lambda>n.
     bnd curproc (\<lambda>p.
     bnd (get_proc p) (\<lambda>q.
     thn (set_proc p (\<lambda>q. q\<lparr>p_sz := p_sz q + n\<rparr>))
     (ret (sint (p_sz q))))))"

definition sys_sleep_loop :: "u32 \<Rightarrow> u32 \<Rightarrow> (int, 'a kern_st_scheme) kop" where
  "sys_sleep_loop n ticks0 =
     bnd (gets ticks) (\<lambda>tk.
     if tk - ticks0 < n then
       bnd my_killed (\<lambda>k.
       if k then thn (release LTicks) (ret (-1))
       else sleep ChTicks LTicks)
     else thn (release LTicks) (ret 0))"

definition sys_sleep :: "(int, 'a kern_st_scheme) kop" where
  "sys_sleep = arg1 (\<lambda>n. thn (acquire LTicks) (bnd (gets ticks) (sys_sleep_loop n)))"

definition sys_sleep_resume :: "bool \<Rightarrow> nat \<Rightarrow> u32 \<Rightarrow> u32 \<Rightarrow> (int, 'a kern_st_scheme) kop" where
  "sys_sleep_resume b me_p n ticks0 = thn (sleep_resume b me_p LTicks) (sys_sleep_loop n ticks0)"

definition sys_uptime :: "(int, 'a kern_st_scheme) kop" where
  "sys_uptime =
     thn (acquire LTicks)
     (bnd (gets ticks) (\<lambda>xticks.
     thn (release LTicks)
     (ret (sint xticks))))"

definition sys_set_sched_priority :: "(int, 'a kern_st_scheme) kop" where
  "sys_set_sched_priority = arg1 (\<lambda>x. set_sched_priority (sint x))"

definition sys_get_sched_priority :: "(int, 'a kern_st_scheme) kop" where
  "sys_get_sched_priority = arg1 get_sched_priority"

definition sys_fifo_position :: "(int, 'a kern_st_scheme) kop" where
  "sys_fifo_position = arg1 fifo_position"

text \<open>\<open>ticks_running\<close> fetches the system call argument itself and ignores its parameter.\<close>

definition ticks_running :: "u32 \<Rightarrow> (int, 'a kern_st_scheme) kop" where
  "ticks_running pid =
     bnd (argint 0) (\<lambda>r.
     case r of None \<Rightarrow> ret (-1) | Some tar_pid \<Rightarrow>
     thn (acquire LPtable)
     (bnd (gets (\<lambda>s. find (\<lambda>p. p_pid p = tar_pid) (procs s))) (\<lambda>found.
     thn (release LPtable)
     (ret (case found of
             None \<Rightarrow> -1
           | Some p \<Rightarrow> if p_state p = UNUSED then -1 else sint (p_ticks_runs p))))))"

definition sys_ticks_running :: "(int, 'a kern_st_scheme) kop" where
  "sys_ticks_running = arg1 ticks_running"

subsection \<open>Dispatch\<close>

text \<open>The table ends with \<open>sys_symlink\<close> at 27, so that it has 28 entries; entry 0 is null.\<close>

definition syscalls :: "nat \<Rightarrow> (int, 'a kern_st_scheme) kop option" where
  "syscalls n =
     (let table = [sys_fork, sys_exit, sys_wait, sys_pipe, sys_read, sys_kill, sys_exec, sys_fstat, sys_chdir, sys_dup,
        sys_getpid, sys_sbrk, sys_sleep, sys_uptime, sys_open, sys_write, sys_mknod, sys_unlink, sys_link,
        sys_mkdir, sys_close, sys_set_sched_priority, sys_get_sched_priority, sys_fifo_position,
        sys_ticks_running, sys_lseek, sys_symlink]
      in if 1 \<le> n \<and> n \<le> length table then Some (table ! (n - 1)) else None)"

definition syscall :: "(unit, 'a kern_st_scheme) kop" where
  "syscall =
     bnd curproc (\<lambda>p.
     bnd (get_proc p) (\<lambda>q.
     bnd (ld32 (p_tf q + TF_eax)) (\<lambda>num.
     case (if sint num > 0 \<and> sint num < 28 then syscalls (unat num) else None) of
       Some f \<Rightarrow>
         bnd f (\<lambda>r.
         bnd (get_proc p) (\<lambda>q.
         st32 (p_tf q + TF_eax) (word_of_int r)))
     | None \<Rightarrow>
         thn (cprintf (''%d %s: unknown sys call %d'' @ [CHR 0x0A]) [CInt (p_pid q), name_arg (p_name q), CInt num])
         (st32 (p_tf q + TF_eax) (-1)))))"

subsection \<open>Traps\<close>

abbreviation (input) T_PGFLT :: u32 where "T_PGFLT \<equiv> 14"
abbreviation (input) T_SYSCALL :: u32 where "T_SYSCALL \<equiv> 64"
abbreviation (input) IRQ_TIMER :: u32 where "IRQ_TIMER \<equiv> 0"

text \<open>
  \<open>tvinit\<close> fills the descriptor table, an argument and a result here, from the vectors' addresses.
\<close>

definition tvinit :: "(nat \<Rightarrow> u32) \<Rightarrow> ((nat \<Rightarrow> gatedesc), 'a mach_scheme) kop" where
  "tvinit vectors =
     thn (initlock LTicks ''time'')
     (ret (\<lambda>i. if i = 64 then SETGATE True (push_bit 3 1) (vectors 64) 3
               else SETGATE False (push_bit 3 1) (vectors i) 0))"

definition ideintr :: "(unit, 'a kern_st_scheme) kop" where
  "ideintr = ret ()"

definition irq_timer :: "(unit, 'a kern_st_scheme) kop" where
  "irq_timer =
     bnd cpuid (\<lambda>c.
     thn (kwhen (c = 0)
       (thn (acquire LTicks)
       (thn (upd (\<lambda>s. s\<lparr>ticks := ticks s + 1\<rparr>))
       (thn (wakeup ChTicks)
       (release LTicks)))))
     lapiceoi)"

definition irq_spurious :: "u32 \<Rightarrow> (unit, 'a kern_st_scheme) kop" where
  "irq_spurious tf =
     bnd cpuid (\<lambda>c.
     bnd (ld32 (tf + TF_cs)) (\<lambda>cs.
     bnd (ld32 (tf + TF_eip)) (\<lambda>eip.
     thn (cprintf (''cpu%d: spurious interrupt at %x:%x'' @ [CHR 0x0A]) [CInt (of_nat c), CInt (cs AND 0xFFFF), CInt eip])
     lapiceoi)))"

text \<open>The device interrupts of the switch statement; None for the other cases.\<close>

definition irq :: "u32 \<Rightarrow> u32 \<Rightarrow> (unit, 'a kern_st_scheme) kop option" where
  "irq tf trapno =
     (if trapno = T_IRQ0 + IRQ_TIMER then Some irq_timer
      else if trapno = T_IRQ0 + 14 then Some (thn ideintr lapiceoi)
      else if trapno = T_IRQ0 + 14 + 1 then Some (ret ())
      else if trapno = T_IRQ0 + 1 then Some (thn kbdintr lapiceoi)
      else if trapno = T_IRQ0 + 4 then Some (thn uartintr lapiceoi)
      else if trapno = T_IRQ0 + 7 \<or> trapno = T_IRQ0 + 31 then Some (irq_spurious tf)
      else None)"

definition trap_syscall :: "u32 \<Rightarrow> (unit, 'a kern_st_scheme) kop" where
  "trap_syscall tf =
     bnd my_killed (\<lambda>k.
     thn (kwhen k exit)
     (bnd curproc (\<lambda>p.
     thn (set_proc p (\<lambda>q. q\<lparr>p_tf := tf\<rparr>))
     (thn syscall
     (bnd my_killed (\<lambda>k.
     kwhen k exit))))))"

text \<open>The default case: a trap in the kernel panics, a trap in user space kills the process.\<close>

definition trap_default :: "u32 \<Rightarrow> u32 \<Rightarrow> (unit, 'a kern_st_scheme) kop" where
  "trap_default tf trapno =
     bnd myproc (\<lambda>mp.
     bnd (ld32 (tf + TF_cs)) (\<lambda>cs.
     bnd (ld32 (tf + TF_eip)) (\<lambda>eip.
     bnd (ld32 (tf + TF_err)) (\<lambda>err.
     bnd (gets r_cr2) (\<lambda>va.
     case (if cs AND 3 = 0 then None else mp) of
       None \<Rightarrow>
         bnd cpuid (\<lambda>c.
         thn (cprintf (''unexpected trap %d from cpu %d eip %x (cr2=0x%x)'' @ [CHR 0x0A])
           [CInt trapno, CInt (of_nat c), CInt eip, CInt va])
         (kpanic ''trap''))
     | Some p \<Rightarrow>
         bnd (get_proc p) (\<lambda>q.
         bnd cpuid (\<lambda>c.
         thn (cprintf (''pid %d %s: trap %d err %d on cpu %d eip 0x%x addr 0x%x--kill proc'' @ [CHR 0x0A])
           [CInt (p_pid q), name_arg (p_name q), CInt trapno, CInt err, CInt (of_nat c), CInt eip, CInt va])
         (set_proc p (\<lambda>q. q\<lparr>p_killed := True\<rparr>)))))))))"

definition exit_if_killed :: "u32 \<Rightarrow> (unit, 'a kern_st_scheme) kop" where
  "exit_if_killed tf =
     bnd myproc (\<lambda>mp.
     case mp of None \<Rightarrow> ret () | Some p \<Rightarrow>
     bnd (get_proc p) (\<lambda>q.
     bnd (ld32 (tf + TF_cs)) (\<lambda>cs.
     kwhen (p_killed q \<and> cs AND 3 = 3) exit)))"

text \<open>The end of \<open>trap\<close>; \<open>trap_resume\<close> is what follows when the process runs again after the yield.\<close>

definition trap_end :: "u32 \<Rightarrow> u32 \<Rightarrow> (unit, 'a kern_st_scheme) kop" where
  "trap_end tf trapno =
     thn (exit_if_killed tf)
     (bnd myproc (\<lambda>mp.
     bnd (case mp of None \<Rightarrow> ret False | Some p \<Rightarrow> bnd (get_proc p) (\<lambda>q. ret (p_state q = RUNNING))) (\<lambda>running.
     thn (kwhen (running \<and> trapno = T_IRQ0 + IRQ_TIMER) yield)
     (exit_if_killed tf))))"

definition trap_resume :: "bool \<Rightarrow> u32 \<Rightarrow> (unit, 'a kern_st_scheme) kop" where
  "trap_resume b tf = thn (yield_resume b) (exit_if_killed tf)"

definition trap_lazy :: "u32 \<Rightarrow> (unit, 'a kern_st_scheme) kop" where
  "trap_lazy tf =
     bnd (ld32 (tf + TF_trapno)) (\<lambda>trapno.
     if trapno = T_SYSCALL then trap_syscall tf else
     bnd (gets r_cr2) (\<lambda>va.
     case irq tf trapno of
       Some h \<Rightarrow> thn h (trap_end tf trapno)
     | None \<Rightarrow>
         if trapno = T_PGFLT then
           bnd (lazy_fault va) (\<lambda>handled. if handled then ret () else trap_end tf trapno)
         else thn (trap_default tf trapno) (trap_end tf trapno)))"

text \<open>
  In the LOCALITY build the closing brace of the switch statement follows the end of the function, so
  that \<open>break\<close> leaves the function.
\<close>

definition trap_locality :: "u32 \<Rightarrow> (unit, 'a kern_st_scheme) kop" where
  "trap_locality tf =
     bnd (ld32 (tf + TF_trapno)) (\<lambda>trapno.
     if trapno = T_SYSCALL then trap_syscall tf else
     bnd (gets r_cr2) (\<lambda>va.
     case irq tf trapno of
       Some h \<Rightarrow> h
     | None \<Rightarrow>
         if trapno = T_PGFLT then
           bnd (locality_fault va) (\<lambda>handled. if handled then ret () else trap_end tf trapno)
         else thn (trap_default tf trapno) (trap_end tf trapno)))"

subsection \<open>Clock interrupts\<close>

text \<open>The state after a clock interrupt: the tick is counted by the first processor only.\<close>

definition ticked :: "'a kern_st_scheme \<Rightarrow> 'a kern_st_scheme" where
  "ticked s = (if me s = 0 then s\<lparr>ticks := ticks s + 1, procs := woken ChTicks (procs s)\<rparr> else s)"

lemma quiet_ticks [simp]: "quiet (s\<lparr>ticks := x\<rparr>) p = quiet s p"
  by (simp add: quiet_def)

lemma quiet_ticked [simp]: "quiet s p \<Longrightarrow> quiet (ticked s) p"
  by (simp add: ticked_def quiet_procs)

lemma irq_timer_ok:
  assumes "quiet s p" and "\<not> readeflags_IF s"
  shows "\<exists>t. irq_timer s = Ret () t \<and> quiet t p \<and> mem t = mem s \<and> procs t = procs (ticked s) \<and> ticks t = ticks (ticked s)"
proof -
  note ok = quietD [OF assms(1)]
  let ?u = "if me s = 0 then settle (ticked s) else s"
  have "cpuid s = Ret (me s) s" using assms(2) ok(1) by (simp add: cpuid_def mycpu_off mach_ok_ix)
  then have "irq_timer s = lapiceoi ?u"
    using ok by (simp add: irq_timer_def kop kwhen_def acquire_ok release_on wakeup_ok mach_ok_lock_on ticked_def)
  moreover have "quiet ?u p" using assms(1) by simp
  moreover have "mem ?u = mem s" "procs ?u = procs (ticked s)" "ticks ?u = ticks (ticked s)"
    by (simp_all add: ticked_def)
  ultimately show ?thesis by (simp add: lapiceoi_def lapicw_def kop kwhen_def)
qed

lemma exit_if_killed_no:
  "quiet s p \<Longrightarrow> \<not> p_killed (procs s ! p) \<Longrightarrow> exit_if_killed tf s = Ret () (settle s)"
  by (simp add: exit_if_killed_def kop kwhen_def myproc_ok quietD get_proc_def ld32_def)

lemma yield_ok:
  assumes "quiet s p"
  shows "yield s = Resched (lock_on LPtable (s\<lparr>procs := list_upd (procs s) p (\<lambda>q. q\<lparr>p_state := RUNNABLE\<rparr>)\<rparr>))"
proof -
  let ?s = "s\<lparr>procs := list_upd (procs s) p (\<lambda>q. q\<lparr>p_state := RUNNABLE\<rparr>)\<rparr>"
  note ok = quietD [OF assms]
  have "proc_running ?s p" using ok(5) by (simp add: proc_running_def)
  then have "sched (lock_on LPtable ?s) = swtch_out p (lock_on LPtable ?s)"
    using ok(3) by (intro sched_ok) simp_all
  then show ?thesis
    using ok by (simp add: yield_def kop acquire_ok curproc_ok mach_ok_lock_on set_proc_def swtch_out_def)
qed

lemma timer_trap:
  assumes "quiet s p" and "\<not> readeflags_IF s" and "load32 (mem s) (tf + TF_trapno) = T_IRQ0 + IRQ_TIMER"
  obtains t where "quiet t p" "procs t = procs (ticked s)" "ticks t = ticks (ticked s)"
    "trap_lazy tf s = trap_end tf (T_IRQ0 + IRQ_TIMER) t" "trap_locality tf s = Ret () t"
proof -
  obtain t where "irq_timer s = Ret () t" "quiet t p" "procs t = procs (ticked s)" "ticks t = ticks (ticked s)"
    using irq_timer_ok [OF assms(1,2)] by blast
  then show ?thesis
    using assms(3) that by (simp add: trap_lazy_def trap_locality_def kop ld32_def irq_def)
qed


text \<open>
  C29. In the LOCALITY build the same interrupt returns to the running process: its state is unchanged
  and the scheduler is not entered.
\<close>

theorem locality_never_preempts:
  assumes "quiet s p" and "\<not> readeflags_IF s" and "load32 (mem s) (tf + TF_trapno) = T_IRQ0 + IRQ_TIMER"
    and "p_state (procs s ! p) = RUNNING"
  shows "\<exists>t. trap_locality tf s = Ret () t \<and> procs t ! p = procs s ! p \<and> cproc (cpus t ! me t) = Some p"
proof -
  obtain t where t: "quiet t p" "procs t = procs (ticked s)" "trap_locality tf s = Ret () t"
    using timer_trap [OF assms(1-3)] .
  moreover have "procs (ticked s) ! p = procs s ! p"
    using assms(1,4) by (simp add: ticked_def woken_def quietD)
  ultimately show ?thesis by (auto simp: quietD)
qed

text \<open>The process of the last section of \<open>Usermem\<close>, interrupted by the clock.\<close>

abbreviation (input) kern0 :: kern_st where "kern0 \<equiv> user2 \<lparr>fork_first = False, r_cr2 = 0\<rparr>"


theorem locality_never_preempts_witness:
  "\<exists>t. trap_locality 0x80300000 kern0 = Ret () t \<and> p_state (procs t ! 0) = RUNNING"
  using locality_never_preempts [of kern0 0 "0x80300000"] by (auto simp: mem2_loads table0_def blank_proc_def)

subsection \<open>Growing a process\<close>

text \<open>
  \<open>sys_sbrk\<close> changes the size of a process and nothing else: it never fails on a readable argument,
  whatever the argument, it allocates and frees no page, and the new size is taken modulo the word size,
  so that it may lie beyond the start of the kernel.
\<close>

lemma sbrk_unchecked:
  assumes "argint 0 s = Ret (Some n) u" and "quiet u p"
  shows "\<exists>t. sys_sbrk s = Ret (sint (p_sz (procs u ! p))) t \<and> p_sz (procs t ! p) = p_sz (procs u ! p) + n \<and>
     mem t = mem u \<and> freelist t = freelist u \<and> (\<forall>q. q \<noteq> p \<longrightarrow> procs t ! q = procs u ! q)"
proof -
  note c = curproc_quiet [OF assms(2)] and p = quietD(3) [OF assms(2)]
  let ?t = "settle (u\<lparr>procs := list_upd (procs u) p (\<lambda>q. q\<lparr>p_sz := p_sz q + n\<rparr>)\<rparr>)"
  have "sys_sbrk s = Ret (sint (p_sz (procs u ! p))) ?t"
    using assms(1) c by (simp add: sys_sbrk_def arg1_def kop get_proc_def set_proc_def)
  then show ?thesis using p by (intro exI [of _ ?t]) (simp add: list_upd_def)
qed

lemma sbrk_unchecked_example:
  "\<exists>t. sys_sbrk kern0 = Ret 0x1000 t \<and> p_sz (procs t ! 0) = 0x90001000"
  using sbrk_unchecked [OF user2_argint(1) quiet_settle [OF user2_fields(6)], of "\<lparr>fork_first = False, r_cr2 = 0\<rparr>"]
  by auto

end
