(* ===== verification/Ide.thy ===== *)
theory Ide
  imports Devices
begin

section \<open>The disk driver (ide.c)\<close>

text \<open>
  The driver of the ordinary build, which queues requests and is continued by interrupts. The field
  \<open>qnext\<close> of struct buf is a function on buffers. The record \<open>ide_device\<close> is the disk controller as the
  driver relies on it: it keeps the bytes written to its ports, answers a read of its status port with
  busy as often as it needs after a command, and moves a block between its data port and the sector of
  the drive that its registers select. A loop on the status port that does not end has the outcome \<open>Spin\<close>.
\<close>

subsection \<open>The controller\<close>

record ide_device =
  dr_regs :: "nat \<Rightarrow> u8"
  dr_drives :: "bool \<Rightarrow> nat \<Rightarrow> block"
  dr_disk1 :: bool
  dr_busy :: nat
  dr_delay :: nat
  dr_fault :: bool

record ide_st = dev_st +
  idequeue :: "nat option"
  qnext :: "nat \<Rightarrow> nat option"
  havedisk1 :: bool
  ided :: ide_device

definition dr_drive :: "ide_device \<Rightarrow> bool" where
  "dr_drive d = bit (dr_regs d 0x1f6) 4"

definition dr_lba :: "ide_device \<Rightarrow> nat" where
  "dr_lba d = unat (dr_regs d 0x1f3) + 2 ^ 8 * unat (dr_regs d 0x1f4) + 2 ^ 16 * unat (dr_regs d 0x1f5) +
     2 ^ 24 * unat (dr_regs d 0x1f6 AND 0x0f)"

definition ide_outb :: "nat \<Rightarrow> u8 \<Rightarrow> (unit, 'a ide_st_scheme) kop" where
  "ide_outb p v = thn (outb p v) (upd (\<lambda>s. s\<lparr>ided := (ided s)\<lparr>dr_regs := (dr_regs (ided s))(p := v),
     dr_busy := (if p = 0x1f7 then dr_delay (ided s) else dr_busy (ided s))\<rparr>\<rparr>))"

definition ide_status :: "(u8, 'a ide_st_scheme) kop" where
  "ide_status =
     bnd (gets ided) (\<lambda>d.
     if dr_drive d \<and> \<not> dr_disk1 d then ret 0
     else if 0 < dr_busy d then thn (upd (\<lambda>s. s\<lparr>ided := d\<lparr>dr_busy := dr_busy d - 1\<rparr>\<rparr>)) (ret 0x80)
     else ret (0x40 OR (if dr_fault d then 0x01 else 0)))"

definition ide_insl :: "(block, 'a ide_st_scheme) kop" where
  "ide_insl = gets (\<lambda>s. dr_drives (ided s) (dr_drive (ided s)) (dr_lba (ided s)))"

definition ide_outsl :: "block \<Rightarrow> (unit, 'a ide_st_scheme) kop" where
  "ide_outsl data = upd (\<lambda>s. s\<lparr>ided := (ided s)\<lparr>dr_drives := (dr_drives (ided s))(dr_drive (ided s) :=
     (dr_drives (ided s) (dr_drive (ided s)))(dr_lba (ided s) := data))\<rparr>\<rparr>)"

subsection \<open>The routines\<close>

text \<open>The controller is busy at most \<open>dr_busy\<close> more times.\<close>

fun idewait_loop :: "nat \<Rightarrow> bool \<Rightarrow> (int, 'a ide_st_scheme) kop" where
  "idewait_loop 0 checkerr = (\<lambda>s. Spin LIde s)"
| "idewait_loop (Suc n) checkerr =
     bnd ide_status (\<lambda>r.
     if r AND (0x80 OR 0x40) \<noteq> 0x40 then idewait_loop n checkerr
     else ret (if checkerr \<and> r AND (0x20 OR 0x01) \<noteq> 0 then -1 else 0))"

definition idewait :: "bool \<Rightarrow> (int, 'a ide_st_scheme) kop" where
  "idewait checkerr = bnd (gets (\<lambda>s. dr_busy (ided s))) (\<lambda>n. idewait_loop (Suc n) checkerr)"

fun ide_probe :: "nat \<Rightarrow> (unit, 'a ide_st_scheme) kop" where
  "ide_probe 0 = ret ()"
| "ide_probe (Suc n) =
     bnd ide_status (\<lambda>r.
     if r \<noteq> 0 then upd (\<lambda>s. s\<lparr>havedisk1 := True\<rparr>) else ide_probe n)"

definition hd_ideinit :: "(unit, 'a ide_st_scheme) kop" where
  "hd_ideinit =
     thn (initlock LIde ''ide'')
     (thn (bnd (gets ncpu) (\<lambda>n. ioapicenable 14 (of_nat n - 1)))
     (thn (idewait False)
     (thn (ide_outb 0x1f6 (0xe0 OR push_bit 4 1))
     (thn (ide_probe 1000)
     (ide_outb 0x1f6 (0xe0 OR push_bit 4 0))))))"

abbreviation (input) FSSIZE :: u32 where "FSSIZE \<equiv> 250000"

definition idestart :: "nat option \<Rightarrow> (unit, 'a ide_st_scheme) kop" where
  "idestart bo =
     (case bo of
        None \<Rightarrow> kpanic ''idestart''
      | Some b \<Rightarrow>
          bnd (get_buf b) (\<lambda>x.
          if b_blockno x \<ge> FSSIZE then kpanic ''incorrect blockno'' else
          let sector = b_blockno x * 1 in
          thn (idewait False)
          (thn (ide_outb 0x3f6 0)
          (thn (ide_outb 0x1f2 1)
          (thn (ide_outb 0x1f3 (ucast (sector AND 0xff)))
          (thn (ide_outb 0x1f4 (ucast (drop_bit 8 sector AND 0xff)))
          (thn (ide_outb 0x1f5 (ucast (drop_bit 16 sector AND 0xff)))
          (thn (ide_outb 0x1f6 (ucast (0xe0 OR push_bit 4 (b_dev x AND 1) OR (drop_bit 24 sector AND 0x0f))))
          (if b_dirty x then thn (ide_outb 0x1f7 0x30) (ide_outsl (b_data x))
           else ide_outb 0x1f7 0x20)))))))))"

text \<open>The completion of the request for buffer \<open>b\<close>.\<close>

definition ide_complete :: "nat \<Rightarrow> (unit, 'a ide_st_scheme) kop" where
  "ide_complete b =
     bnd (get_buf b) (\<lambda>x.
     thn (if \<not> b_dirty x
          then bnd (idewait True) (\<lambda>r. kwhen (r \<ge> 0) (bnd ide_insl (\<lambda>d. set_buf b (\<lambda>x. x\<lparr>b_data := d\<rparr>))))
          else ret ())
     (set_buf b (\<lambda>x. x\<lparr>b_valid := True, b_dirty := False\<rparr>)))"

definition hd_ideintr :: "(unit, 'a ide_st_scheme) kop" where
  "hd_ideintr =
     thn (acquire LIde)
     (bnd (gets idequeue) (\<lambda>q.
     case q of
       None \<Rightarrow> release LIde
     | Some b \<Rightarrow>
         thn (upd (\<lambda>s. s\<lparr>idequeue := qnext s b\<rparr>))
         (thn (ide_complete b)
         (thn (wakeup (ChBuf b))
         (bnd (gets idequeue) (\<lambda>n.
         thn (kwhen (n \<noteq> None) (idestart n))
         (release LIde)))))))"

text \<open>The search for the end of the queue; None if it never comes to an end.\<close>

partial_function (option) queue_end :: "(nat \<Rightarrow> nat option) \<Rightarrow> nat \<Rightarrow> nat option" where
  "queue_end f b = (case f b of None \<Rightarrow> Some b | Some c \<Rightarrow> queue_end f c)"

definition ide_append :: "nat \<Rightarrow> (unit, 'a ide_st_scheme) kop" where
  "ide_append b =
     thn (upd (\<lambda>s. s\<lparr>qnext := (qnext s)(b := None)\<rparr>))
     (bnd (gets idequeue) (\<lambda>q.
     case q of
       None \<Rightarrow> upd (\<lambda>s. s\<lparr>idequeue := Some b\<rparr>)
     | Some c \<Rightarrow>
         bnd (gets (\<lambda>s. queue_end (qnext s) c)) (\<lambda>e.
         case e of
           None \<Rightarrow> (\<lambda>s. Spin LIde s)
         | Some e \<Rightarrow> upd (\<lambda>s. s\<lparr>qnext := (qnext s)(e := Some b)\<rparr>))))"

definition iderw_wait :: "nat \<Rightarrow> (unit, 'a ide_st_scheme) kop" where
  "iderw_wait b =
     bnd (get_buf b) (\<lambda>x.
     if \<not> (b_valid x \<and> \<not> b_dirty x) then sleep (ChBuf b) LIde else release LIde)"

definition hd_iderw :: "nat \<Rightarrow> (unit, 'a ide_st_scheme) kop" where
  "hd_iderw b =
     bnd (holdingsleep (SLBuf b)) (\<lambda>h.
     if \<not> h then kpanic ''iderw: buf not locked'' else
     bnd (get_buf b) (\<lambda>x.
     if b_valid x \<and> \<not> b_dirty x then kpanic ''iderw: nothing to do'' else
     bnd (gets havedisk1) (\<lambda>d1.
     if b_dev x \<noteq> 0 \<and> \<not> d1 then kpanic ''iderw: ide disk 1 not present'' else
     thn (acquire LIde)
     (thn (ide_append b)
     (bnd (gets idequeue) (\<lambda>q.
     thn (kwhen (q = Some b) (idestart (Some b)))
     (iderw_wait b)))))))"

definition hd_iderw_resume :: "bool \<Rightarrow> nat \<Rightarrow> nat \<Rightarrow> (unit, 'a ide_st_scheme) kop" where
  "hd_iderw_resume i p b = thn (sleep_resume i p LIde) (iderw_wait b)"

subsection \<open>The layers below\<close>

lemma ide_over_mach [simp]:
  "idequeue (lock_on l s) = idequeue s" "idequeue (settle s) = idequeue s" "idequeue (cli_on s) = idequeue s"
  "qnext (lock_on l s) = qnext s" "qnext (settle s) = qnext s" "qnext (cli_on s) = qnext s"
  "havedisk1 (lock_on l s) = havedisk1 s" "havedisk1 (settle s) = havedisk1 s" "havedisk1 (cli_on s) = havedisk1 s"
  "ided (lock_on l s) = ided s" "ided (settle s) = ided s" "ided (cli_on s) = ided s"
  by (simp_all add: mach_on_defs)

lemma ide_me [simp]:
  "me (s\<lparr>idequeue := x0\<rparr>) = me s"
  "me (s\<lparr>qnext := x1\<rparr>) = me s"
  "me (s\<lparr>havedisk1 := x2\<rparr>) = me s"
  "me (s\<lparr>ided := x3\<rparr>) = me s"
  by (simp_all add: me_def cpu_ix_def lapicid_def)

lemma ide_mach [simp]:
  "mach_ok (s\<lparr>idequeue := x0\<rparr>) = mach_ok s" "lock_free l (s\<lparr>idequeue := x0\<rparr>) = lock_free l s"
  "mach_ok (s\<lparr>qnext := x1\<rparr>) = mach_ok s" "lock_free l (s\<lparr>qnext := x1\<rparr>) = lock_free l s"
  "mach_ok (s\<lparr>havedisk1 := x2\<rparr>) = mach_ok s" "lock_free l (s\<lparr>havedisk1 := x2\<rparr>) = lock_free l s"
  "mach_ok (s\<lparr>ided := x3\<rparr>) = mach_ok s" "lock_free l (s\<lparr>ided := x3\<rparr>) = lock_free l s"
  by (simp_all add: mach_ok_def lock_free_def cpu_ix_def lapicid_def readeflags_IF_def)

lemma ide_upd_on [simp]:
  "(lock_on l s)\<lparr>idequeue := x0\<rparr> = lock_on l (s\<lparr>idequeue := x0\<rparr>)"
  "(settle s)\<lparr>idequeue := x0\<rparr> = settle (s\<lparr>idequeue := x0\<rparr>)"
  "(lock_on l s)\<lparr>qnext := x1\<rparr> = lock_on l (s\<lparr>qnext := x1\<rparr>)"
  "(settle s)\<lparr>qnext := x1\<rparr> = settle (s\<lparr>qnext := x1\<rparr>)"
  "(lock_on l s)\<lparr>havedisk1 := x2\<rparr> = lock_on l (s\<lparr>havedisk1 := x2\<rparr>)"
  "(settle s)\<lparr>havedisk1 := x2\<rparr> = settle (s\<lparr>havedisk1 := x2\<rparr>)"
  "(lock_on l s)\<lparr>ided := x3\<rparr> = lock_on l (s\<lparr>ided := x3\<rparr>)"
  "(settle s)\<lparr>ided := x3\<rparr> = settle (s\<lparr>ided := x3\<rparr>)"
  by (simp_all add: lock_on_def settle_def cli_on_def set_cpu_def cli_def readeflags_IF_def cong: if_cong)


lemma quiet_ide [simp]:
  "quiet (s\<lparr>idequeue := x0\<rparr>) p = quiet s p" "quiet (s\<lparr>qnext := x1\<rparr>) p = quiet s p"
  "quiet (s\<lparr>havedisk1 := x2\<rparr>) p = quiet s p" "quiet (s\<lparr>ided := x3\<rparr>) p = quiet s p"
  by (simp_all add: quiet_def)


subsection \<open>Symbolic execution\<close>

abbreviation (input) FSBLOCKS :: nat where "FSBLOCKS \<equiv> 250000"

text \<open>
  \<open>drive_ok\<close>: the selected drive exists, so that the controller becomes ready. \<open>serving d x\<close>: the registers
  hold the command for buffer \<open>x\<close>, and the data of a write has arrived.
\<close>

definition drive_ok :: "ide_device \<Rightarrow> bool" where
  "drive_ok d \<longleftrightarrow> (dr_drive d \<longrightarrow> dr_disk1 d)"

definition serving :: "ide_device \<Rightarrow> buf \<Rightarrow> bool" where
  "serving d x \<longleftrightarrow> dr_lba d = unat (b_blockno x) \<and> dr_drive d = odd (b_dev x) \<and>
     (b_dirty x \<longrightarrow> dr_drives d (odd (b_dev x)) (unat (b_blockno x)) = b_data x)"

lemma outb_disk:
  "p \<noteq> 0x3d4 \<Longrightarrow> p \<noteq> 0x3d5 \<Longrightarrow> outb p v s = Ret () (s\<lparr>port_out := port_out s @ [(p, v)]\<rparr>)"
  by (simp add: outb_def kop)

lemma ready_bits: "(0x80 :: u8) AND 0xC0 = 0x80" "(0x40 :: u8) AND 0xC0 = 0x40" "(0x41 :: u8) AND 0xC0 = 0x40"
    "(0x40 :: u8) AND 0x21 = 0" "(0x41 :: u8) AND 0x21 = 1"
  by simp_all

lemma idewait_loop_ok:
  "drive_ok (ided s) \<Longrightarrow> n = Suc (dr_busy (ided s)) \<Longrightarrow> idewait_loop n c (lock_on LIde s) =
     Ret (if c \<and> dr_fault (ided s) then -1 else 0) (lock_on LIde (s\<lparr>ided := (ided s)\<lparr>dr_busy := 0\<rparr>\<rparr>))"
proof (induction "dr_busy (ided s)" arbitrary: s n)
  case 0
  then have idle: "s\<lparr>ided := (ided s)\<lparr>dr_busy := 0\<rparr>\<rparr> = s" by simp
  show ?case unfolding idle using 0 by (auto simp: kop ide_status_def drive_ok_def ready_bits)
next
  case (Suc m)
  let ?s = "s\<lparr>ided := (ided s)\<lparr>dr_busy := dr_busy (ided s) - 1\<rparr>\<rparr>"
  have "idewait_loop (Suc m) c (lock_on LIde ?s) =
      Ret (if c \<and> dr_fault (ided ?s) then -1 else 0) (lock_on LIde (?s\<lparr>ided := (ided ?s)\<lparr>dr_busy := 0\<rparr>\<rparr>))"
    using Suc(2,3) by (intro Suc(1)) (simp_all add: drive_ok_def dr_drive_def)
  then show ?case using Suc(2-4) by (auto simp: kop ide_status_def drive_ok_def ready_bits)
qed

lemma idewait_ok:
  "drive_ok (ided s) \<Longrightarrow> idewait c (lock_on LIde s) =
     Ret (if c \<and> dr_fault (ided s) then -1 else 0) (lock_on LIde (s\<lparr>ided := (ided s)\<lparr>dr_busy := 0\<rparr>\<rparr>))"
  using idewait_loop_ok [of s _ c] by (simp add: idewait_def kop)


text \<open>The controller after \<open>idestart\<close>.\<close>

definition dev_started :: "buf \<Rightarrow> ide_device \<Rightarrow> ide_device" where
  "dev_started x d =
     (let sector = b_blockno x; cmd = (if b_dirty x then 0x30 else 0x20);
        regs = (dr_regs d)(0x3f6 := 0, 0x1f2 := 1, 0x1f3 := ucast (sector AND 0xff),
          0x1f4 := ucast (drop_bit 8 sector AND 0xff), 0x1f5 := ucast (drop_bit 16 sector AND 0xff),
          0x1f6 := ucast (0xe0 OR push_bit 4 (b_dev x AND 1) OR (drop_bit 24 sector AND 0x0f)), 0x1f7 := cmd);
        d' = d\<lparr>dr_regs := regs, dr_busy := dr_delay d\<rparr>
      in if b_dirty x then d'\<lparr>dr_drives := (dr_drives d')(dr_drive d' := (dr_drives d' (dr_drive d'))(dr_lba d' := b_data x))\<rparr>
         else d')"

lemma idestart_ok:
  assumes "drive_ok (ided s)" and "b_blockno (bufs s ! b) < FSSIZE"
  shows "\<exists>po. idestart (Some b) (lock_on LIde s) =
     Ret () (lock_on LIde (s\<lparr>port_out := po, ided := dev_started (bufs s ! b) (ided s)\<rparr>))"
  using assms(2) idewait_ok [OF assms(1), of False]
  by (auto simp: idestart_def kop get_buf_def ide_outb_def outb_disk ide_outsl_def dev_started_def Let_def not_le)


lemma low_byte: "unat (ucast (w AND 0xff :: u32) :: u8) = unat w mod 256"
proof -
  have "w AND 0xff = take_bit 8 w" by (simp add: take_bit_eq_mask mask_eq_exp_minus_1)
  then show ?thesis by (simp add: unsigned_ucast_eq unsigned_take_bit_eq take_bit_eq_mod unat_mod)
qed

lemma device_byte:
  assumes "(sector :: u32) < FSSIZE"
  shows "(ucast (0xe0 OR push_bit 4 (dev AND 1 :: u32) OR (drop_bit 24 sector AND 0x0f)) :: u8) = (if odd dev then 0xf0 else 0xe0)"
proof -
  have "unat sector < 250000" using assms by (simp add: word_less_nat_alt)
  then have "unat (drop_bit 24 sector) = 0" by (simp add: drop_bit_eq_div unat_div)
  then have "drop_bit 24 sector = 0" by (simp add: unat_eq_zero)
  then show ?thesis by (simp add: and_one_eq mod2_eq_if)
qed

lemma split_bytes: "(n :: nat) mod 256 + 2 ^ 8 * (n div 256 mod 256) + 2 ^ 16 * (n div 65536) = n"
  using mod_mult2_eq [of n 256 256] div_mult_mod_eq [of n 65536] by simp

lemma started_regs:
  assumes "b_blockno x < FSSIZE"
  shows "dr_lba (dev_started x d) = unat (b_blockno x)" "dr_drive (dev_started x d) = odd (b_dev x)"
    "dr_disk1 (dev_started x d) = dr_disk1 d" "dr_fault (dev_started x d) = dr_fault d"
proof -
  have n: "unat (b_blockno x) < 2 ^ 24" using assms by (simp add: word_less_nat_alt)
  have z: "dr_regs (dev_started x d) 0x1f6 = (if odd (b_dev x) then 0xf0 else 0xe0)"
    using device_byte [OF assms, of "b_dev x"] by (simp add: dev_started_def Let_def)
  show "dr_drive (dev_started x d) = odd (b_dev x)" unfolding dr_drive_def z by simp
  have "unat (dr_regs (dev_started x d) 0x1f3) = unat (b_blockno x) mod 256"
    "unat (dr_regs (dev_started x d) 0x1f4) = unat (b_blockno x) div 256 mod 256"
    "unat (dr_regs (dev_started x d) 0x1f5) = unat (b_blockno x) div 65536"
    using n by (simp_all add: dev_started_def Let_def low_byte drop_bit_eq_div unat_div)
  then show "dr_lba (dev_started x d) = unat (b_blockno x)"
    unfolding dr_lba_def z using split_bytes by simp
qed (simp_all add: dev_started_def Let_def)


lemma started_serving:
  assumes "b_blockno x < FSSIZE"
  shows "serving (dev_started x d) x"
proof -
  have "dr_drives (dev_started x d) (dr_drive (dev_started x d)) (dr_lba (dev_started x d)) = b_data x" if "b_dirty x"
    using that by (simp add: dev_started_def Let_def dr_drive_def dr_lba_def)
  then show ?thesis by (simp add: serving_def started_regs [OF assms])
qed

subsection \<open>The queue\<close>

fun chain :: "nat option \<Rightarrow> (nat \<Rightarrow> nat option) \<Rightarrow> nat list \<Rightarrow> bool" where
  "chain h f [] \<longleftrightarrow> h = None"
| "chain h f (x # xs) \<longleftrightarrow> h = Some x \<and> chain (f x) f xs"

lemma chain_upd [simp]: "x \<notin> set q \<Longrightarrow> chain h (f(x := v)) q = chain h f q"
  by (induction q arbitrary: h) auto

lemma chain_snoc:
  "chain h f q \<Longrightarrow> distinct q \<Longrightarrow> b \<notin> set q \<Longrightarrow> q \<noteq> [] \<Longrightarrow> chain h (f(b := None, last q := Some b)) (q @ [b])"
proof (induction q arbitrary: h)
  case (Cons x q)
  then show ?case by (cases q) auto
qed simp

lemma queue_end_chain: "chain (Some c) f q \<Longrightarrow> queue_end f c = Some (last q)"
proof (induction q arbitrary: c)
  case (Cons x q)
  then show ?case
  proof (cases q)
    case Nil
    then show ?thesis using Cons by (simp add: queue_end.simps [of f x])
  next
    case (Cons y ys)
    then show ?thesis using Cons.IH Cons.prems by (simp add: queue_end.simps [of f x])
  qed
qed simp

lemma ide_append_ok:
  assumes "chain (idequeue s) (qnext s) q" and "distinct q" and "b \<notin> set q"
  shows "\<exists>f. ide_append b (lock_on LIde s) = Ret () (lock_on LIde (s\<lparr>qnext := f, idequeue := Some (hd (q @ [b]))\<rparr>)) \<and>
     chain (Some (hd (q @ [b]))) f (q @ [b])"
proof (cases q)
  case Nil
  then show ?thesis using assms(1) by (intro exI [of _ "(qnext s)(b := None)"]) (simp add: ide_append_def kop)
next
  case (Cons c q')
  have h: "idequeue s = Some c" using assms(1) Cons by simp
  have "chain (Some c) ((qnext s)(b := None)) q" using assms(1,3) h by simp
  then have "queue_end ((qnext s)(b := None)) c = Some (last q)" by (rule queue_end_chain)
  moreover have "chain (Some c) ((qnext s)(b := None, last q := Some b)) (q @ [b])"
    using chain_snoc [OF assms] h Cons by simp
  moreover have same: "s\<lparr>qnext := f, idequeue := Some c\<rparr> = s\<lparr>qnext := f\<rparr>" for f using h by simp
  ultimately show ?thesis
    using h Cons by (intro exI [of _ "(qnext s)(b := None, last q := Some b)"]) (simp add: ide_append_def kop same)
qed


text \<open>
  The buffers in the queue \<open>q\<close> wait for the disk, and the controller works on the first.
\<close>

definition queued :: "'a ide_st_scheme \<Rightarrow> nat \<Rightarrow> bool" where
  "queued s b \<longleftrightarrow> b < length (bufs s) \<and> b_blockno (bufs s ! b) < FSSIZE \<and>
     (odd (b_dev (bufs s ! b)) \<longrightarrow> dr_disk1 (ided s)) \<and> \<not> (b_valid (bufs s ! b) \<and> \<not> b_dirty (bufs s ! b))"

definition ide_ok :: "'a ide_st_scheme \<Rightarrow> nat list \<Rightarrow> bool" where
  "ide_ok s q \<longleftrightarrow> chain (idequeue s) (qnext s) q \<and> distinct q \<and> drive_ok (ided s) \<and> (\<forall>b \<in> set q. queued s b) \<and>
     (q \<noteq> [] \<longrightarrow> serving (ided s) (bufs s ! hd q))"

lemma started_ok:
  assumes "queued s b"
  shows "drive_ok (dev_started (bufs s ! b) (ided s))" "serving (dev_started (bufs s ! b) (ided s)) (bufs s ! b)"
  using assms by (simp_all add: queued_def drive_ok_def started_regs started_serving)

lemma iderw_run:
  assumes "quiet s p" and ok: "ide_ok s q" and b: "queued s b" "b \<notin> set q" and "b_dev (bufs s ! b) = 0 \<or> havedisk1 s"
    and "lk_locked (slocks s (SLBuf b))" "lk_pid (slocks s (SLBuf b)) = mypid s p"
  shows "\<exists>t. hd_iderw b s = Block (ChBuf b) t \<and> ide_ok t (q @ [b]) \<and> bufs t = bufs s"
proof -
  note qd = quietD [OF assms(1)]
  note k = ok [unfolded ide_ok_def]
  obtain f where f: "ide_append b (lock_on LIde s) = Ret () (lock_on LIde (s\<lparr>qnext := f, idequeue := Some (hd (q @ [b]))\<rparr>))"
    "chain (Some (hd (q @ [b]))) f (q @ [b])"
    using ide_append_ok [of s q b] k b(2) by blast
  let ?s = "s\<lparr>qnext := f, idequeue := Some (hd (q @ [b]))\<rparr>"
  have wait: "\<not> (b_valid (bufs s ! b) \<and> \<not> b_dirty (bufs s ! b))" using b(1) by (simp add: queued_def)
  have run: "hd_iderw b s = bnd (kwhen (hd (q @ [b]) = b) (idestart (Some b))) (\<lambda>_. iderw_wait b) (lock_on LIde ?s)"
    using assms(5-7) wait qd f(1)
    by (auto simp: hd_iderw_def kop holdingsleep_ok [OF assms(1)] get_buf_def acquire_ok mach_ok_settle)
  show ?thesis
  proof (cases "q = []")
    case True
    have "drive_ok (ided ?s)" "b_blockno (bufs ?s ! b) < FSSIZE" using k b(1) by (simp_all add: queued_def)
    then obtain po where st: "idestart (Some b) (lock_on LIde ?s) =
        Ret () (lock_on LIde (?s\<lparr>port_out := po, ided := dev_started (bufs s ! b) (ided s)\<rparr>))"
      using idestart_ok [of ?s b] by auto
    let ?u = "?s\<lparr>port_out := po, ided := dev_started (bufs s ! b) (ided s)\<rparr>"
    have "quiet ?u p" using assms(1) by simp
    then have "hd_iderw b s = Block (ChBuf b) (lock_on LPtable (?u\<lparr>procs := list_upd (procs ?u) p
        (\<lambda>q. q\<lparr>p_chan := Some (ChBuf b), p_state := SLEEPING\<rparr>)\<rparr>))"
      using run st True wait quietD [of ?u p]
      by (simp add: kop iderw_wait_def get_buf_def sleep_ok)
    moreover have "ide_ok ?u [b]"
      using started_ok [OF b(1)] b(1) f(2) True by (simp add: ide_ok_def queued_def started_regs)
    ultimately show ?thesis using True by (simp add: ide_ok_def queued_def)
  next
    case False
    then have "hd (q @ [b]) \<noteq> b" using b(2) by (cases q) auto
    moreover have "quiet ?s p" using assms(1) by simp
    ultimately have "hd_iderw b s = Block (ChBuf b) (lock_on LPtable (?s\<lparr>procs := list_upd (procs ?s) p
        (\<lambda>q. q\<lparr>p_chan := Some (ChBuf b), p_state := SLEEPING\<rparr>)\<rparr>))"
      using run wait quietD [of ?s p]
      by (simp add: kop iderw_wait_def get_buf_def sleep_ok)
    moreover have "ide_ok ?s (q @ [b])" using k b f(2) False by (auto simp: ide_ok_def queued_def)
    ultimately show ?thesis by (simp add: ide_ok_def queued_def)
  qed
qed


definition done_buf :: "block \<Rightarrow> buf \<Rightarrow> buf" where
  "done_buf d x = x\<lparr>b_data := d, b_valid := True, b_dirty := False\<rparr>"

abbreviation (input) on_disk :: "ide_device \<Rightarrow> buf \<Rightarrow> block" where
  "on_disk d x \<equiv> dr_drives d (odd (b_dev x)) (unat (b_blockno x))"

lemma thn_Ret: "m s = Ret x t \<Longrightarrow> thn m k s = k t"
  by (simp add: kop)

text \<open>A completed buffer agrees with the disk.\<close>

lemma intr_sync:
  assumes "drive_ok (ided s)" and "\<not> dr_fault (ided s)" and "serving (ided s) x" and "bufs s ! b = x" and "b < length (bufs s)"
  shows "\<exists>d. ide_complete b (lock_on LIde s) =
     Ret () (lock_on LIde (s\<lparr>ided := d, bufs := (bufs s)[b := done_buf (on_disk (ided s) x) x]\<rparr>)) \<and>
     drive_ok d \<and> dr_disk1 d = dr_disk1 (ided s) \<and> dr_fault d = dr_fault (ided s)"
proof (cases "b_dirty x")
  case True
  have "x\<lparr>b_data := b_data x\<rparr> = x" by simp
  then have "done_buf (on_disk (ided s) x) x = x\<lparr>b_valid := True, b_dirty := False\<rparr>"
    using assms(3) True by (simp add: done_buf_def serving_def)
  then show ?thesis
    using True assms by (intro exI [of _ "ided s"]) (simp add: ide_complete_def get_buf_def kop set_buf_def list_upd_def)
next
  case False
  let ?d = "(ided s)\<lparr>dr_busy := 0\<rparr>"
  have "dr_drives ?d (dr_drive ?d) (dr_lba ?d) = on_disk (ided s) x"
    using assms(3) by (simp add: serving_def dr_drive_def dr_lba_def)
  then show ?thesis
    using False assms idewait_ok [OF assms(1), of True]
    by (intro exI [of _ ?d]) (simp add: ide_complete_def get_buf_def kop ide_insl_def set_buf_def list_upd_def done_buf_def drive_ok_def dr_drive_def)
qed

lemma ideintr_run:
  assumes "mach_ok s" "lock_free LIde s" "lock_free LPtable s" and ok: "ide_ok s (b # q)" and "\<not> dr_fault (ided s)"
  shows "\<exists>t. hd_ideintr s = Ret () t \<and> ide_ok t q \<and> bufs t = (bufs s)[b := done_buf (on_disk (ided s) (bufs s ! b)) (bufs s ! b)] \<and>
     procs t = woken (ChBuf b) (procs s)"
proof -
  note k = ok [unfolded ide_ok_def]
  let ?x = "bufs s ! b"
  have b: "b < length (bufs s)" "b \<notin> set q" "idequeue s = Some b" "chain (qnext s b) (qnext s) q"
    using k by (auto simp: queued_def)
  let ?s1 = "s\<lparr>idequeue := qnext s b\<rparr>"
  obtain d where d: "ide_complete b (lock_on LIde ?s1) =
     Ret () (lock_on LIde (?s1\<lparr>ided := d, bufs := (bufs s)[b := done_buf (on_disk (ided s) ?x) ?x]\<rparr>))"
     "drive_ok d" "dr_disk1 d = dr_disk1 (ided s)"
    using intr_sync [of ?s1 ?x b] k b(1) assms(5) by auto
  let ?u = "?s1\<lparr>ided := d, bufs := (bufs s)[b := done_buf (on_disk (ided s) ?x) ?x], procs := woken (ChBuf b) (procs s)\<rparr>"
  have w: "wakeup (ChBuf b) (lock_on LIde (?s1\<lparr>ided := d, bufs := (bufs s)[b := done_buf (on_disk (ided s) ?x) ?x]\<rparr>)) =
      Ret () (lock_on LIde ?u)"
    using assms(1-3) by (simp add: wakeup_ok mach_ok_lock_on)
  have "hd_ideintr s = thn (ide_complete b) (thn (wakeup (ChBuf b))
      (bnd (gets idequeue) (\<lambda>n. thn (kwhen (n \<noteq> None) (idestart n)) (release LIde)))) (lock_on LIde ?s1)"
    unfolding hd_ideintr_def thn_Ret [where m = "acquire LIde", OF acquire_ok [OF assms(1,2)]]
    by (simp add: bnd_gets b(3) thn_Ret [OF upd_def])
  also have "\<dots> = thn (kwhen (qnext s b \<noteq> None) (idestart (qnext s b))) (release LIde) (lock_on LIde ?u)"
    unfolding thn_Ret [where m = "ide_complete b", OF d(1)] thn_Ret [where m = "wakeup (ChBuf b)", OF w] by (simp add: bnd_gets)
  finally have run: "hd_ideintr s = thn (kwhen (qnext s b \<noteq> None) (idestart (qnext s b))) (release LIde) (lock_on LIde ?u)" .
  have nth: "bufs ?u ! c = bufs s ! c" if "c \<in> set q" for c
  proof -
    have "c \<noteq> b" using that b(2) by blast
    then show ?thesis by simp
  qed
  have qu: "queued ?u c" if "c \<in> set q" for c
    using that k nth [OF that] d(3) by (auto simp: queued_def)
  show ?thesis
  proof (cases q)
    case Nil
    then have "hd_ideintr s = Ret () (settle ?u)" using run b(4) assms(1-3) by (simp add: kop release_on)
    moreover have "ide_ok (settle ?u) q" using Nil b(4) d(2) by (simp add: ide_ok_def)
    ultimately show ?thesis by auto
  next
    case (Cons c q')
    have c: "c \<in> set q" "qnext s b = Some c" using Cons b(4) by simp_all
    have "drive_ok (ided ?u)" "b_blockno (bufs ?u ! c) < FSSIZE" using d(2) qu [OF c(1)] by (simp_all add: queued_def)
    then obtain po where st: "idestart (Some c) (lock_on LIde ?u) =
        Ret () (lock_on LIde (?u\<lparr>port_out := po, ided := dev_started (bufs ?u ! c) d\<rparr>))"
      using idestart_ok [of ?u c] by auto
    let ?v = "?u\<lparr>port_out := po, ided := dev_started (bufs ?u ! c) d\<rparr>"
    have "hd_ideintr s = Ret () (settle ?v)"
      using run c(2) st assms(1-3) by (simp add: kop release_on)
    moreover have "ide_ok (settle ?v) q"
    proof -
      have "\<forall>a \<in> set q. queued ?v a" using qu qu [OF c(1)] by (auto simp: queued_def started_regs)
      moreover have "drive_ok (ided ?v)" "serving (ided ?v) (bufs ?v ! c)" using started_ok [OF qu [OF c(1)]] by simp_all
      ultimately show ?thesis using k b(4) Cons by (simp add: ide_ok_def queued_def)
    qed
    ultimately show ?thesis by auto
  qed
qed



subsection \<open>A concrete disk\<close>

text \<open>The request of buffer 0 for block 0 is being served; all buffers are locked by process 1.\<close>

definition ide0 :: "'a \<Rightarrow> 'a ide_st_scheme" where
  "ide0 x = (pipe0 \<lparr>ftable = [], port_out = [], crtc_ix = 0, crtc_cursor = 0, uart = True, uart_present = True,
     uart_in = [], kbd_in = [], kbd_shift = 0, lapic = True, lapic_regs = (\<lambda>_ _. 0), ioapic_regs = (\<lambda>_. 0),
     idequeue = Some 0, qnext = (\<lambda>_. None), havedisk1 = False,
     ided = \<lparr>dr_regs = (\<lambda>_. 0), dr_drives = (\<lambda>_ _. replicate 512 7), dr_disk1 = False, dr_busy = 3, dr_delay = 2,
       dr_fault = False\<rparr>, \<dots> = x\<rparr>)\<lparr>slocks := (\<lambda>_. \<lparr>lk_locked = True, lk_pid = 1\<rparr>)\<rparr>"

lemma ide0_fields [simp]:
  "bufs (ide0 x) = replicate 30 buf0" "idequeue (ide0 x) = Some 0" "qnext (ide0 x) b = None" "quiet (ide0 x) 0"
  "ided (ide0 x) = \<lparr>dr_regs = (\<lambda>_. 0), dr_drives = (\<lambda>_ _. replicate 512 7), dr_disk1 = False, dr_busy = 3, dr_delay = 2,
       dr_fault = False\<rparr>" "slocks (ide0 x) l = \<lparr>lk_locked = True, lk_pid = 1\<rparr>" "mypid (ide0 x) 0 = 1"
proof -
  show "quiet (ide0 x) 0" by (simp add: ide0_def)
  have "mypid (ide0 x) 0 = mypid (bio0 (\<lambda>_. zero_block) ()) 0"
    by (simp add: ide0_def pipe0_def fs0_def bio0_def slock0_def proc0_def kmem0_def mach0_def mypid_def)
  then show "mypid (ide0 x) 0 = 1" by simp
qed (simp_all add: ide0_def pipe0_def fs0_def bio0_def slock0_def proc0_def kmem0_def mach0_def)

lemma ide0_ok: "ide_ok (ide0 x) [0]"
  by (simp add: ide_ok_def queued_def buf0_def serving_def drive_ok_def dr_drive_def dr_lba_def)


end
