(* ===== verification/Userlib.thy ===== *)
theory Userlib
  imports Cstring
begin

section \<open>The library of user programs (printf.c, ulib.c)\<close>

text \<open>
  What user programs write is the list of bytes they pass to the system call write, one by one for
  \<open>printf\<close>. What they read comes in pieces: a call of read returns at most the bytes asked for and never
  bytes of two pieces, so that a file is one piece and a pipe or the console delivers several. An empty
  piece is a read that returns 0.
\<close>

subsection \<open>printf.c\<close>

definition udigits :: "u8 list" where
  "udigits = map of_char ''0123456789ABCDEF''"

function uprintint_digits :: "nat \<Rightarrow> nat \<Rightarrow> u8 list" where
  "uprintint_digits base x =
     (udigits ! (x mod base)) # (if 2 \<le> base \<and> x div base \<noteq> 0 then uprintint_digits base (x div base) else [])"
  by auto
termination
  by (relation "measure snd") (auto intro!: div_less_dividend intro: Nat.gr0I)

declare uprintint_digits.simps [simp del]

definition uprintint :: "u32 \<Rightarrow> nat \<Rightarrow> bool \<Rightarrow> u8 list" where
  "uprintint xx base sign =
     (let neg = (sign \<and> sint xx < 0); x = (if neg then - xx else xx)
      in rev (uprintint_digits base (unat x) @ (if neg then [0x2D] else [])))"

text \<open>
  The arguments on the stack: words, or pointers to strings (None for the null pointer). A missing
  argument or one of the wrong kind is undefined behaviour, here None.
\<close>

datatype uarg = UInt u32 | UStr "u8 list option"

fun uprintf_from :: "bool \<Rightarrow> u8 list \<Rightarrow> uarg list \<Rightarrow> u8 list option" where
  "uprintf_from st [] ap = Some []"
| "uprintf_from False (c # fmt) ap =
     (if c = 0x25 then uprintf_from True fmt ap else map_option ((#) c) (uprintf_from False fmt ap))"
| "uprintf_from True (c # fmt) ap =
     (if c = 0x64 then
        (case ap of UInt x # as \<Rightarrow> map_option ((@) (uprintint x 10 True)) (uprintf_from False fmt as) | _ \<Rightarrow> None)
      else if c = 0x78 \<or> c = 0x70 then
        (case ap of UInt x # as \<Rightarrow> map_option ((@) (uprintint x 16 False)) (uprintf_from False fmt as) | _ \<Rightarrow> None)
      else if c = 0x73 then
        (case ap of UStr t # as \<Rightarrow>
           map_option ((@) (case t of None \<Rightarrow> map of_char ''(null)'' | Some s \<Rightarrow> s)) (uprintf_from False fmt as)
         | _ \<Rightarrow> None)
      else if c = 0x63 then
        (case ap of UInt x # as \<Rightarrow> map_option ((#) (ucast x)) (uprintf_from False fmt as) | _ \<Rightarrow> None)
      else if c = 0x25 then map_option ((#) c) (uprintf_from False fmt ap)
      else map_option (\<lambda>out. 0x25 # c # out) (uprintf_from False fmt ap))"

definition uprintf :: "string \<Rightarrow> uarg list \<Rightarrow> u8 list option" where
  "uprintf fmt ap = uprintf_from False (map of_char fmt) ap"

subsection \<open>Reading\<close>

fun read_piece :: "nat \<Rightarrow> u8 list list \<Rightarrow> u8 list \<times> u8 list list" where
  "read_piece n [] = ([], [])"
| "read_piece n (p # ps) = (take n p, if length p \<le> n then ps else drop n p # ps)"

text \<open>\<open>gets_from k inp\<close> is the loop of \<open>gets\<close> with room for \<open>k\<close> more characters; it returns what it stores.\<close>

fun gets_from :: "nat \<Rightarrow> u8 list list \<Rightarrow> u8 list \<times> u8 list list" where
  "gets_from 0 inp = ([], inp)"
| "gets_from (Suc k) inp =
     (case read_piece 1 inp of
        ([], inp') \<Rightarrow> ([], inp')
      | (c # _, inp') \<Rightarrow>
          if c = 0x0A \<or> c = 0x0D then ([c], inp')
          else let (cs, rest) = gets_from k inp' in (c # cs, rest))"

definition gets_line :: "nat \<Rightarrow> u8 list list \<Rightarrow> u8 list \<times> u8 list list" where
  "gets_line mx inp = gets_from (mx - 1) inp"

lemma gets_from_split:
  "gets_from k inp = (cs, inp') \<Longrightarrow> length (concat inp') + length cs = length (concat inp)"
proof (induction k inp arbitrary: cs inp' rule: gets_from.induct)
  case (2 k inp)
  then show ?case by (cases inp) (auto split: list.splits if_splits prod.splits simp: Let_def)
qed simp

lemma gets_line_consumes: "gets_line mx inp = (c # cs, inp') \<Longrightarrow> length (concat inp') < length (concat inp)"
  unfolding gets_line_def by (drule gets_from_split) simp

subsection \<open>Printing and reading numbers\<close>

lemma below_ten: "(d :: nat) < 10 \<Longrightarrow> d \<in> {0, 1, 2, 3, 4, 5, 6, 7, 8, 9}"
  by auto

lemma udigit:
  assumes "d < 10"
  shows "udigits ! d = 48 + of_nat d" and "48 \<le> udigits ! d \<and> udigits ! d \<le> 57" and "(ucast (udigits ! d) :: u32) - 48 = of_nat d"
  using below_ten [OF assms] by (auto simp: udigits_def)

text \<open>The number that a list of decimal digits denotes, the most significant first.\<close>

definition decimal :: "u8 list \<Rightarrow> u32 \<Rightarrow> u32" where
  "decimal ds n = foldl (\<lambda>n d. n * 10 + ucast d - 48) n ds"

lemma decimal_digits: "decimal (rev (uprintint_digits 10 x)) 0 = of_nat x"
proof (induction x rule: less_induct)
  case (less x)
  have d: "ucast (udigits ! (x mod 10)) - 48 = (of_nat (x mod 10) :: u32)" by (rule udigit) simp
  have "(of_nat (x div 10 * 10 + x mod 10) :: u32) = of_nat (x div 10) * 10 + of_nat (x mod 10)"
    by (simp only: of_nat_add of_nat_mult of_nat_numeral)
  then have x: "(of_nat x :: u32) = of_nat (x div 10) * 10 + of_nat (x mod 10)"
    by (simp only: div_mult_mod_eq)
  show ?case
  proof (cases "x div 10 = 0")
    case True
    then show ?thesis
      using d by (simp add: uprintint_digits.simps [of 10 x] decimal_def)
  next
    case False
    then have "x div 10 < x" by (intro div_less_dividend) (auto intro: Nat.gr0I)
    from less.IH [OF this] have "decimal (rev (uprintint_digits 10 (x div 10))) 0 = of_nat (x div 10)" .
    then show ?thesis
      using d x False by (simp add: uprintint_digits.simps [of 10 x] decimal_def add_diff_eq [symmetric])
  qed
qed

lemma uprintint_digit_range: "d \<in> set (uprintint_digits 10 x) \<Longrightarrow> 48 \<le> d \<and> d \<le> 57"
proof (induction x rule: less_induct)
  case (less x)
  have "48 \<le> udigits ! (x mod 10) \<and> udigits ! (x mod 10) \<le> 57" by (rule udigit) simp
  moreover have "48 \<le> d \<and> d \<le> 57" if "x div 10 \<noteq> 0" "d \<in> set (uprintint_digits 10 (x div 10))"
    using that by (intro less.IH [of "x div 10"]) (auto intro!: div_less_dividend intro: Nat.gr0I)
  ultimately show ?case
    using less.prems by (auto simp: uprintint_digits.simps [of 10 x] split: if_splits)
qed

lemma atoi_decimal:
  "\<forall>d \<in> set ds. 48 \<le> d \<and> d \<le> 57 \<Longrightarrow> ulib_atoi_from (bytes ds) n = Some (decimal ds n)"
proof (induction ds arbitrary: n)
  case Nil
  then show ?case by (simp add: ulib_atoi_from.simps decimal_def)
next
  case (Cons d ds)
  then show ?case
    by (simp add: ulib_atoi_from.simps [of "bytes (d # ds)"] adv_bytes_Cons decimal_def)
qed

text \<open>
  C34. A non-negative number printed with \<open>%d\<close> is read back by \<open>atoi\<close>.
\<close>

theorem atoi_printint:
  assumes "0 \<le> sint x"
  shows "ulib_atoi (bytes (uprintint x 10 True)) = Some (sint x)"
proof -
  have "uprintint x 10 True = rev (uprintint_digits 10 (unat x))" using assms by (simp add: uprintint_def)
  moreover have "ulib_atoi_from (bytes (rev (uprintint_digits 10 (unat x)))) 0 = Some x"
    using atoi_decimal [of "rev (uprintint_digits 10 (unat x))" 0] uprintint_digit_range decimal_digits [of "unat x"]
    by simp
  ultimately show ?thesis by (simp add: ulib_atoi_def)
qed

theorem atoi_printint_witness: "ulib_atoi (bytes (uprintint 1984 10 True)) = Some 1984"
proof -
  have s: "sint (1984 :: u32) = 1984" by simp
  then have "0 \<le> sint (1984 :: u32)" by linarith
  from atoi_printint [OF this] show ?thesis unfolding s .
qed

end
