(* ===== verification/Grep.thy ===== *)
theory Grep
  imports Userlib
begin

section \<open>Searching for lines that match a pattern (grep.c)\<close>

text \<open>
  Patterns and lines are lists of characters without NUL. The matcher is compared with a reference
  semantics of patterns: the pattern is a sequence of items, and an item accepts a part of the text.
\<close>

abbreviation (input) STAR :: u8 where "STAR \<equiv> 0x2A"
abbreviation (input) DOT :: u8 where "DOT \<equiv> 0x2E"
abbreviation (input) DOLLAR :: u8 where "DOLLAR \<equiv> 0x24"
abbreviation (input) CARET :: u8 where "CARET \<equiv> 0x5E"
abbreviation (input) NL :: u8 where "NL \<equiv> 0x0A"

subsection \<open>The matcher\<close>

function (sequential) matchhere :: "u8 list \<Rightarrow> u8 list \<Rightarrow> bool"
  and matchstar :: "u8 \<Rightarrow> u8 list \<Rightarrow> u8 list \<Rightarrow> bool" where
  "matchhere [] text = True"
| "matchhere (c # re) text =
     (if re \<noteq> [] \<and> hd re = STAR then matchstar c (tl re) text
      else if c = DOLLAR \<and> re = [] then text = []
      else if text \<noteq> [] \<and> (c = DOT \<or> c = hd text) then matchhere re (tl text)
      else False)"
| "matchstar c re text =
     (if matchhere re text then True
      else if text \<noteq> [] \<and> (hd text = c \<or> c = DOT) then matchstar c re (tl text)
      else False)"
  by pat_completeness auto
termination
  by (relation "measure (\<lambda>x. case x of Inl (re, text) \<Rightarrow> 2 * (length re + length text)
      | Inr (c, re, text) \<Rightarrow> Suc (2 * (length re + length text)))")
    (auto simp: neq_Nil_conv)

fun match_from :: "u8 list \<Rightarrow> u8 list \<Rightarrow> bool" where
  "match_from re text =
     (if matchhere re text then True else case text of [] \<Rightarrow> False | _ # text' \<Rightarrow> match_from re text')"

definition match :: "u8 list \<Rightarrow> u8 list \<Rightarrow> bool" where
  "match re text = (if re \<noteq> [] \<and> hd re = CARET then matchhere (tl re) text else match_from re text)"

declare matchhere.simps(2) [simp del] matchstar.simps [simp del] match_from.simps [simp del]

subsection \<open>Scanning a file\<close>

text \<open>
  The inner loop over the buffer: the lines written, and the rest of the buffer from \<open>p\<close> on. \<open>strchr\<close>
  does not look behind a NUL.
\<close>

function grep_scan :: "u8 list \<Rightarrow> u8 list \<Rightarrow> u8 list list \<times> u8 list" where
  "grep_scan pattern p =
     (let line = takeWhile (\<lambda>c. c \<noteq> 0 \<and> c \<noteq> NL) p; q = drop (length line) p in
      if q \<noteq> [] \<and> hd q = NL then
        let (out, rest) = grep_scan pattern (tl q) in
        ((if match pattern line then [line @ [NL]] else []) @ out, rest)
      else ([], p))"
  by auto
termination
  by (relation "measure (length \<circ> snd)") auto

declare grep_scan.simps [simp del]

text \<open>One turn of the outer loop: a buffer without a complete line is emptied.\<close>

definition grep_step :: "u8 list \<Rightarrow> u8 list \<Rightarrow> u8 list list \<times> u8 list" where
  "grep_step pattern buf =
     (let (out, p) = grep_scan pattern buf in (out, if length p = length buf then [] else p))"

function grep :: "u8 list \<Rightarrow> u8 list \<Rightarrow> u8 list list \<Rightarrow> u8 list list" where
  "grep pattern buf fd =
     (let (c, fd') = read_piece (1024 - length buf - 1) fd in
      if c = [] then []
      else let (out, buf') = grep_step pattern (buf @ c) in out @ grep pattern buf' fd')"
  by auto
termination
proof (relation "measure (\<lambda>(pattern, buf, fd). sum_list (map length fd))", goal_cases)
  case (2 pattern buf fd x c fd' y out buf')
  then show ?case by (cases fd) auto
qed simp

declare grep.simps [simp del]

text \<open>
  \<open>main\<close>: what is written to which descriptor, given the arguments, the standard input and what opening
  a file gives.
\<close>

definition umsg :: "int \<Rightarrow> string \<Rightarrow> uarg list \<Rightarrow> (int \<times> u8 list) list" where
  "umsg fd fmt ap = (case uprintf fmt ap of None \<Rightarrow> [] | Some out \<Rightarrow> [(fd, out)])"

fun grep_files :: "u8 list \<Rightarrow> (u8 list \<Rightarrow> u8 list list option) \<Rightarrow> u8 list list \<Rightarrow> (int \<times> u8 list) list" where
  "grep_files pattern open_file [] = []"
| "grep_files pattern open_file (f # fs) =
     (case open_file f of
        None \<Rightarrow> umsg 1 (''grep: cannot open %s'' @ [CHR 0x0A]) [UStr (Some f)]
      | Some fd \<Rightarrow> map (Pair 1) (grep pattern [] fd) @ grep_files pattern open_file fs)"

definition grep_main :: "u8 list list \<Rightarrow> u8 list list \<Rightarrow> (u8 list \<Rightarrow> u8 list list option) \<Rightarrow> (int \<times> u8 list) list" where
  "grep_main argv stdin open_file =
     (if length argv \<le> 1 then umsg 2 (''usage: grep pattern [file ...]'' @ [CHR 0x0A]) []
      else if length argv \<le> 2 then map (Pair 1) (grep (argv ! 1) [] stdin)
      else grep_files (argv ! 1) open_file (drop 2 argv))"

subsection \<open>What a pattern means\<close>

datatype item = Star u8 | Eol | One u8

fun items :: "u8 list \<Rightarrow> item list" where
  "items [] = []"
| "items [c] = (if c = DOLLAR then [Eol] else [One c])"
| "items (c # d # re) = (if d = STAR then Star c # items re else One c # items (d # re))"

definition fits :: "u8 \<Rightarrow> u8 \<Rightarrow> bool" where
  "fits c x \<longleftrightarrow> c = DOT \<or> c = x"

text \<open>A sequence of items accepts a text if it accepts some beginning of it.\<close>

inductive accepts :: "item list \<Rightarrow> u8 list \<Rightarrow> bool" where
  accepts_Nil: "accepts [] t"
| accepts_Star: "\<forall>x \<in> set u. fits c x \<Longrightarrow> accepts is t \<Longrightarrow> accepts (Star c # is) (u @ t)"
| accepts_Eol: "accepts [Eol] []"
| accepts_One: "fits c x \<Longrightarrow> accepts is t \<Longrightarrow> accepts (One c # is) (x # t)"

inductive_simps accepts_simps [simp]: "accepts [] t" "accepts [Eol] t" "accepts (One c # is) t"

inductive_cases accepts_StarE: "accepts (Star c # is) t"

lemma accepts_Star_iff:
  "accepts (Star c # is) t \<longleftrightarrow> accepts is t \<or> (\<exists>x t'. t = x # t' \<and> fits c x \<and> accepts (Star c # is) t')"
proof
  assume "accepts (Star c # is) t"
  then obtain u t' where t: "t = u @ t'" "\<forall>x \<in> set u. fits c x" "accepts is t'" by (rule accepts_StarE)
  then show "accepts is t \<or> (\<exists>x t'. t = x # t' \<and> fits c x \<and> accepts (Star c # is) t')"
    by (cases u) (auto intro: accepts_Star)
next
  assume "accepts is t \<or> (\<exists>x t'. t = x # t' \<and> fits c x \<and> accepts (Star c # is) t')"
  then show "accepts (Star c # is) t"
  proof
    assume "accepts is t"
    then show ?thesis using accepts_Star [of "[]"] by simp
  next
    assume "\<exists>x t'. t = x # t' \<and> fits c x \<and> accepts (Star c # is) t'"
    then obtain x t' where t: "t = x # t'" "fits c x" "accepts (Star c # is) t'" by blast
    from t(3) obtain u v where "t' = u @ v" "\<forall>x \<in> set u. fits c x" "accepts is v" by (rule accepts_StarE)
    then show ?thesis using t(1,2) accepts_Star [of "x # u"] by auto
  qed
qed

lemma matcher_accepts:
  "matchhere re tx \<longleftrightarrow> accepts (items re) tx"
  "matchstar c re tx \<longleftrightarrow> accepts (Star c # items re) tx"
proof (induction re tx and c re tx rule: matchhere_matchstar.induct)
  case (2 c re tx)
  show ?case
  proof (cases re)
    case Nil
    then show ?thesis using 2 by (cases tx) (auto simp: matchhere.simps(2) fits_def)
  next
    case (Cons d re')
    then show ?thesis using 2 by (cases tx) (auto simp: matchhere.simps(2) fits_def)
  qed
next
  case (3 c re tx)
  then show ?case
    unfolding matchstar.simps [of c re tx] accepts_Star_iff [of c "items re" tx] by (cases tx) (auto simp: fits_def)
qed simp

lemma match_from_iff: "match_from re tx \<longleftrightarrow> (\<exists>pre post. tx = pre @ post \<and> accepts (items re) post)"
proof (induction re tx rule: match_from.induct)
  case (1 re tx)
  then show ?case
    by (cases tx) (auto simp: match_from.simps [of re] matcher_accepts Cons_eq_append_conv)
qed

text \<open>
  C32. The matcher decides the meaning of a pattern: a pattern that starts with a caret matches a line
  that its items accept from the beginning, any other pattern a line some end of which its items accept.
\<close>

theorem match_decides_pattern:
  "match re tx \<longleftrightarrow>
     (if re \<noteq> [] \<and> hd re = CARET then accepts (items (tl re)) tx
      else \<exists>pre post. tx = pre @ post \<and> accepts (items re) post)"
  by (simp add: match_def matcher_accepts match_from_iff)

subsection \<open>What grep prints\<close>

definition line_ok :: "u8 list \<Rightarrow> bool" where
  "line_ok l \<longleftrightarrow> 0 \<notin> set l \<and> NL \<notin> set l \<and> length l < 1023"

abbreviation (input) file_of :: "u8 list list \<Rightarrow> u8 list" where
  "file_of ls \<equiv> concat (map (\<lambda>l. l @ [NL]) ls)"

lemma takeWhile_line: "0 \<notin> set l \<Longrightarrow> NL \<notin> set l \<Longrightarrow> takeWhile (\<lambda>c. c \<noteq> 0 \<and> c \<noteq> NL) (l @ NL # r) = l"
  by (induction l) auto

lemma grep_scan_line:
  assumes "line_ok l"
  shows "grep_scan pat (l @ NL # r) =
     ((if match pat l then [l @ [NL]] else []) @ fst (grep_scan pat r), snd (grep_scan pat r))"
  using assms by (subst grep_scan.simps) (simp add: takeWhile_line line_ok_def Let_def split_beta)

lemma grep_scan_rest: "NL \<notin> set r \<Longrightarrow> grep_scan pat r = ([], r)"
proof -
  assume nl: "NL \<notin> set r"
  let ?q = "drop (length (takeWhile (\<lambda>c. c \<noteq> 0 \<and> c \<noteq> NL) r)) r"
  have "hd ?q \<in> set r" if "?q \<noteq> []" using hd_in_set [OF that] set_drop_subset by (rule rev_subsetD)
  then have "?q \<noteq> [] \<Longrightarrow> hd ?q \<noteq> NL" using nl by auto
  then show ?thesis by (subst grep_scan.simps) (auto simp: Let_def)
qed

lemma grep_scan_lines:
  "list_all line_ok ls \<Longrightarrow> NL \<notin> set r \<Longrightarrow>
     grep_scan pat (file_of ls @ r) = (map (\<lambda>l. l @ [NL]) (filter (match pat) ls), r)"
  by (induction ls) (auto simp: grep_scan_line grep_scan_rest)

text \<open>A beginning of a file splits into complete lines and a part of the next line.\<close>

lemma take_file:
  assumes "list_all line_ok ls"
  shows "\<exists>ls1 ls2 r r'. ls = ls1 @ ls2 \<and> take n (file_of ls) = file_of ls1 @ r \<and> NL \<notin> set r \<and>
     r @ r' = file_of ls2 \<and> drop n (file_of ls) = r' \<and>
     (ls \<noteq> [] \<and> 1023 \<le> n \<longrightarrow> ls1 \<noteq> []) \<and> (length (file_of ls) \<le> n \<longrightarrow> ls2 = [])"
  using assms
proof (induction ls arbitrary: n)
  case (Cons l ls)
  have l: "line_ok l" using Cons.prems by simp
  show ?case
  proof (cases "n \<le> length l")
    case True
    have "\<not> 1023 \<le> n" "\<not> length (file_of (l # ls)) \<le> n" using True l by (simp_all add: line_ok_def)
    moreover have "NL \<notin> set (take n l)" using l by (auto simp: line_ok_def dest: in_set_takeD)
    ultimately show ?thesis
      using True by (intro exI [of _ "[]"] exI [of _ "l # ls"] exI [of _ "take n l"] exI [of _ "drop n l @ NL # file_of ls"])
        (simp del: length_concat)
  next
    case False
    define k where "k = n - Suc (length l)"
    obtain ls1 ls2 r r' where s: "ls = ls1 @ ls2" "take k (file_of ls) = file_of ls1 @ r" "NL \<notin> set r"
        "r @ r' = file_of ls2" "drop k (file_of ls) = r'" "length (file_of ls) \<le> k \<longrightarrow> ls2 = []"
      using Cons.IH [of k] Cons.prems unfolding list.pred_inject(2) by blast
    have "take n (file_of (l # ls)) = l @ NL # take k (file_of ls)" "drop n (file_of (l # ls)) = drop k (file_of ls)"
      using False by (simp_all add: k_def take_Cons' drop_Cons' Suc_diff_le)
    then show ?thesis
      using s False by (intro exI [of _ "l # ls1"] exI [of _ ls2] exI [of _ r] exI [of _ r']) (auto simp: k_def)
  qed
qed simp

lemma grep_lines:
  assumes "list_all line_ok ls" and "buf @ inp = file_of ls" and "NL \<notin> set buf" and "length buf < 1023"
  shows "grep pat buf (if inp = [] then [] else [inp]) = map (\<lambda>l. l @ [NL]) (filter (match pat) ls)"
  using assms
proof (induction "length inp" arbitrary: ls buf inp rule: less_induct)
  case less
  show ?case
  proof (cases "inp = []")
    case True
    then have "ls = []" using less.prems(2,3) by (cases ls) auto
    then show ?thesis using True by (simp add: grep.simps)
  next
    case False
    let ?n = "1023 - length buf" and ?b = "take 1023 (file_of ls)"
    have b: "?b = buf @ take ?n inp" "drop 1023 (file_of ls) = drop ?n inp"
      using less.prems(2,4) by (simp_all flip: less.prems(2))
    obtain ls1 ls2 r r' where s: "ls = ls1 @ ls2" "?b = file_of ls1 @ r" "NL \<notin> set r"
        "r @ r' = file_of ls2" "drop 1023 (file_of ls) = r'" "ls \<noteq> [] \<and> 1023 \<le> (1023 :: nat) \<longrightarrow> ls1 \<noteq> []"
      using take_file [OF less.prems(1), of 1023] by blast
    have ls1: "ls1 \<noteq> []" using s(6) False less.prems(2) by auto
    have ok: "list_all line_ok ls1" "list_all line_ok ls2" using less.prems(1) s(1) by simp_all
    have step: "grep_step pat (buf @ take ?n inp) = (map (\<lambda>l. l @ [NL]) (filter (match pat) ls1), r)"
      using grep_scan_lines [OF ok(1) s(3)] s(2) ls1 b(1) by (simp add: grep_step_def)
    have n: "0 < ?n" "take ?n inp \<noteq> []" using less.prems(4) False by auto
    have fd: "read_piece (1024 - length buf - 1) [inp] = (take ?n inp, if r' = [] then [] else [r'])"
      using b(2) s(5) by auto
    have "length r < 1023" using ls1 arg_cong [OF s(2), of length] by (cases ls1) auto
    moreover have "length r' < length inp"
      using arg_cong [OF trans [OF s(5) [symmetric] b(2)], of length] diff_less [of ?n "length inp"] n(1) False by simp
    ultimately have "grep pat r (if r' = [] then [] else [r']) = map (\<lambda>l. l @ [NL]) (filter (match pat) ls2)"
      using less.hyps [of r' ls2 r] ok(2) s(3,4) by simp
    then show ?thesis
      using False fd step n s(1) by (simp add: grep.simps [of pat buf])
  qed
qed

text \<open>
  C33. On a file that consists of lines of less than 1023 characters, each ended by a newline and without
  NUL, grep prints exactly the lines that match, in their order.
\<close>

theorem grep_prints_matching_lines:
  assumes "list_all line_ok ls" and "ls \<noteq> []"
  shows "grep pat [] [file_of ls] = map (\<lambda>l. l @ [NL]) (filter (match pat) ls)"
  using grep_lines [OF assms(1), of "[]" "file_of ls" pat] assms(2) by (cases ls) auto

theorem grep_prints_matching_lines_witness:
  "grep (map of_char ''^a.*c$'') [] [map of_char ''abc'' @ [NL] @ map of_char ''cab'' @ [NL]] = [map of_char ''abc'' @ [NL]]"
proof -
  have "match (map of_char ''^a.*c$'') (map of_char ''abc'')" "\<not> match (map of_char ''^a.*c$'') (map of_char ''cab'')"
    by code_simp+
  then show ?thesis
    using grep_prints_matching_lines [of "[map of_char ''abc'', map of_char ''cab'']" "map of_char ''^a.*c$''"]
    by (simp add: line_ok_def)
qed

text \<open>
  What arrives in a read without a newline is lost: grep searches the rest of the input as if the
  characters before had not been there.
\<close>

lemma grep_loses_partial_line:
  assumes "p \<noteq> []" and "NL \<notin> set p" and "length p \<le> 1023"
  shows "grep pat [] (p # ps) = grep pat [] ps"
  using assms by (subst grep.simps) (simp add: grep_step_def grep_scan_rest)

lemma grep_loses_partial_line_example:
  "grep [0x61] [] [[0x61], [NL]] = [] \<and> match [0x61] [0x61]"
proof -
  have "grep [0x61] [] [[NL]] = []" by code_simp
  moreover have "match [0x61] [0x61]" by code_simp
  ultimately show ?thesis using grep_loses_partial_line [of "[0x61]" "[0x61]" "[[NL]]"] by simp
qed

end
