(* ===== verification/Sh.thy ===== *)
theory Sh
  imports Userlib
begin

section \<open>The shell (sh.c)\<close>

text \<open>
  The line that the parser works on is a list of characters without NUL; a pointer into it is an index,
  and the character at its end is NUL. A word of a command is a pair of such indices, where it begins
  and where it ends. On a syntax error the parser stops with what it writes to descriptor 2. What a
  process of the shell does is the tree of the system calls that it makes.
\<close>

subsection \<open>Commands\<close>

type_synonym span = "nat \<times> nat"

datatype cmd =
    EXEC "span list"
  | REDIR cmd span nat nat
  | PIPE cmd cmd
  | LIST cmd cmd
  | BACK cmd

datatype 'a parsed = POk 'a | PSyntax "u8 list" | PFuel

definition panics :: "string \<Rightarrow> u8 list" where
  "panics s = map of_char s @ [0x0A]"

fun pbind :: "'a parsed \<Rightarrow> ('a \<Rightarrow> 'b parsed) \<Rightarrow> 'b parsed" where
  "pbind (POk x) f = f x"
| "pbind (PSyntax e) f = PSyntax e"
| "pbind PFuel f = PFuel"

subsection \<open>Tokens\<close>

definition whitespace :: "u8 list" where
  "whitespace = map of_char '' '' @ [0x09, 0x0D, 0x0A, 0x0B]"

definition symbols :: "u8 list" where
  "symbols = map of_char ''<|>&;()''"

definition ch :: "u8 list \<Rightarrow> nat \<Rightarrow> u8" where
  "ch b s = (if s < length b then b ! s else 0)"

definition skip_ws :: "u8 list \<Rightarrow> nat \<Rightarrow> nat" where
  "skip_ws b s = s + length (takeWhile (\<lambda>c. c \<in> set whitespace) (drop s b))"

definition skip_word :: "u8 list \<Rightarrow> nat \<Rightarrow> nat" where
  "skip_word b s = s + length (takeWhile (\<lambda>c. c \<notin> set whitespace \<and> c \<notin> set symbols) (drop s b))"

text \<open>\<open>gettoken\<close> returns the token, its span and the position behind it; 0x61 stands for a word.\<close>

definition token_end :: "u8 list \<Rightarrow> nat \<Rightarrow> u8 \<times> nat" where
  "token_end b s =
     (let c = ch b s in
      if c = 0 then (0, s)
      else if c \<in> set (map of_char ''|();&<'') then (c, s + 1)
      else if c = 0x3E then (if ch b (s + 1) = 0x3E then (0x2B, s + 2) else (c, s + 1))
      else (0x61, skip_word b s))"

definition gettoken :: "u8 list \<Rightarrow> nat \<Rightarrow> u8 \<times> span \<times> nat" where
  "gettoken b ps =
     (let s = skip_ws b ps; (tok, e) = token_end b s in (tok, (s, e), skip_ws b e))"

definition peek :: "u8 list \<Rightarrow> nat \<Rightarrow> string \<Rightarrow> bool" where
  "peek b ps toks = (let c = ch b (skip_ws b ps) in c \<noteq> 0 \<and> c \<in> set (map of_char toks))"

abbreviation (input) next_pos :: "u8 list \<Rightarrow> nat \<Rightarrow> nat" where
  "next_pos b s \<equiv> snd (snd (gettoken b s))"

subsection \<open>Progress of the scanner\<close>

lemma whitespace_simps: "c \<in> set whitespace \<longleftrightarrow> c = 0x20 \<or> c = 0x09 \<or> c = 0x0D \<or> c = 0x0A \<or> c = 0x0B"
  by (auto simp: whitespace_def)

lemma symbols_simps: "c \<in> set symbols \<longleftrightarrow>
    c = 0x3C \<or> c = 0x7C \<or> c = 0x3E \<or> c = 0x26 \<or> c = 0x3B \<or> c = 0x28 \<or> c = 0x29"
  by (auto simp: symbols_def)

lemma skip_ws_ge [simp]: "s \<le> skip_ws b s"
  by (simp add: skip_ws_def)

lemma skip_ws_le [simp]: "s \<le> length b \<Longrightarrow> skip_ws b s \<le> length b"
  using length_takeWhile_le [of "\<lambda>c. c \<in> set whitespace" "drop s b"] by (simp add: skip_ws_def)

lemma skip_word_le [simp]: "s \<le> length b \<Longrightarrow> skip_word b s \<le> length b"
  using length_takeWhile_le [of "\<lambda>c. c \<notin> set whitespace \<and> c \<notin> set symbols" "drop s b"] by (simp add: skip_word_def)

lemma ch_nonzero: "ch b s \<noteq> 0 \<Longrightarrow> s < length b"
  by (simp add: ch_def split: if_splits)

lemma skip_ws_stop: "ch b (skip_ws b s) \<notin> set whitespace"
proof (cases "skip_ws b s < length b")
  case True
  let ?P = "\<lambda>c. c \<in> set whitespace"
  have "length (takeWhile ?P (drop s b)) < length (drop s b)" using True by (simp add: skip_ws_def)
  from nth_length_takeWhile [OF this] show ?thesis using True by (simp add: ch_def skip_ws_def add.commute)
qed (simp add: ch_def whitespace_simps)

lemma token_end_le: "s \<le> length b \<Longrightarrow> snd (token_end b s) \<le> length b"
  using ch_nonzero [of b s] ch_nonzero [of b "s + 1"] by (auto simp: token_end_def Let_def)

lemma token_end_ge: "s \<le> snd (token_end b s)"
  by (auto simp: token_end_def Let_def skip_word_def)

lemma word_nonempty:
  assumes "ch b s \<noteq> 0" and "ch b s \<notin> set whitespace" and "ch b s \<notin> set symbols"
  shows "s < skip_word b s"
proof -
  have s: "s < length b" using assms(1) by (rule ch_nonzero)
  then have "drop s b = ch b s # drop (Suc s) b" by (simp add: ch_def Cons_nth_drop_Suc)
  then show ?thesis using assms by (simp add: skip_word_def)
qed

lemma token_end_less:
  assumes "ch b s \<noteq> 0" and "ch b s \<notin> set whitespace"
  shows "s < snd (token_end b s)"
  using word_nonempty [OF assms] assms by (auto simp: token_end_def Let_def symbols_simps)

lemma next_pos_le: "s \<le> length b \<Longrightarrow> next_pos b s \<le> length b"
  by (simp add: gettoken_def Let_def split_beta token_end_le)

lemma next_pos_ge: "s \<le> next_pos b s"
  using token_end_ge [of "skip_ws b s" b] skip_ws_ge [of s b] skip_ws_ge [of "snd (token_end b (skip_ws b s))" b]
  by (simp add: gettoken_def Let_def split_beta del: skip_ws_ge)

lemma next_pos_gt: "ch b (skip_ws b s) \<noteq> 0 \<Longrightarrow> s < next_pos b s"
  using token_end_less [of b "skip_ws b s"] skip_ws_stop [of b s] skip_ws_ge [of s b]
    skip_ws_ge [of "snd (token_end b (skip_ws b s))" b]
  by (simp add: gettoken_def Let_def split_beta del: skip_ws_ge)

lemma token_progress: "fst (gettoken b s) \<noteq> 0 \<Longrightarrow> s < next_pos b s \<and> s < length b"
  using next_pos_gt [of b s] ch_nonzero [of b "skip_ws b s"] skip_ws_ge [of s b]
  by (auto simp: gettoken_def Let_def split_beta token_end_def simp del: skip_ws_ge)

lemma peek_progress: "peek b s toks \<Longrightarrow> s < next_pos b s \<and> s < length b"
  using next_pos_gt [of b s] ch_nonzero [of b "skip_ws b s"] skip_ws_ge [of s b]
  by (auto simp: peek_def Let_def simp del: skip_ws_ge)

subsection \<open>The parser\<close>

text \<open>The loop of \<open>parseline\<close> over ampersands.\<close>

function parse_backs :: "u8 list \<Rightarrow> cmd \<Rightarrow> nat \<Rightarrow> cmd \<times> nat" where
  "parse_backs b c s =
     (if peek b s ''&'' then parse_backs b (BACK c) (next_pos b s) else (c, skip_ws b s))"
  by auto
termination
  by (relation "measure (\<lambda>(b, c, s). length b - s)") (auto dest: peek_progress)

abbreviation (input) O_CREATE_WRONLY :: nat where "O_CREATE_WRONLY \<equiv> 0x201"

definition redir_of :: "u8 \<Rightarrow> span \<Rightarrow> span \<times> nat \<times> nat" where
  "redir_of tok w = (if tok = 0x3C then (w, 0, 0) else (w, O_CREATE_WRONLY, 1))"

text \<open>
  \<open>parseredirs\<close> returns the redirections it adds around its command, the innermost first. The command may
  still be filled in afterwards: \<open>parseexec\<close> stores the arguments in the node it created first.
\<close>

function parseredirs :: "u8 list \<Rightarrow> nat \<Rightarrow> ((span \<times> nat \<times> nat) list \<times> nat) parsed" where
  "parseredirs b s =
     (if peek b s ''<>'' then
        (case gettoken b s of (tok, _, s1) \<Rightarrow>
         case gettoken b s1 of (tok2, w, s2) \<Rightarrow>
         if tok2 \<noteq> 0x61 then PSyntax (panics ''missing file for redirection'')
         else case parseredirs b s2 of
                POk (rs, s3) \<Rightarrow> POk (redir_of tok w # rs, s3)
              | PSyntax e \<Rightarrow> PSyntax e
              | PFuel \<Rightarrow> PFuel)
      else POk ([], skip_ws b s))"
  by pat_completeness auto
termination
proof (relation "measure (\<lambda>(b, s). length b - s)", goal_cases)
  case (2 b s tok x w s1 tok2 y w' s2)
  have "s < s1 \<and> s < length b" using peek_progress [OF 2(1)] 2(2,3) by (metis snd_conv)
  moreover have "s1 \<le> s2" using next_pos_ge [of s1 b] 2(4,5) by (metis snd_conv)
  ultimately show ?case by auto
qed simp

declare parse_backs.simps [simp del] parseredirs.simps [simp del]

fun redirect :: "cmd \<Rightarrow> (span \<times> nat \<times> nat) list \<Rightarrow> cmd" where
  "redirect c [] = c"
| "redirect c ((w, mode, fd) # rs) = redirect (REDIR c w mode fd) rs"

lemma parseredirs_ge: "parseredirs b s = POk (rs, t) \<Longrightarrow> s \<le> t"
proof (induction b s arbitrary: rs t rule: parseredirs.induct)
  case (1 b s)
  show ?case
  proof (cases "peek b s ''<>''")
    case True
    obtain tok w s1 where g1: "gettoken b s = (tok, w, s1)" by (metis surj_pair)
    obtain tok2 w2 s2 where g2: "gettoken b s1 = (tok2, w2, s2)" by (metis surj_pair)
    have "s \<le> s1" "s1 \<le> s2" using next_pos_ge [of s b] next_pos_ge [of s1 b] g1 g2 by simp_all
    moreover have "tok2 = 0x61" using 1(2) True g1 g2 by (simp add: parseredirs.simps [of b s] split: if_splits)
    ultimately show ?thesis
      using 1(2) 1(1) [OF True g1 [symmetric] refl g2 [symmetric] refl] True g1 g2
      by (fastforce simp: parseredirs.simps [of b s] split: parsed.splits)
  next
    case False
    then show ?thesis using 1(2) skip_ws_ge [of s b] by (simp add: parseredirs.simps [of b s])
  qed
qed

text \<open>
  The loop of \<open>parseexec\<close> over the arguments: the remaining arguments and redirections.
\<close>

function parse_args :: "u8 list \<Rightarrow> nat \<Rightarrow> nat \<Rightarrow> ((span list \<times> (span \<times> nat \<times> nat) list) \<times> nat) parsed" where
  "parse_args b argc s =
     (if \<not> peek b s ''|)&;'' then
        (case gettoken b s of (tok, w, s1) \<Rightarrow>
         if tok = 0 then POk (([], []), s1)
         else if tok \<noteq> 0x61 then PSyntax (panics ''syntax'')
         else if argc + 1 \<ge> 10 then PSyntax (panics ''too many args'')
         else case parseredirs b s1 of
                POk (rs, s2) \<Rightarrow>
                  (case parse_args b (argc + 1) s2 of
                     POk ((ws, rs'), s3) \<Rightarrow> POk ((w # ws, rs @ rs'), s3)
                   | PSyntax e \<Rightarrow> PSyntax e
                   | PFuel \<Rightarrow> PFuel)
              | PSyntax e \<Rightarrow> PSyntax e
              | PFuel \<Rightarrow> PFuel)
      else POk (([], []), skip_ws b s))"
  by pat_completeness auto
termination
  by (relation "measure (\<lambda>(b, argc, s). 10 - argc)") auto

declare parse_args.simps [simp del]

definition parse_words :: "u8 list \<Rightarrow> nat \<Rightarrow> (cmd \<times> nat) parsed" where
  "parse_words b s =
     pbind (parseredirs b s) (\<lambda>(rs, s1).
     pbind (parse_args b 0 s1) (\<lambda>((ws, rs'), s2).
     POk (redirect (EXEC ws) (rs @ rs'), s2)))"

text \<open>The four routines that call each other; the number bounds the depth of the calls.\<close>

fun parseline :: "nat \<Rightarrow> u8 list \<Rightarrow> nat \<Rightarrow> (cmd \<times> nat) parsed"
  and parsepipe :: "nat \<Rightarrow> u8 list \<Rightarrow> nat \<Rightarrow> (cmd \<times> nat) parsed"
  and parseexec :: "nat \<Rightarrow> u8 list \<Rightarrow> nat \<Rightarrow> (cmd \<times> nat) parsed"
  and parseblock :: "nat \<Rightarrow> u8 list \<Rightarrow> nat \<Rightarrow> (cmd \<times> nat) parsed" where
  "parseline 0 b s = PFuel"
| "parseline (Suc n) b s =
     pbind (parsepipe n b s) (\<lambda>(c, s1).
     case parse_backs b c s1 of (c, s2) \<Rightarrow>
     if peek b s2 '';'' then
       pbind (parseline n b (next_pos b s2)) (\<lambda>(d, s3). POk (LIST c d, s3))
     else POk (c, skip_ws b s2))"
| "parsepipe 0 b s = PFuel"
| "parsepipe (Suc n) b s =
     pbind (parseexec n b s) (\<lambda>(c, s1).
     if peek b s1 ''|'' then
       pbind (parsepipe n b (next_pos b s1)) (\<lambda>(d, s2). POk (PIPE c d, s2))
     else POk (c, skip_ws b s1))"
| "parseexec 0 b s = PFuel"
| "parseexec (Suc n) b s =
     (if peek b s ''('' then parseblock n b (skip_ws b s) else parse_words b (skip_ws b s))"
| "parseblock 0 b s = PFuel"
| "parseblock (Suc n) b s =
     (if \<not> peek b s ''('' then PSyntax (panics ''parseblock'')
      else pbind (parseline n b (next_pos b s)) (\<lambda>(c, s1).
        if \<not> peek b s1 '')'' then PSyntax (panics ''syntax - missing )'')
        else pbind (parseredirs b (next_pos b s1)) (\<lambda>(rs, s2). POk (redirect c rs, s2))))"

definition parsecmd :: "u8 list \<Rightarrow> cmd parsed" where
  "parsecmd b =
     pbind (parseline (4 * length b + 4) b 0) (\<lambda>(c, s).
     let s' = skip_ws b s in
     if s' \<noteq> length b then PSyntax (map of_char ''leftovers: '' @ drop s' b @ [0x0A] @ panics ''syntax'') else POk c)"

text \<open>\<open>nulterminate\<close> stores a NUL at the end of every word.\<close>

fun nulterminate :: "cmd \<Rightarrow> u8 list \<Rightarrow> u8 list" where
  "nulterminate (EXEC ws) buf = fold (\<lambda>(q, e) buf. buf[e := 0]) ws buf"
| "nulterminate (REDIR c (q, e) mode fd) buf = (nulterminate c buf)[e := 0]"
| "nulterminate (PIPE c d) buf = nulterminate d (nulterminate c buf)"
| "nulterminate (LIST c d) buf = nulterminate d (nulterminate c buf)"
| "nulterminate (BACK c) buf = nulterminate c buf"

subsection \<open>Running commands\<close>

text \<open>
  The system calls of a process of the shell, with what follows for each result: \<open>AExec\<close> continues if the
  call fails, \<open>AOpen\<close> on failure and on success, \<open>AFork\<close> in the child, in the parent, and on failure, \<open>APipe\<close>
  on failure and with the two descriptors, \<open>AChdir\<close> on failure and on success. \<open>runcmd\<close> never returns, so that its tree ends everywhere with
  exit.
\<close>

datatype act =
    AExit
  | AExec "u8 list list" act
  | APrint int "u8 list" act
  | AClose nat act
  | AOpen "u8 list" nat act act
  | AFork act act act
  | AWait act
  | APipe act "nat \<Rightarrow> nat \<Rightarrow> act"
  | ADup nat act
  | AChdir "u8 list" act act

definition sh_panic :: "string \<Rightarrow> act" where
  "sh_panic s = APrint 2 (panics s) AExit"

definition fork1 :: "act \<Rightarrow> act \<Rightarrow> act" where
  "fork1 child parent = AFork child parent (sh_panic ''fork'')"

definition sh_failed :: "string \<Rightarrow> u8 list \<Rightarrow> act" where
  "sh_failed s name = APrint 2 (map of_char s @ name @ map of_char ('' failed'' @ [CHR 0x0A])) AExit"

text \<open>The string at a position of a buffer.\<close>

definition string_at :: "u8 list \<Rightarrow> nat \<Rightarrow> u8 list" where
  "string_at buf q = takeWhile (\<lambda>c. c \<noteq> 0) (drop q buf)"

primrec runcmd :: "u8 list \<Rightarrow> cmd \<Rightarrow> act" where
  "runcmd buf (EXEC ws) =
     (let argv = map (string_at buf \<circ> fst) ws in
      if argv = [] then AExit else AExec argv (sh_failed ''exec '' (hd argv)))"
| "runcmd buf (REDIR c w mode fd) =
     (let file = string_at buf (fst w) in
      AClose fd (AOpen file mode (sh_failed ''open '' file) (runcmd buf c)))"
| "runcmd buf (LIST c d) = fork1 (runcmd buf c) (AWait (runcmd buf d))"
| "runcmd buf (PIPE c d) =
     APipe (sh_panic ''pipe'') (\<lambda>p0 p1.
       fork1 (AClose 1 (ADup p1 (AClose p0 (AClose p1 (runcmd buf c)))))
      (fork1 (AClose 0 (ADup p0 (AClose p0 (AClose p1 (runcmd buf d)))))
      (AClose p0 (AClose p1 (AWait (AWait AExit))))))"
| "runcmd buf (BACK c) = fork1 (runcmd buf c) AExit"

text \<open>
  The loop of \<open>main\<close>. A line ends at its first NUL; the child of the shell parses and runs it, except that
  the shell itself changes its directory.
\<close>

definition getcmd :: "u8 list list \<Rightarrow> (u8 list \<times> u8 list list) option" where
  "getcmd inp =
     (case gets_line 100 inp of (buf, inp') \<Rightarrow>
      let line = takeWhile (\<lambda>c. c \<noteq> 0) buf in if line = [] then None else Some (line, inp'))"

lemma getcmd_consumes:
  assumes "getcmd inp = Some (line, inp')"
  shows "length (concat inp') < length (concat inp)"
proof -
  obtain c cs where "gets_line 100 inp = (c # cs, inp')"
    using assms by (cases "fst (gets_line 100 inp)") (auto simp: getcmd_def Let_def split: prod.splits if_splits)
  then show ?thesis by (rule gets_line_consumes)
qed

definition sh_child :: "u8 list \<Rightarrow> act" where
  "sh_child line =
     (case parsecmd line of
        POk c \<Rightarrow> runcmd (nulterminate c (line @ [0])) c
      | PSyntax out \<Rightarrow> APrint 2 out AExit
      | PFuel \<Rightarrow> AExit)"

function sh_loop :: "u8 list list \<Rightarrow> act" where
  "sh_loop inp =
     APrint 2 (map of_char ''$ '')
     (case getcmd inp of
        None \<Rightarrow> AExit
      | Some (line, inp') \<Rightarrow>
          if take 3 line = map of_char ''cd '' then
            (let dir = drop 3 (butlast line) in
             AChdir dir (APrint 2 (map of_char ''cannot cd '' @ dir @ [0x0A]) (sh_loop inp')) (sh_loop inp'))
          else fork1 (sh_child line) (AWait (sh_loop inp')))"
  by auto
termination
  by (relation "measure (\<lambda>inp. length (concat inp))") (auto dest!: sym [of "Some _"] dest: getcmd_consumes)

declare sh_loop.simps [simp del]

subsection \<open>Results of the parser\<close>

text \<open>
  A span is a word if it is a maximal run of characters that are neither blanks nor symbols. A routine
  called at position \<open>s\<close> does its work if it reports an error or stops at a position from \<open>s\<close> on with a
  result of which \<open>P\<close> holds; it does not run out of fuel.
\<close>

definition plain :: "u8 \<Rightarrow> bool" where
  "plain c \<longleftrightarrow> c \<notin> set whitespace \<and> c \<notin> set symbols"

definition is_word :: "u8 list \<Rightarrow> span \<Rightarrow> bool" where
  "is_word b w \<longleftrightarrow> fst w < snd w \<and> snd w \<le> length b \<and> (\<forall>i. fst w \<le> i \<and> i < snd w \<longrightarrow> plain (b ! i)) \<and>
     (snd w < length b \<longrightarrow> \<not> plain (b ! snd w))"

definition parse_ok :: "u8 list \<Rightarrow> nat \<Rightarrow> ('a \<Rightarrow> bool) \<Rightarrow> ('a \<times> nat) parsed \<Rightarrow> bool" where
  "parse_ok b s P r \<longleftrightarrow> (case r of POk (x, t) \<Rightarrow> s \<le> t \<and> t \<le> length b \<and> P x | PSyntax e \<Rightarrow> True | PFuel \<Rightarrow> False)"

lemma parse_ok_simps [simp]:
  "parse_ok b s P (POk (x, t)) \<longleftrightarrow> s \<le> t \<and> t \<le> length b \<and> P x" "parse_ok b s P (PSyntax e)"
  by (simp_all add: parse_ok_def)

lemma parse_ok_later: "parse_ok b t P r \<Longrightarrow> s \<le> t \<Longrightarrow> parse_ok b s P r"
  by (auto simp: parse_ok_def split: parsed.splits)

lemma parse_ok_bind:
  assumes "parse_ok b s P r" and "\<And>x t. s \<le> t \<Longrightarrow> t \<le> length b \<Longrightarrow> P x \<Longrightarrow> parse_ok b s Q (f (x, t))"
  shows "parse_ok b s Q (pbind r f)"
  using assms by (cases r) (auto simp: parse_ok_def)

lemma gettoken_word:
  assumes "gettoken b s = (0x61, w, t)"
  shows "is_word b w"
proof -
  let ?s = "skip_ws b s" and ?P = "\<lambda>c. c \<notin> set whitespace \<and> c \<notin> set symbols"
  have w: "w = (?s, skip_word b ?s)" "ch b ?s \<noteq> 0" "ch b ?s \<notin> set symbols"
    using assms by (auto simp: gettoken_def Let_def token_end_def symbols_simps split: if_splits)
  have s: "?s < length b" using w(2) by (rule ch_nonzero)
  define k where "k = length (takeWhile ?P (drop ?s b))"
  have e: "snd w = ?s + k" using w(1) by (simp add: skip_word_def k_def)
  have "plain (b ! i)" if "?s \<le> i" "i < ?s + k" for i
  proof -
    have "i - ?s < k" using that by simp
    then have "takeWhile ?P (drop ?s b) ! (i - ?s) \<in> set (takeWhile ?P (drop ?s b))" unfolding k_def by (rule nth_mem)
    from set_takeWhileD [OF this] show ?thesis using that s by (simp add: takeWhile_nth [OF \<open>i - ?s < k\<close> [unfolded k_def]] plain_def)
  qed
  moreover have "\<not> plain (b ! (?s + k))" if "?s + k < length b"
    using nth_length_takeWhile [of ?P "drop ?s b"] that by (simp add: k_def plain_def)
  moreover have "?s < skip_word b ?s" using w(2,3) skip_ws_stop by (intro word_nonempty)
  moreover have "skip_word b ?s \<le> length b" using s by simp
  ultimately show ?thesis using w(1) e by (auto simp: is_word_def)
qed

abbreviation (input) redirs_ok :: "u8 list \<Rightarrow> (span \<times> nat \<times> nat) list \<Rightarrow> bool" where
  "redirs_ok b rs \<equiv> \<forall>r \<in> set rs. is_word b (fst r)"

lemma parseredirs_ok: "s \<le> length b \<Longrightarrow> parse_ok b s (redirs_ok b) (parseredirs b s)"
proof (induction b s rule: parseredirs.induct)
  case (1 b s)
  show ?case
  proof (cases "peek b s ''<>''")
    case True
    obtain tok w s1 where g1: "gettoken b s = (tok, w, s1)" by (metis surj_pair)
    obtain tok2 w2 s2 where g2: "gettoken b s1 = (tok2, w2, s2)" by (metis surj_pair)
    have le: "s \<le> s1" "s1 \<le> s2" "s1 \<le> length b" "s2 \<le> length b"
      using next_pos_ge [of s b] next_pos_ge [of s1 b] next_pos_le [of s b] next_pos_le [of s1 b] g1 g2 1(2) by simp_all
    show ?thesis
    proof (cases "tok2 = 0x61")
      case a: True
      have "parse_ok b s2 (redirs_ok b) (parseredirs b s2)"
        using 1(1) [OF True g1 [symmetric] refl g2 [symmetric] refl] a le(4) by simp
      moreover have "is_word b w2" using g2 a by (auto intro: gettoken_word)
      ultimately show ?thesis
        using True g1 g2 a le by (auto simp: parseredirs.simps [of b s] parse_ok_def redir_of_def split: parsed.splits)
    qed (use True g1 g2 in \<open>simp add: parseredirs.simps [of b s]\<close>)
  qed (use 1(2) in \<open>simp add: parseredirs.simps [of b s]\<close>)
qed

lemma parse_args_ok:
  "s \<le> length b \<Longrightarrow> parse_ok b s (\<lambda>(ws, rs). (\<forall>w \<in> set ws. is_word b w) \<and> redirs_ok b rs) (parse_args b argc s)"
proof (induction b argc s rule: parse_args.induct)
  case (1 b argc s)
  show ?case
  proof (cases "peek b s ''|)&;''")
    case False
    obtain tok w s1 where g: "gettoken b s = (tok, w, s1)" by (metis surj_pair)
    have le: "s \<le> s1" "s1 \<le> length b" using next_pos_ge [of s b] next_pos_le [of s b] g 1(2) by simp_all
    show ?thesis
    proof (cases "tok = 0x61 \<and> \<not> argc + 1 \<ge> 10")
      case True
      have w: "is_word b w" using g True by (auto intro: gettoken_word)
      have r: "parse_ok b s1 (redirs_ok b) (parseredirs b s1)" using le(2) by (rule parseredirs_ok)
      show ?thesis
      proof (cases "parseredirs b s1")
        case (POk x)
        obtain rs s2 where x: "x = (rs, s2)" by (cases x)
        then have s2: "s1 \<le> s2" "s2 \<le> length b" "redirs_ok b rs" using r POk by simp_all
        have "parse_ok b s2 (\<lambda>(ws, rs). (\<forall>w \<in> set ws. is_word b w) \<and> redirs_ok b rs) (parse_args b (argc + 1) s2)"
          using 1(1) [OF False g [symmetric] refl _ _ _ POk x [symmetric]] True s2(2) by simp
        then show ?thesis
          using False g True POk x s2 le w
          by (auto simp: parse_args.simps [of b argc s] parse_ok_def split: parsed.splits)
      qed (use False g True r in \<open>simp_all add: parse_args.simps [of b argc s] parse_ok_def\<close>)
    next
      case nt: False
      then show ?thesis using False g le by (auto simp: parse_args.simps [of b argc s])
    qed
  qed (use 1(2) in \<open>simp add: parse_args.simps [of b argc s]\<close>)
qed

fun words :: "cmd \<Rightarrow> span list" where
  "words (EXEC ws) = ws"
| "words (REDIR c w mode fd) = words c @ [w]"
| "words (PIPE c d) = words c @ words d"
| "words (LIST c d) = words c @ words d"
| "words (BACK c) = words c"

abbreviation (input) cmd_ok :: "u8 list \<Rightarrow> cmd \<Rightarrow> bool" where
  "cmd_ok b c \<equiv> \<forall>w \<in> set (words c). is_word b w"

lemma cmd_ok_redirect: "cmd_ok b (redirect c rs) \<longleftrightarrow> cmd_ok b c \<and> redirs_ok b rs"
  by (induction c rs rule: redirect.induct) auto

lemma parse_words_ok: "s \<le> length b \<Longrightarrow> parse_ok b s (cmd_ok b) (parse_words b s)"
  unfolding parse_words_def
proof (rule parse_ok_bind [OF parseredirs_ok], assumption, clarify)
  fix rs t
  assume t: "s \<le> t" "t \<le> length b" "redirs_ok b rs"
  show "parse_ok b s (cmd_ok b) (pbind (parse_args b 0 t) (\<lambda>((ws, rs'), s2). POk (redirect (EXEC ws) (rs @ rs'), s2)))"
    by (rule parse_ok_bind [OF parse_ok_later [OF parse_args_ok [OF t(2)] t(1)]]) (use t in \<open>auto simp: cmd_ok_redirect\<close>)
qed

lemma parse_backs_ok:
  "s \<le> length b \<Longrightarrow> cmd_ok b c \<Longrightarrow> case parse_backs b c s of (d, t) \<Rightarrow> s \<le> t \<and> t \<le> length b \<and> cmd_ok b d"
proof (induction b c s rule: parse_backs.induct)
  case (1 b c s)
  show ?case
  proof (cases "peek b s ''&''")
    case True
    then show ?thesis
      using 1 peek_progress [OF True] next_pos_le [of s b] by (auto simp: parse_backs.simps [of b c s])
  next
    case False
    then show ?thesis using 1(2,3) by (simp add: parse_backs.simps [of b c s])
  qed
qed

text \<open>
  The depth of the calls grows by at most four with every character that is consumed.
\<close>

lemma parser_ok:
  "s \<le> length b \<Longrightarrow> 4 * (length b - s) + 4 \<le> n \<Longrightarrow> parse_ok b s (cmd_ok b) (parseline n b s)"
  "s \<le> length b \<Longrightarrow> 4 * (length b - s) + 3 \<le> n \<Longrightarrow> parse_ok b s (cmd_ok b) (parsepipe n b s)"
  "s \<le> length b \<Longrightarrow> 4 * (length b - s) + 2 \<le> n \<Longrightarrow> parse_ok b s (cmd_ok b) (parseexec n b s)"
  "s \<le> length b \<Longrightarrow> 4 * (length b - s) + 1 \<le> n \<Longrightarrow> parse_ok b s (cmd_ok b) (parseblock n b s)"
proof (induction n b s and n b s and n b s and n b s rule: parseline_parsepipe_parseexec_parseblock.induct)
  case (2 n b s)
  have "parse_ok b s (cmd_ok b) (parsepipe n b s)" using 2(1,3,4) by simp
  then show ?case unfolding parseline.simps
  proof (rule parse_ok_bind, clarify)
    fix c s1
    assume s1: "s \<le> s1" "s1 \<le> length b" "cmd_ok b c"
    obtain d s2 where d: "parse_backs b c s1 = (d, s2)" by fastforce
    then have s2: "s1 \<le> s2" "s2 \<le> length b" "cmd_ok b d" using parse_backs_ok [OF s1(2,3)] by auto
    show "parse_ok b s (cmd_ok b) (case parse_backs b c s1 of (c, s2) \<Rightarrow>
       if peek b s2 '';'' then pbind (parseline n b (next_pos b s2)) (\<lambda>(d, s3). POk (LIST c d, s3)) else POk (c, skip_ws b s2))"
    proof (cases "peek b s2 '';''")
      case True
      have p: "s2 < next_pos b s2" "next_pos b s2 \<le> length b"
        using peek_progress [OF True] next_pos_le [OF s2(2)] by simp_all
      then have "parse_ok b (next_pos b s2) (cmd_ok b) (parseline n b (next_pos b s2))"
        using 2(2) [OF d [symmetric] True] 2(4) s1 s2 by simp
      then have "parse_ok b s (cmd_ok b) (parseline n b (next_pos b s2))"
        using p s1 s2 by (auto intro: parse_ok_later)
      then have "parse_ok b s (cmd_ok b) (pbind (parseline n b (next_pos b s2)) (\<lambda>(d', s3). POk (LIST d d', s3)))"
        by (rule parse_ok_bind) (use s2 in auto)
      then show ?thesis using d True by simp
    next
      case False
      then show ?thesis using d s1 s2 skip_ws_ge [of s2 b] by (auto simp del: skip_ws_ge)
    qed
  qed
next
  case (4 n b s)
  have "parse_ok b s (cmd_ok b) (parseexec n b s)" using 4(1,3,4) by simp
  then show ?case unfolding parsepipe.simps
  proof (rule parse_ok_bind, clarify)
    fix c s1
    assume s1: "s \<le> s1" "s1 \<le> length b" "cmd_ok b c"
    show "parse_ok b s (cmd_ok b) (if peek b s1 ''|'' then pbind (parsepipe n b (next_pos b s1)) (\<lambda>(d, s2). POk (PIPE c d, s2))
       else POk (c, skip_ws b s1))"
    proof (cases "peek b s1 ''|''")
      case True
      have p: "s1 < next_pos b s1" "next_pos b s1 \<le> length b"
        using peek_progress [OF True] next_pos_le [OF s1(2)] by simp_all
      then have "parse_ok b (next_pos b s1) (cmd_ok b) (parsepipe n b (next_pos b s1))"
        using 4(2) [OF True] 4(4) s1 by simp
      then have "parse_ok b s (cmd_ok b) (parsepipe n b (next_pos b s1))"
        using p s1 by (auto intro: parse_ok_later)
      then have "parse_ok b s (cmd_ok b) (pbind (parsepipe n b (next_pos b s1)) (\<lambda>(d, s2). POk (PIPE c d, s2)))"
        by (rule parse_ok_bind) (use s1 in auto)
      then show ?thesis using True by simp
    next
      case False
      then show ?thesis using s1 skip_ws_ge [of s1 b] by (auto simp del: skip_ws_ge)
    qed
  qed
next
  case (6 n b s)
  have "length b - skip_ws b s \<le> length b - s" by (intro diff_le_mono2) simp
  then have "4 * (length b - skip_ws b s) + 1 \<le> n" using 6(3) by simp
  then show ?case
    using 6 parse_words_ok [of "skip_ws b s" b] parse_ok_later [of b "skip_ws b s" "cmd_ok b" _ s] by auto
next
  case (8 n b s)
  show ?case
  proof (cases "peek b s ''(''")
    case True
    have p: "s < next_pos b s" "next_pos b s \<le> length b"
      using peek_progress [OF True] next_pos_le [OF 8(2)] by simp_all
    then have "parse_ok b (next_pos b s) (cmd_ok b) (parseline n b (next_pos b s))" using 8(1,3) True by simp
    then have "parse_ok b s (cmd_ok b) (parseline n b (next_pos b s))" using p by (auto intro: parse_ok_later)
    then have "parse_ok b s (cmd_ok b) (pbind (parseline n b (next_pos b s)) (\<lambda>(c, s1).
        if \<not> peek b s1 '')'' then PSyntax (panics ''syntax - missing )'')
        else pbind (parseredirs b (next_pos b s1)) (\<lambda>(rs, s2). POk (redirect c rs, s2))))"
    proof (rule parse_ok_bind, clarify)
      fix c s1
      assume s1: "s \<le> s1" "s1 \<le> length b" "cmd_ok b c"
      have q: "s1 \<le> next_pos b s1" "next_pos b s1 \<le> length b" using next_pos_ge next_pos_le [OF s1(2)] by simp_all
      have "parse_ok b s (redirs_ok b) (parseredirs b (next_pos b s1))"
        using parseredirs_ok [OF q(2)] q(1) s1(1) by (auto intro: parse_ok_later)
      then show "parse_ok b s (cmd_ok b) (if \<not> peek b s1 '')'' then PSyntax (panics ''syntax - missing )'')
          else pbind (parseredirs b (next_pos b s1)) (\<lambda>(rs, s2). POk (redirect c rs, s2)))"
        using s1(3) by (auto intro!: parse_ok_bind [where P = "redirs_ok b"] simp: cmd_ok_redirect)
    qed
    then show ?thesis using True by simp
  qed simp
qed simp_all

lemma parsecmd_result: "(\<exists>e. parsecmd b = PSyntax e) \<or> (\<exists>c. parsecmd b = POk c \<and> cmd_ok b c)"
proof -
  have "parse_ok b 0 (cmd_ok b) (parseline (4 * length b + 4) b 0)" by (rule parser_ok(1)) simp_all
  then show ?thesis by (cases "parseline (4 * length b + 4) b 0") (auto simp: parse_ok_def parsecmd_def Let_def)
qed

text \<open>
  C35. The parser always comes to an end: on every line it gives a command or reports a syntax error. The
  depth of its calls is at most four times the length of the line and four.
\<close>

theorem parsecmd_terminates: "(\<exists>c. parsecmd b = POk c) \<or> (\<exists>e. parsecmd b = PSyntax e)"
  using parsecmd_result [of b] by auto

subsection \<open>Words after termination\<close>

lemma nth_update: "j < length xs \<Longrightarrow> xs[i := x] ! j = (if i = j then x else xs ! j)"
  by (cases "i = j") simp_all

lemma fold_nul:
  "i < length buf \<Longrightarrow> fold (\<lambda>(q, e) buf. buf[e := 0]) ws buf ! i = (if i \<in> snd ` set ws then 0 else buf ! i)"
  by (induction ws arbitrary: buf) (fastforce simp: nth_update)+

lemma length_fold_nul [simp]: "length (fold (\<lambda>(q, e) buf. buf[e := 0]) ws buf) = length buf"
  by (induction ws arbitrary: buf) auto

lemma length_nulterminate [simp]: "length (nulterminate c buf) = length buf"
  by (induction c buf rule: nulterminate.induct) auto

lemma nulterminate_nth:
  "i < length buf \<Longrightarrow> nulterminate c buf ! i = (if i \<in> snd ` set (words c) then 0 else buf ! i)"
  by (induction c buf rule: nulterminate.induct) (simp_all add: fold_nul nth_update image_Un)

lemma string_at_eq:
  assumes "q \<le> e" and "e < length buf" and "buf ! e = 0" and "\<forall>i. q \<le> i \<and> i < e \<longrightarrow> buf ! i \<noteq> 0"
  shows "string_at buf q = take (e - q) (drop q buf)"
  unfolding string_at_def using assms by (intro takeWhile_eq_take_P_nth) auto

text \<open>
  C36. Every word of a parsed command is a proper string after \<open>nulterminate\<close>: the string at its beginning
  is the maximal run of characters between blanks and symbols that stood there in the line, although the
  words share one buffer and their ends are overwritten in place.
\<close>

theorem words_are_strings:
  assumes "parsecmd b = POk c" and "0 \<notin> set b" and "(q, e) \<in> set (words c)"
  shows "string_at (nulterminate c (b @ [0])) q = take (e - q) (drop q b) \<and> q < e \<and> e \<le> length b \<and>
     list_all plain (take (e - q) (drop q b))"
proof -
  have "is_word b w" if "w \<in> set (words c)" for w
    using that assms(1) parsecmd_result [of b] by auto
  note word = this this [OF assms(3), unfolded is_word_def fst_conv snd_conv]
  have qe: "q < e" "e \<le> length b" using word(2) by simp_all
  let ?buf = "nulterminate c (b @ [0])"
  have inside: "?buf ! i = b ! i" if "q \<le> i" "i < e" for i
  proof -
    have "i \<notin> snd ` set (words c)"
    proof
      assume "i \<in> snd ` set (words c)"
      then obtain w where "w \<in> set (words c)" "i = snd w" by auto
      moreover have "i < length b" "plain (b ! i)" using that word(2) by auto
      ultimately show False using word(1) by (auto simp: is_word_def)
    qed
    then show ?thesis using that qe by (simp add: nulterminate_nth nth_append)
  qed
  have "?buf ! e = 0" using assms(3) qe by (force simp: nulterminate_nth)
  moreover have "\<forall>i. q \<le> i \<and> i < e \<longrightarrow> ?buf ! i \<noteq> 0"
    using inside qe assms(2) by (metis less_le_trans nth_mem)
  ultimately have "string_at ?buf q = take (e - q) (drop q ?buf)"
    using qe by (intro string_at_eq) auto
  also have "\<dots> = take (e - q) (drop q b)"
    using inside qe by (intro nth_equalityI) auto
  finally have "string_at ?buf q = take (e - q) (drop q b)" .
  moreover have "list_all plain (take (e - q) (drop q b))" using word(2) qe by (auto simp: list_all_length)
  ultimately show ?thesis using qe by blast
qed

theorem words_are_strings_witness:
  "\<exists>c. parsecmd (map of_char ''ls|wc>x'') = POk c \<and>
     string_at (nulterminate c (map of_char ''ls|wc>x'' @ [0])) 3 = map of_char ''wc''"
proof -
  let ?b = "map of_char ''ls|wc>x'' :: u8 list"
  let ?c = "PIPE (EXEC [(0, 2)]) (REDIR (EXEC [(3, 5)]) (6, 7) 0x201 1)"
  have c: "parsecmd ?b = POk ?c" by code_simp
  have "0 \<notin> set ?b" by code_simp
  from words_are_strings [OF c this, of 3 5] c show ?thesis by auto
qed

subsection \<open>Descriptors of the programs that run\<close>

text \<open>
  The programs that a process and its children execute when every system call succeeds, each with its
  table of open files. A new descriptor is the lowest free one, as \<open>fdalloc\<close> of sysfile.c chooses it; a
  pipe is named by the path of forks that leads to the process that made it.
\<close>

datatype opened = OFile "u8 list" nat | ORead "nat list" | OWrite "nat list" | OConsole

abbreviation (input) lowest :: "opened option list \<Rightarrow> nat option" where
  "lowest tab \<equiv> find_index (\<lambda>f. f = None) tab"

primrec execs :: "act \<Rightarrow> nat list \<Rightarrow> opened option list \<Rightarrow> (u8 list list \<times> opened option list) list" where
  "execs AExit k tab = []"
| "execs (AExec argv a) k tab = [(argv, tab)]"
| "execs (APrint fd out a) k tab = execs a k tab"
| "execs (AClose fd a) k tab = execs a k (tab[fd := None])"
| "execs (AOpen file mode a b) k tab =
     (case lowest tab of None \<Rightarrow> execs a k tab | Some i \<Rightarrow> execs b k (tab[i := Some (OFile file mode)]))"
| "execs (AFork a b c) k tab = execs a (k @ [0]) tab @ execs b (k @ [1]) tab"
| "execs (AWait a) k tab = execs a k tab"
| "execs (APipe a f) k tab =
     (case lowest tab of None \<Rightarrow> execs a k tab | Some i \<Rightarrow>
      case lowest (tab[i := Some (ORead k)]) of None \<Rightarrow> execs a k tab | Some j \<Rightarrow>
      execs (f i j) k (tab[i := Some (ORead k), j := Some (OWrite k)]))"
| "execs (ADup fd a) k tab =
     (case lowest tab of None \<Rightarrow> execs a k tab | Some i \<Rightarrow> execs a k (tab[i := tab ! fd]))"
| "execs (AChdir dir a b) k tab = execs b k tab"

text \<open>The first loop of \<open>main\<close>, which opens the console until a descriptor above 2 comes back.\<close>

function sh_open :: "opened option list \<Rightarrow> opened option list" where
  "sh_open tab =
     (case lowest tab of
        None \<Rightarrow> tab
      | Some fd \<Rightarrow> if fd \<ge> 3 then tab else sh_open (tab[fd := Some OConsole]))"
  by auto
termination
proof (relation "measure (\<lambda>tab. length (filter (\<lambda>f. f = None) tab))", goal_cases)
  case (2 tab fd)
  then have fd: "fd < length tab" "tab ! fd = None" by (auto simp: find_index_Some_iff)
  then show ?case
    by (subst (2) id_take_nth_drop [OF fd(1)]) (simp add: upd_conv_take_nth_drop)
qed simp

declare sh_open.simps [simp del]

lemma lowest_reuse:
  assumes "fd < length tab" and "\<forall>i < fd. tab ! i \<noteq> None"
  shows "lowest (tab[fd := None]) = Some fd"
  using assms by (auto simp: find_index_Some_iff)

lemma pipe_ends:
  assumes "lowest tab = Some i" and "lowest (tab[i := Some x]) = Some j" and "\<forall>n < m. tab ! n \<noteq> None"
  shows "i < j" "j < length tab" "tab ! i = None" "tab ! j = None" "m \<le> i"
proof -
  show "i < j" "j < length tab" "tab ! i = None" "tab ! j = None"
    using assms by (auto simp: find_index_Some_iff nth_list_update linorder_neq_iff split: if_splits)
  show "m \<le> i" using assms(3) \<open>tab ! i = None\<close> not_le by blast
qed

lemma sh_open_fills: "n < 3 \<Longrightarrow> n < length tab \<Longrightarrow> sh_open tab ! n \<noteq> None"
proof (induction tab rule: sh_open.induct)
  case (1 tab)
  show ?case
  proof (cases "lowest tab")
    case None
    then have "tab ! n \<noteq> None" using 1(3) find_index_None_iff [of "\<lambda>f. f = None" tab] nth_mem by metis
    then show ?thesis using None by (simp add: sh_open.simps [of tab])
  next
    case (Some fd)
    show ?thesis
    proof (cases "3 \<le> fd")
      case True
      then have "tab ! n \<noteq> None" using Some 1(2) find_index_Some_iff [of "\<lambda>f. f = None" tab fd] by auto
      then show ?thesis using Some True by (simp add: sh_open.simps [of tab])
    qed (use 1 Some in \<open>simp add: sh_open.simps [of tab]\<close>)
  qed
qed

lemma dup_over:
  assumes "lowest tab = Some i" and "lowest (tab[i := Some (ORead k)]) = Some j" and "\<forall>n < Suc fd. tab ! n \<noteq> None"
    and "e = i \<or> e = j"
  shows "execs (AClose fd (ADup e (AClose i (AClose j a)))) l (tab[i := Some (ORead k), j := Some (OWrite k)]) =
     execs a l (tab[fd := Some (if e = i then ORead k else OWrite k)])"
proof -
  note p = pipe_ends [OF assms(1-3)]
  let ?t = "tab[i := Some (ORead k), j := Some (OWrite k)]"
  have "\<forall>n < fd. ?t ! n \<noteq> None" "fd < length ?t" using p assms(3) by auto
  then have "lowest (?t[fd := None]) = Some fd" by (intro lowest_reuse)
  moreover have "?t[fd := None, fd := ?t[fd := None] ! e, i := None, j := None] =
      tab[fd := Some (if e = i then ORead k else OWrite k)]"
    using p assms(4) by (intro nth_equalityI) (auto simp: nth_list_update)
  ultimately show ?thesis by simp
qed



end
