(* ===== verification/Umalloc.thy ===== *)
theory Umalloc
  imports Xv6_Prelude
begin

section \<open>The allocator of user programs (umalloc.c)\<close>

text \<open>
  The headers in memory are two functions of their address; addresses and sizes are numbers below
  \<open>2 ^ 32\<close>, a header takes 8 bytes, and sizes count headers. \<open>base\<close> is the address of the static header.
  The loops of \<open>free\<close> and \<open>malloc\<close> follow pointers and need not end on a damaged list; None stands for that.
  \<open>sbrk\<close> is the system call of this kernel, which returns the old end of memory.
\<close>

record um_st =
  um_ptr :: "nat \<Rightarrow> nat"
  um_size :: "nat \<Rightarrow> nat"
  um_freep :: nat
  um_brk :: nat

definition hadd :: "nat \<Rightarrow> nat \<Rightarrow> nat" where
  "hadd p n = (p + 8 * n) mod 2 ^ 32"

definition set_ptr :: "nat \<Rightarrow> nat \<Rightarrow> um_st \<Rightarrow> um_st" where
  "set_ptr p q s = s\<lparr>um_ptr := (um_ptr s)(p := q)\<rparr>"

definition set_size :: "nat \<Rightarrow> nat \<Rightarrow> um_st \<Rightarrow> um_st" where
  "set_size p n s = s\<lparr>um_size := (um_size s)(p := n mod 2 ^ 32)\<rparr>"

lemma set_simps [simp]:
  "um_ptr (set_ptr p q s) = (um_ptr s)(p := q)" "um_size (set_ptr p q s) = um_size s"
  "um_freep (set_ptr p q s) = um_freep s" "um_brk (set_ptr p q s) = um_brk s"
  "um_ptr (set_size p n s) = um_ptr s" "um_size (set_size p n s) = (um_size s)(p := n mod 2 ^ 32)"
  "um_freep (set_size p n s) = um_freep s" "um_brk (set_size p n s) = um_brk s"
  by (simp_all add: set_ptr_def set_size_def)

subsection \<open>free\<close>

partial_function (option) free_find :: "um_st \<Rightarrow> nat \<Rightarrow> nat \<Rightarrow> nat option" where
  "free_find s bp p =
     (if p < bp \<and> bp < um_ptr s p then Some p
      else if um_ptr s p \<le> p \<and> (p < bp \<or> bp < um_ptr s p) then Some p
      else free_find s bp (um_ptr s p))"

text \<open>The two tests for a neighbour to merge with, in the order of the code.\<close>

definition free_right :: "nat \<Rightarrow> nat \<Rightarrow> um_st \<Rightarrow> um_st" where
  "free_right bp p s =
     (if hadd bp (um_size s bp) = um_ptr s p then
        let q = um_ptr s p; s' = set_size bp (um_size s bp + um_size s q) s in set_ptr bp (um_ptr s' q) s'
      else set_ptr bp (um_ptr s p) s)"

definition free_left :: "nat \<Rightarrow> nat \<Rightarrow> um_st \<Rightarrow> um_st" where
  "free_left bp p s =
     (if hadd p (um_size s p) = bp then
        let s' = set_size p (um_size s p + um_size s bp) s in set_ptr p (um_ptr s' bp) s'
      else set_ptr p bp s)"

definition ufree :: "nat \<Rightarrow> um_st \<Rightarrow> um_st option" where
  "ufree ap s =
     (let bp = (ap + 2 ^ 32 - 8) mod 2 ^ 32 in
      map_option (\<lambda>p. (free_left bp p (free_right bp p s))\<lparr>um_freep := p\<rparr>) (free_find s bp (um_freep s)))"

subsection \<open>malloc\<close>

definition um_sbrk :: "nat \<Rightarrow> um_st \<Rightarrow> nat \<times> um_st" where
  "um_sbrk n s = (um_brk s, s\<lparr>um_brk := (um_brk s + n) mod 2 ^ 32\<rparr>)"

definition morecore :: "nat \<Rightarrow> um_st \<Rightarrow> (nat \<times> um_st) option" where
  "morecore nu s =
     (let nu = (if nu < 4096 then 4096 else nu); (p, s) = um_sbrk (nu * 8 mod 2 ^ 32) s in
      if p = 2 ^ 32 - 1 then Some (0, s)
      else map_option (\<lambda>s. (um_freep s, s)) (ufree (hadd p 1) (set_size p nu s)))"

definition take_block :: "nat \<Rightarrow> nat \<Rightarrow> nat \<Rightarrow> um_st \<Rightarrow> nat \<times> um_st" where
  "take_block nunits prevp p s =
     (if um_size s p = nunits then (hadd p 1, (set_ptr prevp (um_ptr s p) s)\<lparr>um_freep := prevp\<rparr>)
      else let s1 = set_size p (um_size s p - nunits) s; p' = hadd p (um_size s1 p) in
        (hadd p' 1, (set_size p' nunits s1)\<lparr>um_freep := prevp\<rparr>))"

partial_function (option) malloc_loop :: "nat \<Rightarrow> nat \<Rightarrow> nat \<Rightarrow> um_st \<Rightarrow> (nat \<times> um_st) option" where
  "malloc_loop nunits prevp p s =
     (if nunits \<le> um_size s p then Some (take_block nunits prevp p s)
      else if p = um_freep s then
        Option.bind (morecore nunits s) (\<lambda>(p', s').
          if p' = 0 then Some (0, s') else malloc_loop nunits p' (um_ptr s' p') s')
      else malloc_loop nunits p (um_ptr s p) s)"

definition nunits_of :: "nat \<Rightarrow> nat" where
  "nunits_of nbytes = (nbytes + 7) mod 2 ^ 32 div 8 + 1"

definition malloc :: "nat \<Rightarrow> nat \<Rightarrow> um_st \<Rightarrow> (nat \<times> um_st) option" where
  "malloc base nbytes s =
     (let s = (if um_freep s = 0 then (set_size base 0 (set_ptr base base s))\<lparr>um_freep := base\<rparr> else s) in
      malloc_loop (nunits_of nbytes) (um_freep s) (um_ptr s (um_freep s)) s)"

subsection \<open>Linked lists\<close>

primrec linked :: "(nat \<Rightarrow> nat) \<Rightarrow> nat list \<Rightarrow> nat \<Rightarrow> bool" where
  "linked f [] e \<longleftrightarrow> True"
| "linked f (x # xs) e \<longleftrightarrow> f x = hd (xs @ [e]) \<and> linked f xs e"

lemma linked_append [simp]: "linked f (xs @ ys) e \<longleftrightarrow> linked f xs (hd (ys @ [e])) \<and> linked f ys e"
  by (induction xs) (auto simp: hd_append)

lemma hd_append_two [simp]: "hd (xs @ x # y # ys) = hd (xs @ [x])"
  by (cases xs) simp_all

lemma linked_upd [simp]: "x \<notin> set xs \<Longrightarrow> linked (f(x := v)) xs e = linked f xs e"
  by (induction xs) auto

lemma linked_map: "xs \<noteq> [] \<Longrightarrow> linked f xs e \<Longrightarrow> map f xs = tl xs @ [e]"
proof (induction xs)
  case (Cons x xs)
  then show ?case by (cases xs) auto
qed simp

lemma linked_last: "us \<noteq> [] \<Longrightarrow> linked f us e \<Longrightarrow> f (last us) = e"
  by (induction us) auto

text \<open>In a ring the element before \<open>y\<close> is the only one that points to \<open>y\<close>.\<close>

lemma ring_pred:
  assumes "linked f L (hd L)" and "distinct L" and "L = us @ y # vs" and "us \<noteq> []" and "x \<in> set L" and "f x = y"
  shows "x = last us"
proof -
  have "map f L = tl L @ [hd L]" using assms by (intro linked_map) auto
  then have "distinct (map f L)" using assms(2) by (cases L) (simp_all del: distinct_map)
  then have "inj_on f (set L)" by (simp add: distinct_map)
  moreover have "f (last us) = y" using assms(1,3,4) by (intro linked_last) simp_all
  moreover have "last us \<in> set L" using assms(3,4) by simp
  ultimately show ?thesis using assms(5,6) by (metis inj_onD)
qed

subsection \<open>The search of free\<close>

lemma find_up:
  assumes "linked (um_ptr s) (vs @ [p]) e" and "sorted_wrt (<) (vs @ [p])" and "p < bp" and "bp < e \<or> e \<le> p"
  shows "free_find s bp (hd (vs @ [p])) = Some p"
  using assms(1,2)
proof (induction vs)
  case Nil
  then show ?case using assms(3,4) by (auto simp: free_find.simps [of s bp p])
next
  case (Cons v vs)
  define w where "w = hd (vs @ [p])"
  have "w \<le> p" "v < w" using Cons.prems(2) by (cases vs; auto simp: w_def)+
  moreover have "um_ptr s v = w" "free_find s bp w = Some p" using Cons unfolding w_def by simp_all
  ultimately show ?case using assms(3) by (simp add: free_find.simps [of s bp v])
qed

lemma find_wrap:
  assumes "linked (um_ptr s) ys e" and "sorted_wrt (<) ys" and "\<forall>y \<in> set ys. bp < y" and "e < bp" and "ys \<noteq> []"
  shows "free_find s bp (hd ys) = free_find s bp e"
  using assms(1-3,5)
proof (induction ys)
  case (Cons y ys)
  note ih = Cons.IH and prems = Cons.prems
  show ?case
  proof (cases ys)
    case Nil
    then show ?thesis using prems assms(4) by (simp add: free_find.simps [of s bp y])
  next
    case (Cons z zs)
    then have "um_ptr s y = z" "y < z" "bp < y" "free_find s bp z = free_find s bp e"
      using ih prems by simp_all
    then show ?thesis by (simp add: free_find.simps [of s bp y])
  qed
qed simp

lemma free_find_ok:
  assumes "linked (um_ptr s) L (hd L)" and "sorted_wrt (<) L" and "L = xs @ p # ys" and "p < bp" and "\<forall>y \<in> set ys. bp < y"
    and "r \<in> set L"
  shows "free_find s bp r = Some p"
proof -
  have hd: "hd L \<le> p" using assms(2,3) by (cases xs) auto
  have up: "free_find s bp r = Some p" if "xs @ [p] = us @ r # vs" for us r vs
  proof -
    obtain ws z where z: "r # vs = ws @ [z]" by (cases "r # vs" rule: rev_cases) simp_all
    with that have w: "r # vs = ws @ [p]" and u: "xs = us @ ws" by (simp_all flip: append_assoc)
    have "free_find s bp (hd (ws @ [p])) = Some p"
    proof (rule find_up)
      show "linked (um_ptr s) (ws @ [p]) (hd (ys @ [hd L]))" using assms(1,3) u by simp
      show "sorted_wrt (<) (ws @ [p])" using assms(2,3) u by (simp add: sorted_wrt_append)
      show "bp < hd (ys @ [hd L]) \<or> hd (ys @ [hd L]) \<le> p" using assms(5) hd by (cases ys) auto
    qed (rule assms(4))
    moreover have "hd (ws @ [p]) = r" using w by (cases ws) simp_all
    ultimately show ?thesis by simp
  qed
  consider "r \<in> set (xs @ [p])" | "r \<in> set ys" using assms(3,6) by auto
  then show ?thesis
  proof cases
    case 1
    then show ?thesis using up by (meson split_list)
  next
    case 2
    then obtain us vs where ys: "ys = us @ r # vs" by (meson split_list)
    have "free_find s bp (hd (r # vs)) = free_find s bp (hd L)"
    proof (rule find_wrap)
      show "linked (um_ptr s) (r # vs) (hd L)" using assms(1,3) ys by simp
      show "sorted_wrt (<) (r # vs)" using assms(2,3) ys by (simp add: sorted_wrt_append)
    qed (use assms(4,5) hd ys in auto)
    also have "hd L = hd (xs @ [p])" using assms(3) by (cases xs) auto
    also have "free_find s bp (hd (xs @ [p])) = Some p" by (rule up [of "[]" _ "tl (xs @ [p])"]) (cases xs; simp)
    finally show ?thesis by simp
  qed
qed

lemma increasing_distinct: "sorted_wrt (<) (L :: nat list) \<Longrightarrow> distinct L"
  by (simp add: strict_sorted_iff)

lemma ring_split:
  fixes L :: "nat list"
  assumes "sorted_wrt (<) L" and "L \<noteq> []" and "hd L < bp" and "bp \<notin> set L"
  obtains xs p ys where "L = xs @ p # ys" "p < bp" "\<forall>y \<in> set ys. bp < y"
proof -
  let ?T = "takeWhile (\<lambda>x. x < bp) L" and ?D = "dropWhile (\<lambda>x. x < bp) L"
  have ne: "?T \<noteq> []" using assms(2,3) by (cases L) auto
  have "bp < y" if "y \<in> set ?D" for y
  proof -
    have "?D \<noteq> []" using that by (metis empty_iff empty_set)
    then have "bp \<le> hd ?D" using hd_dropWhile [of "\<lambda>x. x < bp" L] by simp
    moreover have "sorted_wrt (<) (?T @ ?D)" using assms(1) by simp
    then have "hd ?D \<le> y" unfolding sorted_wrt_append using that by (cases ?D) auto
    moreover have "y \<noteq> bp" using that assms(4) by (auto dest: set_dropWhileD)
    ultimately show ?thesis by simp
  qed
  moreover have "last ?T < bp" using ne by (metis last_in_set set_takeWhileD)
  moreover have "L = butlast ?T @ last ?T # ?D" using ne by (metis append.assoc append_Cons append_Nil append_butlast_last_id takeWhile_dropWhile_id)
  ultimately show ?thesis using that by blast
qed

subsection \<open>Blocks\<close>

text \<open>
  Blocks are given by the addresses \<open>X\<close> of their headers and a size for each. They cover the bytes from
  \<open>h\<close>, where the heap began, to \<open>e\<close>, where it ends, without overlap; the static header has no bytes.
\<close>

definition units :: "(nat \<Rightarrow> nat) \<Rightarrow> nat set \<Rightarrow> nat set" where
  "units f X = (\<Union>a \<in> X. {a ..< a + 8 * f a})"

definition apart :: "(nat \<Rightarrow> nat) \<Rightarrow> nat set \<Rightarrow> bool" where
  "apart f X \<longleftrightarrow> (\<forall>a \<in> X. \<forall>b \<in> X. a < b \<longrightarrow> a + 8 * f a \<le> b)"

definition blocks_ok :: "nat \<Rightarrow> nat \<Rightarrow> nat \<Rightarrow> (nat \<Rightarrow> nat) \<Rightarrow> nat set \<Rightarrow> bool" where
  "blocks_ok base h e f X \<longleftrightarrow> 0 < base \<and> base < h \<and> h \<le> e \<and> e < 2 ^ 32 - 1 \<and> base \<in> X \<and> f base = 0 \<and>
     (\<forall>a \<in> X. a \<noteq> base \<longrightarrow> 0 < f a) \<and> apart f X \<and> units f X = {h ..< e}"

lemma units_insert: "units f (insert a X) = {a ..< a + 8 * f a} \<union> units f X"
  by (auto simp: units_def)

lemma units_upd: "a \<notin> X \<Longrightarrow> units (f(a := v)) X = units f X"
  unfolding units_def by (intro SUP_cong) auto

lemma blocks_okD:
  assumes "blocks_ok base h e f X" and "a \<in> X" and "a \<noteq> base"
  shows "0 < f a" "h \<le> a" "a + 8 * f a \<le> e" "base < a" "a + 8 * f a < 2 ^ 32"
proof -
  show f: "0 < f a" using assms by (auto simp: blocks_ok_def)
  have "a \<in> units f X" "a + 8 * f a - 1 \<in> units f X" unfolding units_def by (rule UN_I [OF assms(2)]; use f in simp)+
  then show "h \<le> a" "a + 8 * f a \<le> e" using assms(1) f by (auto simp: blocks_ok_def)
  then show "base < a" "a + 8 * f a < 2 ^ 32" using assms(1) by (auto simp: blocks_ok_def)
qed

lemma blocks_apart: "blocks_ok base h e f X \<Longrightarrow> a \<in> X \<Longrightarrow> b \<in> X \<Longrightarrow> a < b \<Longrightarrow> a + 8 * f a \<le> b"
  by (auto simp: blocks_ok_def apart_def)

lemma blocks_merge:
  assumes B: "blocks_ok base h e f X" and "a \<in> X" "b \<in> X" "a \<noteq> base" "b \<noteq> base" and ab: "a + 8 * f a = b"
  shows "blocks_ok base h e (f(a := f a + f b)) (X - {b})"
proof -
  have f: "0 < f a" "0 < f b" using blocks_okD(1) [OF B] assms by auto
  have "apart (f(a := f a + f b)) (X - {b})"
    unfolding apart_def
  proof (intro ballI impI)
    fix c d assume cd: "c \<in> X - {b}" "d \<in> X - {b}" "c < d"
    show "c + 8 * (f(a := f a + f b)) c \<le> d"
    proof (cases "c = a")
      case True
      then have "b < d" using blocks_apart [OF B, of a d] cd ab assms(2) by auto
      then have "b + 8 * f b \<le> d" using blocks_apart [OF B, of b d] cd assms(3) by simp
      then show ?thesis using True ab by simp
    qed (use cd blocks_apart [OF B, of c d] in simp)
  qed
  moreover have "units (f(a := f a + f b)) (X - {b}) = units f X"
  proof -
    have X: "X = insert a (insert b (X - {a, b}))" "X - {b} = insert a (X - {a, b})" using assms(2,3) f ab by auto
    have "units f X = {a ..< a + 8 * f a} \<union> ({b ..< b + 8 * f b} \<union> units f (X - {a, b}))"
      by (subst X(1)) (simp add: units_insert)
    moreover have "units (f(a := f a + f b)) (X - {b}) = {a ..< a + 8 * (f a + f b)} \<union> units f (X - {a, b})"
      by (subst X(2)) (simp add: units_insert units_upd)
    moreover have "{a ..< a + 8 * (f a + f b)} = {a ..< a + 8 * f a} \<union> {b ..< b + 8 * f b}"
      using ab by auto
    ultimately show ?thesis by auto
  qed
  ultimately show ?thesis using B f assms(4,5) by (auto simp: blocks_ok_def)
qed

lemma hadd_simp [simp]: "p + 8 * n < 2 ^ 32 \<Longrightarrow> hadd p n = p + 8 * n"
  by (simp add: hadd_def)

lemma free_right_ok:
  assumes B: "blocks_ok base h (um_brk s) (um_size s) X" and bp: "bp \<in> X" "bp \<noteq> base"
    and L: "sorted_wrt (<) (xs @ p # ys)" "linked (um_ptr s) (xs @ p # ys) base" "hd (xs @ [p]) = base"
      "set (xs @ p # ys) \<subseteq> X" and p: "p < bp" "\<forall>y \<in> set ys. bp < y"
  obtains zs where "zs = ys \<or> (\<exists>q. ys = q # zs)" "blocks_ok base h (um_brk s) (um_size (free_right bp p s)) (X - (set ys - set zs))"
    "linked (um_ptr (free_right bp p s)) xs p" "linked (um_ptr (free_right bp p s)) (bp # zs) base"
    "um_size s bp \<le> um_size (free_right bp p s) bp" "\<forall>c. c \<noteq> bp \<longrightarrow> um_size (free_right bp p s) c = um_size s c"
proof -
  have small: "bp + 8 * um_size s bp < 2 ^ 32" by (rule blocks_okD(5) [OF B bp])
  have notin: "bp \<notin> set xs" "bp \<notin> set ys" using L(1) p by (auto simp: sorted_wrt_append)
  let ?q = "um_ptr s p"
  have q: "?q = hd (ys @ [base])" using L(2) by (cases ys) simp_all
  have xs: "linked (um_ptr s) xs p" "linked (um_ptr s) ys base" using L(2) by simp_all
  show thesis
  proof (cases "bp + 8 * um_size s bp = ?q")
    case True
    have "base < bp" using blocks_okD(4) [OF B bp] .
    then obtain zs where ys: "ys = ?q # zs" using True q by (cases ys) auto
    have qX: "?q \<in> X" "?q \<noteq> base" using L(4) ys True \<open>base < bp\<close> by auto
    have "um_size s bp + um_size s ?q < 2 ^ 32" using blocks_okD(5) [OF B qX] True by simp
    then have f: "free_right bp p s = set_ptr bp (um_ptr s ?q) (set_size bp (um_size s bp + um_size s ?q) s)"
      "(um_size s bp + um_size s ?q) mod 2 ^ 32 = um_size s bp + um_size s ?q"
      using True small by (simp_all add: free_right_def Let_def)
    have "set ys - set zs = {?q}" using ys L(1) by (auto simp: sorted_wrt_append)
    then show thesis
      using blocks_merge [OF B bp(1) qX(1) bp(2) qX(2) True] ys f notin xs
      by (intro that [of zs]) simp_all
  next
    case False
    then have f: "free_right bp p s = set_ptr bp ?q s" using small by (simp add: free_right_def)
    show thesis using B f notin xs q by (intro that [of ys]) simp_all
  qed
qed

lemma free_left_ok:
  assumes B: "blocks_ok base h (um_brk s) (um_size s) X" and bp: "bp \<in> X" "bp \<noteq> base" "p \<in> X" "p < bp"
    and l: "linked (um_ptr s) xs p" "linked (um_ptr s) (bp # zs) base" and "distinct (xs @ p # bp # zs)"
  obtains us where "us = [bp] \<or> us = []" "blocks_ok base h (um_brk s) (um_size (free_left bp p s)) (X - ({bp} - set us))"
    "linked (um_ptr (free_left bp p s)) (xs @ p # us @ zs) base"
    "\<exists>a \<in> set (p # us). um_size s bp \<le> um_size (free_left bp p s) a" "\<forall>c. c \<noteq> p \<longrightarrow> um_size (free_left bp p s) c = um_size s c"
proof -
  have pe: "p + 8 * um_size s p < 2 ^ 32"
  proof (cases "p = base")
    case True
    then show ?thesis using B by (auto simp: blocks_ok_def)
  qed (rule blocks_okD(5) [OF B bp(3)])
  show thesis
  proof (cases "p + 8 * um_size s p = bp")
    case True
    have pb: "p \<noteq> base" using True bp(4) B by (auto simp: blocks_ok_def)
    have "um_size s p + um_size s bp < 2 ^ 32" using blocks_okD(5) [OF B bp(1,2)] True by simp
    then have f: "free_left bp p s = set_ptr p (um_ptr s bp) (set_size p (um_size s p + um_size s bp) s)"
      "(um_size s p + um_size s bp) mod 2 ^ 32 = um_size s p + um_size s bp"
      using True pe by (simp_all add: free_left_def Let_def)
    show thesis
      using blocks_merge [OF B bp(3,1) pb bp(2) True] f l assms(8) by (intro that [of "[]"]) simp_all
  next
    case False
    then have f: "free_left bp p s = set_ptr p bp s" using pe by (simp add: free_left_def)
    show thesis using B f l assms(8) by (intro that [of "[bp]"]) simp_all
  qed
qed

subsection \<open>The free list\<close>

text \<open>
  The free list \<open>L\<close> is a ring in the order of addresses that begins with the static header; \<open>A\<close> are the
  headers of the blocks in use.
\<close>

definition um_ring :: "nat \<Rightarrow> nat \<Rightarrow> um_st \<Rightarrow> nat set \<Rightarrow> nat list \<Rightarrow> bool" where
  "um_ring base h s A L \<longleftrightarrow> L \<noteq> [] \<and> hd L = base \<and> sorted_wrt (<) L \<and> linked (um_ptr s) L base \<and> um_freep s \<in> set L \<and>
     set L \<inter> A = {} \<and> blocks_ok base h (um_brk s) (um_size s) (set L \<union> A)"

lemma brk_free [simp]: "um_brk (free_right bp p s) = um_brk s" "um_brk (free_left bp p s) = um_brk s"
  by (simp_all add: free_right_def free_left_def Let_def)

lemma um_ringD:
  assumes "um_ring base h s A L"
  shows "L \<noteq> []" "hd L = base" "sorted_wrt (<) L" "linked (um_ptr s) L base" "um_freep s \<in> set L" "set L \<inter> A = {}"
    "blocks_ok base h (um_brk s) (um_size s) (set L \<union> A)" "base \<in> set L" "distinct L"
  using assms by (auto simp: um_ring_def intro: increasing_distinct)

lemma ufree_ring:
  assumes R: "um_ring base h s A L" and bp: "bp \<in> A"
  obtains s' L' where "ufree (bp + 8) s = Some s'" "um_ring base h s' (A - {bp}) L'" "um_brk s' = um_brk s"
    "\<forall>a \<in> A - {bp}. um_size s' a = um_size s a" "\<exists>a \<in> set L'. um_size s bp \<le> um_size s' a"
proof -
  note r = um_ringD [OF R]
  have nb: "bp \<noteq> base" "bp \<notin> set L" using r(2,6,8) bp by auto
  have bX: "bp \<in> set L \<union> A" using bp by simp
  note b = blocks_okD [OF r(7) bX nb(1)]
  obtain xs p ys where L: "L = xs @ p # ys" and p: "p < bp" "\<forall>y \<in> set ys. bp < y"
    using ring_split [OF r(3,1) _ nb(2)] r(2) b(4) by auto
  have hd: "hd (xs @ [p]) = base" using r(2) L by (cases xs) simp_all
  have "free_find s bp (um_freep s) = Some p"
    using free_find_ok [OF _ r(3) L p r(5)] r(2,4) by simp
  moreover have "(bp + 8 + 2 ^ 32 - 8) mod 2 ^ 32 = bp" using b(5) by simp
  ultimately have run: "ufree (bp + 8) s = Some ((free_left bp p (free_right bp p s))\<lparr>um_freep := p\<rparr>)"
    by (simp add: ufree_def)
  let ?s1 = "free_right bp p s"
  obtain zs where z: "zs = ys \<or> (\<exists>q. ys = q # zs)" "blocks_ok base h (um_brk s) (um_size ?s1) (set L \<union> A - (set ys - set zs))"
    "linked (um_ptr ?s1) xs p" "linked (um_ptr ?s1) (bp # zs) base"
    "um_size s bp \<le> um_size ?s1 bp" "\<forall>c. c \<noteq> bp \<longrightarrow> um_size ?s1 c = um_size s c"
    by (rule free_right_ok [OF r(7) bX nb(1) r(3,4) [unfolded L] hd _ p]) (auto simp: L)
  have s1: "sorted_wrt (<) (xs @ p # bp # zs)"
    using r(3) L p z(1) by (fastforce simp: sorted_wrt_append)
  let ?X = "set L \<union> A - (set ys - set zs)"
  have X: "bp \<in> ?X" "p \<in> ?X" "?X = set (xs @ p # zs) \<union> A" using bp L r(6,9) nb z(1) by auto
  let ?s2 = "free_left bp p ?s1"
  have z2: "blocks_ok base h (um_brk ?s1) (um_size ?s1) ?X" using z(2) by simp
  obtain us where u: "us = [bp] \<or> us = []" "blocks_ok base h (um_brk ?s1) (um_size ?s2) (?X - ({bp} - set us))"
    "linked (um_ptr ?s2) (xs @ p # us @ zs) base" "\<exists>a \<in> set (p # us). um_size ?s1 bp \<le> um_size ?s2 a"
    "\<forall>c. c \<noteq> p \<longrightarrow> um_size ?s2 c = um_size ?s1 c"
    by (rule free_left_ok [OF z2 X(1) nb(1) X(2) p(1) z(3,4) increasing_distinct [OF s1]])
  have "set zs \<subseteq> set ys" "bp \<notin> set (xs @ p # zs)" using z(1) increasing_distinct [OF s1] by auto
  then have "set (xs @ p # us @ zs) \<inter> (A - {bp}) = {}" "?X - ({bp} - set us) = set (xs @ p # us @ zs) \<union> (A - {bp})"
    using X(3) u(1) L r(6) bp by (elim disjE; fastforce)+
  moreover have "sorted_wrt (<) (xs @ p # us @ zs)" using s1 u(1) by (auto simp: sorted_wrt_append)
  moreover have "hd (xs @ p # us @ zs) = base" using hd by (cases xs) simp_all
  ultimately have "um_ring base h (?s2\<lparr>um_freep := p\<rparr>) (A - {bp}) (xs @ p # us @ zs)"
    using u(2,3) by (simp add: um_ring_def)
  moreover have "\<forall>a \<in> A - {bp}. um_size (?s2\<lparr>um_freep := p\<rparr>) a = um_size s a"
  proof
    fix a assume a: "a \<in> A - {bp}"
    then have "a \<noteq> p" using r(6) L by auto
    then show "um_size (?s2\<lparr>um_freep := p\<rparr>) a = um_size s a" using a z(6) u(5) by simp
  qed
  moreover have "\<exists>a \<in> set (xs @ p # us @ zs). um_size s bp \<le> um_size (?s2\<lparr>um_freep := p\<rparr>) a"
    using u(4) z(5) by (auto intro: le_trans)
  moreover have "um_brk (?s2\<lparr>um_freep := p\<rparr>) = um_brk s" by simp
  ultimately show thesis by (intro that [OF run])
qed

lemma blocks_new:
  assumes B: "blocks_ok base h e f X" and n: "0 < n" "e + 8 * n < 2 ^ 32 - 1"
  shows "e \<notin> X" "blocks_ok base h (e + 8 * n) (f(e := n)) (insert e X)"
proof -
  have below: "a < e \<and> a + 8 * f a \<le> e" if "a \<in> X" for a
  proof (cases "a = base")
    case True
    then show ?thesis using B by (auto simp: blocks_ok_def)
  qed (use blocks_okD(1,3) [OF B that] in simp)
  show e: "e \<notin> X" using below by blast
  have "apart (f(e := n)) (insert e X)"
    unfolding apart_def
  proof (intro ballI impI)
    fix a b assume ab: "a \<in> insert e X" "b \<in> insert e X" "a < b"
    then have "a \<in> X" using below by fastforce
    then show "a + 8 * (f(e := n)) a \<le> b" using ab below blocks_apart [OF B, of a b] e by auto
  qed
  then show "blocks_ok base h (e + 8 * n) (f(e := n)) (insert e X)"
    using B n e by (auto simp: blocks_ok_def units_insert units_upd)
qed

lemma blocks_split:
  assumes B: "blocks_ok base h e f X" and y: "y \<in> X" "y \<noteq> base" and n: "0 < n" "n < f y"
  defines "y' \<equiv> y + 8 * (f y - n)"
  shows "y' \<notin> X" "blocks_ok base h e (f(y := f y - n, y' := n)) (insert y' X)"
proof -
  have y': "y < y'" "y' + 8 * n = y + 8 * f y" using n by (auto simp: y'_def)
  show out: "y' \<notin> X" using blocks_apart [OF B y(1), of y'] y' n by auto
  have "apart (f(y := f y - n, y' := n)) (insert y' X)"
    unfolding apart_def
  proof (intro ballI impI)
    fix a b assume ab: "a \<in> insert y' X" "b \<in> insert y' X" "a < b"
    consider "a = y'" "b \<in> X" | "a = y" "b = y'" | "a = y" "b \<in> X" | "a \<in> X" "a \<noteq> y" "a \<noteq> y'" "b = y'" | "a \<in> X" "a \<noteq> y" "a \<noteq> y'" "b \<in> X"
      using ab by auto
    then show "a + 8 * (f(y := f y - n, y' := n)) a \<le> b"
    proof cases
      case 1
      then show ?thesis using blocks_apart [OF B y(1), of b] ab y' by simp
    next
      case 3
      then show ?thesis using blocks_apart [OF B y(1), of b] ab y' by simp
    next
      case 4
      then have "a < y" using blocks_apart [OF B y(1), of a] ab y' n by (cases a y rule: linorder_cases) auto
      then show ?thesis using blocks_apart [OF B _ y(1), of a] 4 y' by auto
    qed (use blocks_apart [OF B, of a b] ab y' in \<open>auto simp: y'_def\<close>)
  qed
  moreover have "units (f(y := f y - n, y' := n)) (insert y' X) = units f X"
  proof -
    have "units f X = {y ..< y + 8 * f y} \<union> units f (X - {y})"
      using units_insert [of f y "X - {y}"] y(1) by (simp add: insert_absorb)
    moreover have "units (f(y := f y - n)) X = {y ..< y'} \<union> units f (X - {y})"
      using units_insert [of "f(y := f y - n)" y "X - {y}"] y(1) by (simp add: insert_absorb units_upd y'_def)
    moreover have "{y ..< y + 8 * f y} = {y' ..< y' + 8 * n} \<union> {y ..< y'}" using y' n by auto
    ultimately show ?thesis using out by (auto simp: units_insert units_upd)
  qed
  ultimately show "blocks_ok base h e (f(y := f y - n, y' := n)) (insert y' X)"
    using B y n y' blocks_okD(4) [OF B y] by (auto simp: blocks_ok_def)
qed

lemma take_block_ok:
  assumes R: "um_ring base h s A L" and x: "x \<in> set L" "um_ptr s x = y" and y: "y \<in> set L" and n: "0 < n" "n \<le> um_size s y"
  obtains p s' L' where "take_block n x y s = (p + 8, s')" "um_ring base h s' (insert p A) L'" "p \<notin> A" "um_size s' p = n"
    "\<forall>a \<in> A. um_size s' a = um_size s a"
proof -
  note r = um_ringD [OF R]
  have nb: "y \<noteq> base" using r(7) n by (auto simp: blocks_ok_def)
  have yX: "y \<in> set L \<union> A" "y \<notin> A" using y r(6) by auto
  note b = blocks_okD [OF r(7) yX(1) nb]
  show thesis
  proof (cases "um_size s y = n")
    case True
    obtain us vs where L: "L = us @ y # vs" using y by (meson split_list)
    have us: "us \<noteq> []" using r(2) L nb by auto
    have l: "x = last us" using ring_pred [of "um_ptr s" L us y vs x] r(2,4,9) L us x by simp
    obtain ws where w: "us = ws @ [x]" using us l by (metis append_butlast_last_id)
    let ?s = "(set_ptr x (um_ptr s y) s)\<lparr>um_freep := x\<rparr>"
    have "hd (us @ vs) = base" using r(2) L us by simp
    moreover have "linked (um_ptr ?s) (us @ vs) base" using r(4,9) L w by simp
    moreover have "sorted_wrt (<) (us @ vs)" using r(3) L by (simp add: sorted_wrt_append)
    moreover have "set (us @ vs) \<union> insert y A = set L \<union> A" "set (us @ vs) \<inter> insert y A = {}" using L r(6,9) by auto
    ultimately have "um_ring base h ?s (insert y A) (us @ vs)"
      using r(7) us l by (simp add: um_ring_def del: linked_append)
    then show thesis
      using True b(5) n yX(2) by (intro that [of y ?s]) (simp_all add: take_block_def)
  next
    case False
    let ?y = "y + 8 * (um_size s y - n)" and ?f = "um_size s"
    have sm: "um_size s y < 2 ^ 32" "?y + 8 < 2 ^ 32" "?y < 2 ^ 32" using b(5) n False by auto
    let ?s = "(set_size ?y n (set_size y (um_size s y - n) s))\<lparr>um_freep := x\<rparr>"
    note sp = blocks_split [OF r(7) yX(1) nb n(1)]
    have nf: "n < um_size s y" using n False by simp
    have f: "um_size ?s = ?f(y := ?f y - n, ?y := n)" using sm n by auto
    have "um_ring base h ?s (insert ?y A) L"
      using r(1-6) x(1) sp(2) [OF nf] sp(1) [OF nf] f unfolding um_ring_def by auto
    then show thesis
      using False sm n sp(1) [OF nf] yX(2) f by (intro that [of ?y ?s]) (auto simp: take_block_def Let_def)
  qed
qed

subsection \<open>The search of malloc\<close>

abbreviation (input) malloc_more :: "nat \<Rightarrow> um_st \<Rightarrow> (nat \<times> um_st) option" where
  "malloc_more n s \<equiv> Option.bind (morecore n s) (\<lambda>(p, s'). if p = 0 then Some (0, s') else malloc_loop n p (um_ptr s' p) s')"

abbreviation (input) found :: "nat \<Rightarrow> um_st \<Rightarrow> nat set \<Rightarrow> (nat \<times> um_st) option \<Rightarrow> bool" where
  "found n s X r \<equiv> (\<exists>x y. x \<in> X \<and> y \<in> X \<and> um_ptr s x = y \<and> n \<le> um_size s y \<and> r = Some (take_block n x y s))"

lemma malloc_walk:
  "linked (um_ptr s) (x # vs) (um_freep s) \<Longrightarrow> um_freep s \<notin> set vs \<Longrightarrow>
   found n s (insert (um_freep s) (set (x # vs))) (malloc_loop n x (hd (vs @ [um_freep s])) s) \<or>
   (\<forall>y \<in> set (vs @ [um_freep s]). um_size s y < n) \<and> malloc_loop n x (hd (vs @ [um_freep s])) s = malloc_more n s"
proof (induction vs arbitrary: x)
  case Nil
  show ?case
  proof (cases "n \<le> um_size s (um_freep s)")
    case True
    then show ?thesis
      using Nil by (intro disjI1 exI [of _ x] exI [of _ "um_freep s"]) (simp add: malloc_loop.simps [of n x "um_freep s"])
  qed (simp add: malloc_loop.simps [of n x "um_freep s"])
next
  case (Cons v vs)
  have v: "um_ptr s x = v" "v \<noteq> um_freep s" "um_ptr s v = hd (vs @ [um_freep s])" using Cons.prems by simp_all
  show ?case
  proof (cases "n \<le> um_size s v")
    case True
    then have "malloc_loop n x v s = Some (take_block n x v s)" by (simp add: malloc_loop.simps [of n x v])
    then show ?thesis using True v(1) by (intro disjI1 exI [of _ x] exI [of _ v]) simp
  next
    case False
    then have "malloc_loop n x v s = malloc_loop n v (hd (vs @ [um_freep s])) s"
      using v by (simp add: malloc_loop.simps [of n x v])
    then show ?thesis using Cons.IH [of v] Cons.prems False by auto
  qed
qed

lemma malloc_search:
  assumes R: "um_ring base h s A L"
  shows "found n s (set L) (malloc_loop n (um_freep s) (um_ptr s (um_freep s)) s) \<or>
     (\<forall>y \<in> set L. um_size s y < n) \<and> malloc_loop n (um_freep s) (um_ptr s (um_freep s)) s = malloc_more n s"
proof -
  note r = um_ringD [OF R]
  obtain us vs where L: "L = us @ um_freep s # vs" using r(5) by (meson split_list)
  have hd: "hd (us @ [um_freep s]) = base" using r(2) L by (cases us) simp_all
  have l: "linked (um_ptr s) us (um_freep s)" "um_ptr s (um_freep s) = hd (vs @ [base])" "linked (um_ptr s) vs base"
    using r(4) L by simp_all
  have next_hd: "hd (vs @ us @ [um_freep s]) = hd (vs @ [base])" using hd by (cases vs) simp_all
  have "linked (um_ptr s) (um_freep s # vs @ us) (um_freep s)" using l hd next_hd by simp
  moreover have "um_freep s \<notin> set (vs @ us)" using r(9) L by auto
  moreover have "hd ((vs @ us) @ [um_freep s]) = um_ptr s (um_freep s)" using l(2) next_hd by simp
  moreover have "insert (um_freep s) (set (um_freep s # vs @ us)) = set L" "set ((vs @ us) @ [um_freep s]) = set L"
    using L by auto
  ultimately show ?thesis using malloc_walk [of s "um_freep s" "vs @ us" n] by presburger
qed

lemma morecore_ok:
  assumes R: "um_ring base h s A L" and n: "um_brk s + 8 * max 4096 n < 2 ^ 32 - 1"
  obtains s' L' where "morecore n s = Some (um_freep s', s')" "um_ring base h s' A L'" "\<exists>a \<in> set L'. n \<le> um_size s' a"
    "\<forall>a \<in> A. um_size s' a = um_size s a" "um_freep s' \<noteq> 0"
proof -
  note r = um_ringD [OF R]
  define m where "m = (if n < 4096 then 4096 else n)"
  have m: "0 < m" "n \<le> m" "um_brk s + 8 * m < 2 ^ 32 - 1" using n by (auto simp: m_def)
  let ?p = "um_brk s" and ?s = "set_size (um_brk s) m (s\<lparr>um_brk := um_brk s + 8 * m\<rparr>)"
  note new = blocks_new [OF r(7) m(1,3)]
  have f: "um_size ?s = (um_size s)(?p := m)" using m by auto
  have ring: "um_ring base h ?s (insert ?p A) L"
    using r(1-6) new f unfolding um_ring_def by auto
  obtain s' L' where s': "ufree (?p + 8) ?s = Some s'"
    "um_ring base h s' (insert ?p A - {?p}) L'" "um_brk s' = um_brk ?s" "\<forall>a \<in> insert ?p A - {?p}. um_size s' a = um_size ?s a"
    "\<exists>a \<in> set L'. um_size ?s ?p \<le> um_size s' a"
    by (rule ufree_ring [OF ring insertI1])
  have A: "insert ?p A - {?p} = A" using new(1) by auto
  have run: "morecore n s = Some (um_freep s', s')"
    using m s'(1) by (simp add: morecore_def um_sbrk_def Let_def m_def [symmetric] mult.commute [of m])
  have "base \<le> um_freep s'"
    using um_ringD(2,3,5) [OF s'(2)] by (cases L') auto
  then have "um_freep s' \<noteq> 0" using r(7) by (auto simp: blocks_ok_def)
  moreover have "\<forall>a \<in> A. um_size s' a = um_size s a" using s'(4) new(1) unfolding A f by auto
  moreover have "\<exists>a \<in> set L'. n \<le> um_size s' a" using s'(5) m(2) unfolding f by (auto intro: le_trans)
  ultimately show thesis by (intro that [OF run s'(2) [unfolded A]])
qed

text \<open>
  The state of the heap: not yet used, or with a free list. Every byte of the heap belongs to exactly one
  block, in use or free.
\<close>

definition um_inv :: "nat \<Rightarrow> nat \<Rightarrow> um_st \<Rightarrow> nat set \<Rightarrow> bool" where
  "um_inv base h s A \<longleftrightarrow>
     (um_freep s = 0 \<and> A = {} \<and> um_brk s = h \<and> 0 < base \<and> base < h \<and> h < 2 ^ 32 - 1) \<or> (\<exists>L. um_ring base h s A L)"

lemma um_ring_init:
  assumes "um_brk s = h" and "0 < base" "base < h" "h < 2 ^ 32 - 1"
  shows "um_ring base h ((set_size base 0 (set_ptr base base s))\<lparr>um_freep := base\<rparr>) {} [base]"
  using assms by (simp add: um_ring_def blocks_ok_def apart_def units_def)

lemma malloc_loop_ok:
  assumes R: "um_ring base h s A L" and n: "0 < n" "um_brk s + 8 * max 4096 n < 2 ^ 32 - 1"
  obtains p s' L' where "malloc_loop n (um_freep s) (um_ptr s (um_freep s)) s = Some (p + 8, s')"
    "um_ring base h s' (insert p A) L'" "p \<notin> A" "um_size s' p = n" "\<forall>a \<in> A. um_size s' a = um_size s a"
proof (cases "found n s (set L) (malloc_loop n (um_freep s) (um_ptr s (um_freep s)) s)")
  case True
  then obtain x y where f: "x \<in> set L" "um_ptr s x = y" "y \<in> set L" "n \<le> um_size s y"
    "malloc_loop n (um_freep s) (um_ptr s (um_freep s)) s = Some (take_block n x y s)" by blast
  obtain p s' L' where p: "take_block n x y s = (p + 8, s')" "um_ring base h s' (insert p A) L'" "p \<notin> A" "um_size s' p = n"
    "\<forall>a \<in> A. um_size s' a = um_size s a"
    by (rule take_block_ok [OF R f(1-3) n(1) f(4)])
  show thesis using f(5) p by (intro that [of p s' L']) simp_all
next
  case False
  then have more: "malloc_loop n (um_freep s) (um_ptr s (um_freep s)) s = malloc_more n s"
    using malloc_search [OF R, of n] by blast
  obtain t M where t: "morecore n s = Some (um_freep t, t)" "um_ring base h t A M" "\<exists>a \<in> set M. n \<le> um_size t a"
    "\<forall>a \<in> A. um_size t a = um_size s a" "um_freep t \<noteq> 0"
    by (rule morecore_ok [OF R n(2)])
  have "found n t (set M) (malloc_loop n (um_freep t) (um_ptr t (um_freep t)) t)"
    using malloc_search [OF t(2), of n] t(3) by fastforce
  then obtain x y where f: "x \<in> set M" "um_ptr t x = y" "y \<in> set M" "n \<le> um_size t y"
    "malloc_loop n (um_freep t) (um_ptr t (um_freep t)) t = Some (take_block n x y t)" by blast
  obtain p s' L' where p: "take_block n x y t = (p + 8, s')" "um_ring base h s' (insert p A) L'" "p \<notin> A" "um_size s' p = n"
    "\<forall>a \<in> A. um_size s' a = um_size t a"
    by (rule take_block_ok [OF t(2) f(1-3) n(1) f(4)])
  show thesis using more t f(5) p by (intro that [of p s' L']) simp_all
qed

lemma malloc_inv:
  assumes "um_inv base h s A" and "nbytes \<le> 2 ^ 32 - 8" and "um_brk s + 8 * max 4096 (nunits_of nbytes) < 2 ^ 32 - 1"
  shows "\<exists>p s'. malloc base nbytes s = Some (p + 8, s') \<and> p \<notin> A \<and> um_inv base h s' (insert p A) \<and>
     p + 8 + nbytes \<le> p + 8 * um_size s' p \<and> (\<forall>a \<in> A. um_size s' a = um_size s a)"
proof -
  let ?n = "nunits_of nbytes"
  define t where "t = (if um_freep s = 0 then (set_size base 0 (set_ptr base base s))\<lparr>um_freep := base\<rparr> else s)"
  have n: "0 < ?n" "8 + nbytes \<le> 8 * ?n" using assms(2) by (auto simp: nunits_of_def)
  have "(\<exists>L. um_ring base h t A L) \<and> (\<forall>a \<in> A. um_size t a = um_size s a) \<and> um_brk t = um_brk s"
  proof (cases "um_freep s = 0")
    case True
    then have "\<not> um_ring base h s A L" for L
      using um_ringD(2,3,5,7) [of base h s A L] by (cases L) (auto simp: blocks_ok_def)
    then show ?thesis using assms(1) True um_ring_init [of s h base] by (auto simp: um_inv_def t_def)
  qed (use assms(1) in \<open>auto simp: um_inv_def t_def\<close>)
  then obtain L where t: "um_ring base h t A L" "\<forall>a \<in> A. um_size t a = um_size s a" "um_brk t = um_brk s" by blast
  obtain p s' L' where p: "malloc_loop ?n (um_freep t) (um_ptr t (um_freep t)) t = Some (p + 8, s')"
    "um_ring base h s' (insert p A) L'" "p \<notin> A" "um_size s' p = ?n" "\<forall>a \<in> A. um_size s' a = um_size t a"
    by (rule malloc_loop_ok [OF t(1) n(1) assms(3) [folded t(3)]])
  have "malloc base nbytes s = Some (p + 8, s')" using p(1) by (simp add: malloc_def t_def Let_def)
  moreover have "um_inv base h s' (insert p A)" using p(2) by (auto simp: um_inv_def)
  ultimately show ?thesis using p(3-5) t(2) n(2) by (intro exI [of _ p] exI [of _ s'] conjI) simp_all
qed

text \<open>
  C38. \<open>malloc\<close> always ends and returns a new block: when the address space still has room for a request
  to the kernel, the block has at least the bytes asked for, overlaps no block in use, and every byte of
  the heap still belongs to exactly one block. The blocks in use keep their sizes.
\<close>

theorem malloc_gives_block:
  assumes "um_inv base h s A" and "nbytes \<le> 2 ^ 32 - 8" and "um_brk s + 8 * max 4096 (nunits_of nbytes) < 2 ^ 32 - 1"
  shows "\<exists>p s'. malloc base nbytes s = Some (p + 8, s') \<and> p \<notin> A \<and> um_inv base h s' (insert p A) \<and>
     p + 8 + nbytes \<le> p + 8 * um_size s' p \<and> (\<forall>a \<in> A. um_size s' a = um_size s a)"
  using assms by (rule malloc_inv)


definition um0 :: um_st where
  "um0 = \<lparr>um_ptr = \<lambda>_. 0, um_size = \<lambda>_. 0, um_freep = 0, um_brk = 0x3000\<rparr>"

lemma um0_room: "um_brk um0 + 8 * max 4096 (nunits_of 100) < 2 ^ 32 - 1" "(100 :: nat) \<le> 2 ^ 32 - 8"
  by (simp_all add: um0_def nunits_of_def)

lemma um0_inv: "um_inv 0x800 0x3000 um0 {}"
  by (simp add: um_inv_def um0_def)

theorem malloc_gives_block_witness:
  "\<exists>p s'. malloc 0x800 100 um0 = Some (p + 8, s') \<and> um_inv 0x800 0x3000 s' {p} \<and> p + 8 + 100 \<le> p + 8 * um_size s' p"
  using malloc_gives_block [OF um0_inv um0_room(2,1)] by blast


end
