(* ===== verification/Spec2Isabelle.thy ===== *)
theory Spec2Isabelle
  imports Lru Syscall Ide Grep Sh Umalloc
begin

text \<open>
  Verification of an x86 xv6 kernel and of some of its user programs.

  \<^bold>\<open>The program.\<close> The kernel starts on several processors that share memory. Spinlocks (spinlock.c)
  protect its data; the page allocator (kalloc.c) and the page tables (vm.c) provide memory; processes
  (proc.c) sleep on channels and are chosen by one of three schedulers; sleeping locks (sleeplock.c)
  build on both. The disk is reached through a buffer cache (bio.c), a write-ahead log (log.c) and the
  file system (fs.c); pipes (pipe.c) and open files (file.c) give both a common face. Devices (console.c,
  kbd.c, uart.c, lapic.c, ioapic.c, picirq.c) and processes enter the kernel through trap.c; syscall.c,
  sysproc.c and sysfile.c fetch the arguments of a system call from user memory and dispatch it; exec.c
  loads a program.

  \<^bold>\<open>The model.\<close> One record per component extends the record of the component below it, so that every
  operation is typed by the part of the machine it can reach: \<open>mach\<close> (processors, registers, locks),
  \<open>kmem_st\<close> (memory, free list), \<open>vm_st\<close>, \<open>proc_st\<close> (process table, ticks), \<open>slock_st\<close>, \<open>bio_st\<close> (buffers,
  disk), \<open>log_st\<close>, \<open>fs_st\<close> (superblock, inode cache), \<open>pipe_st\<close>, \<open>file_st\<close>, \<open>dev_st\<close> (ports, APICs), \<open>cons_st\<close>,
  \<open>kern_st\<close>. An operation is a function from a state to an outcome (\<open>Xv6_Prelude\<close>): \<open>Ret\<close> with a result,
  \<open>Panic\<close>, \<open>Block\<close> on a channel in sleep, \<open>Resched\<close> in yield and exit, or \<open>Spin\<close> on a lock that another
  processor holds. What a routine does after it sleeps or yields is its \<open>_resume\<close> definition. Undefined
  behaviour of C is the panic \<open>undefined\<close>, a null dereference the panic \<open>trap\<close>. Machine words are words of
  their width, and sums wrap around as in C. Memory is a function from addresses to bytes; the free list,
  the page tables, kernel stacks and trap frames are stored in it.

  \<^item> \<open>Spinlock\<close>: spinlock.c and the processor state of proc.c and x86.h. Under every interleaving of the
    processors at most one holds a lock.
  \<^item> \<open>Cstring\<close>: string.c and the string routines of ulib.c; \<open>Mmu\<close>: the macros of mmu.h and memlayout.h.
  \<^item> \<open>Kalloc\<close>: kalloc.c; the list threaded through free pages is a stack of distinct pages.
  \<^item> \<open>Vm\<close>: vm.c; a mapping changes the translation of exactly the pages asked for.
  \<^item> \<open>Proc\<close>: the process table, sleep, wakeup, wait, kill and the schedulers of proc.c. The locale \<open>picker\<close>
    states what the schedulers share. No wakeup is lost; each scheduler picks a best runnable process.
  \<^item> \<open>Sleeplock\<close>: sleeplock.c.
  \<^item> \<open>Blockdata\<close>, \<open>Bio\<close>, \<open>Lru\<close>: words in blocks, bio.c over the memory disk memide.c, and the doubly linked
    list of buffers, which refines a list in order of use.
  \<^item> \<open>Log\<close>: log.c; a crash at any point of a commit leaves all or none of its blocks after recovery.
  \<^item> \<open>Fs\<close>: fs.c with extents; allocation of blocks, path elements, the extent search, and four defects.
  \<^item> \<open>Ring\<close>: circular buffers with wrapping counters, a locale interpreted for pipes and for the console.
  \<^item> \<open>Pipe\<close>, \<open>File\<close>: pipe.c and file.c; a pipe is a queue of bytes.
  \<^item> \<open>Devices\<close>, \<open>Console\<close>: the device drivers, console.c, procdump and getcallerpcs. The locale \<open>char_source\<close>
    abstracts the two sources of characters; the interrupt handler refines a line editor on lists.
  \<^item> \<open>Usermem\<close>: page faults of trap.c, access to user memory, and the argument fetching of syscall.c.
  \<^item> \<open>Process\<close>, \<open>Sysfile\<close>, \<open>Syscall\<close>: fork, exit, userinit, exec, all system calls, and both builds of trap.

  \<^bold>\<open>Bounds and fuel.\<close> Recursion is structural or has a termination proof except in \<open>consoleintr_loop\<close>,
  which may read as many characters as its device has and gets one more than that as fuel; that this is
  enough is part of the theorem on the keyboard interrupt. Loops over tables run over their lengths
  (64 processes, 16 descriptors, 100 files, 30 buffers, 50 inodes).

  \<^bold>\<open>Conventions.\<close> Routines that read bytes into a buffer return them as a list, routines that write take a
  function from offsets to bytes; system calls copy them from or to user memory before or after. The
  functions stored in \<open>devsw\<close> are an argument of the file system until \<open>Console\<close> defines them. Names of
  locks, which only debugging output uses, are kept for spinlocks and left out for sleeping locks.

  \<^bold>\<open>Not modelled.\<close> Assembly (bootasm.S, entry.S, entryother.S, initcode.S, swtch.S, trapasm.S, usys.S) and
  the generated vectors: their effect on the state is described where C code depends on it. The routines
  of lapic.c that read the clock chip have no caller. \<open>clone\<close> of proc.c has no caller, returns no value
  and passes a file where an inode is expected, so that it has no defined behaviour to model. The test
  programs (usertests.c, forktest.c, stressfs.c and the small programs that exercise one system call) do
  nothing but call the kernel and compare.
\<close>

end
